(* ===== verification/Wine_Prelude.thy ===== *)
theory Wine_Prelude
  imports Main "HOL-Library.Word" "HOL-Library.Sublist"
begin

unbundle bit_operations_syntax

text \<open>
  Shared vocabulary of the development: the machine types of the server's C code, the NTSTATUS
  values its request handlers report (\<^verbatim>\<open>include/ntstatus.h\<close>), C integer conversions, and the generic
  list facts that the component theories use.
\<close>

section \<open>Machine types\<close>

type_synonym u8 = "8 word"
type_synonym u16 = "16 word"
type_synonym u32 = "32 word"
type_synonym u64 = "64 word"

text \<open>An NTSTATUS value, as \<^verbatim>\<open>set_error\<close> takes it.\<close>

type_synonym status = "32 word"

text \<open>A result of a fallible server function: the status it sets, or its value.\<close>

type_synonym 'a result = "status + 'a"

text \<open>
  \<open>s32\<close> is the conversion of a C integer value to \<^verbatim>\<open>int\<close> (two's complement, as every compiler the
  server supports does it), \<open>u32_of\<close> the conversion to \<^verbatim>\<open>unsigned int\<close>.
\<close>

definition s32 :: "int \<Rightarrow> int" where
  "s32 x = (x + 2 ^ 31) mod 2 ^ 32 - 2 ^ 31"

definition u32_of :: "int \<Rightarrow> int" where
  "u32_of x = x mod 2 ^ 32"

definition in_s32 :: "int \<Rightarrow> bool" where
  "in_s32 x \<longleftrightarrow> - (2 ^ 31) \<le> x \<and> x < 2 ^ 31"

section \<open>Status values\<close>

abbreviation "STATUS_SUCCESS \<equiv> (0x00000000 :: status)"
abbreviation "STATUS_ABANDONED_WAIT_0 \<equiv> (0x00000080 :: status)"
abbreviation "STATUS_USER_APC \<equiv> (0x000000C0 :: status)"
abbreviation "STATUS_KERNEL_APC \<equiv> (0x00000100 :: status)"
abbreviation "STATUS_TIMEOUT \<equiv> (0x00000102 :: status)"
abbreviation "STATUS_PENDING \<equiv> (0x00000103 :: status)"
abbreviation "STATUS_OBJECT_NAME_EXISTS \<equiv> (0x40000000 :: status)"
abbreviation "STATUS_THREAD_WAS_SUSPENDED \<equiv> (0x40000001 :: status)"
abbreviation "STATUS_BUFFER_OVERFLOW \<equiv> (0x80000005 :: status)"
abbreviation "STATUS_INVALID_HANDLE \<equiv> (0xC0000008 :: status)"
abbreviation "STATUS_INVALID_PARAMETER \<equiv> (0xC000000D :: status)"
abbreviation "STATUS_NO_MEMORY \<equiv> (0xC0000017 :: status)"
abbreviation "STATUS_ACCESS_DENIED \<equiv> (0xC0000022 :: status)"
abbreviation "STATUS_BUFFER_TOO_SMALL \<equiv> (0xC0000023 :: status)"
abbreviation "STATUS_NOT_SAME_OBJECT \<equiv> (0xC00001AC :: status)"
abbreviation "STATUS_OBJECT_TYPE_MISMATCH \<equiv> (0xC0000024 :: status)"
abbreviation "STATUS_OBJECT_NAME_INVALID \<equiv> (0xC0000033 :: status)"
abbreviation "STATUS_OBJECT_NAME_NOT_FOUND \<equiv> (0xC0000034 :: status)"
abbreviation "STATUS_MUTANT_NOT_OWNED \<equiv> (0xC0000046 :: status)"
abbreviation "STATUS_SEMAPHORE_LIMIT_EXCEEDED \<equiv> (0xC0000047 :: status)"
abbreviation "STATUS_FILE_LOCK_CONFLICT \<equiv> (0xC0000054 :: status)"
abbreviation "STATUS_RANGE_NOT_LOCKED \<equiv> (0xC000007E :: status)"
abbreviation "STATUS_INSUFFICIENT_RESOURCES \<equiv> (0xC000009A :: status)"
abbreviation "STATUS_PROCESS_IS_TERMINATING \<equiv> (0xC000010A :: status)"
abbreviation "STATUS_INVALID_LOCK_RANGE \<equiv> (0xC00001A1 :: status)"
abbreviation "STATUS_HANDLE_NOT_CLOSABLE \<equiv> (0xC0000235 :: status)"
abbreviation "STATUS_NOT_ALL_ASSIGNED \<equiv> (0x00000106 :: status)"
abbreviation "STATUS_NO_IMPERSONATION_TOKEN \<equiv> (0xC000005C :: status)"
abbreviation "STATUS_PRIVILEGE_NOT_HELD \<equiv> (0xC0000061 :: status)"
abbreviation "STATUS_INVALID_ACL \<equiv> (0xC0000077 :: status)"
abbreviation "STATUS_INVALID_SECURITY_DESCR \<equiv> (0xC0000079 :: status)"
abbreviation "STATUS_NO_TOKEN \<equiv> (0xC000007C :: status)"
abbreviation "STATUS_BAD_IMPERSONATION_LEVEL \<equiv> (0xC00000A5 :: status)"
abbreviation "STATUS_CANT_OPEN_ANONYMOUS \<equiv> (0xC00000A6 :: status)"
abbreviation "STATUS_GENERIC_NOT_MAPPED \<equiv> (0xC00000E6 :: status)"
abbreviation "STATUS_ACCESS_VIOLATION \<equiv> (0xC0000005 :: status)"
abbreviation "STATUS_SHARING_VIOLATION \<equiv> (0xC0000043 :: status)"
abbreviation "STATUS_DISK_FULL \<equiv> (0xC000007F :: status)"
abbreviation "STATUS_NO_SUCH_FILE \<equiv> (0xC000000F :: status)"
abbreviation "STATUS_FILE_IS_A_DIRECTORY \<equiv> (0xC00000BA :: status)"
abbreviation "STATUS_TOO_MANY_OPENED_FILES \<equiv> (0xC000011F :: status)"
abbreviation "STATUS_OBJECT_NAME_COLLISION \<equiv> (0xC0000035 :: status)"
abbreviation "STATUS_ILLEGAL_FUNCTION \<equiv> (0xC00000AF :: status)"
abbreviation "STATUS_DIRECTORY_NOT_EMPTY \<equiv> (0xC0000101 :: status)"
abbreviation "STATUS_NOT_A_DIRECTORY \<equiv> (0xC0000103 :: status)"
abbreviation "STATUS_SECTION_TOO_BIG \<equiv> (0xC0000040 :: status)"
abbreviation "STATUS_NO_SUCH_DEVICE \<equiv> (0xC000000E :: status)"
abbreviation "STATUS_NOT_SAME_DEVICE \<equiv> (0xC00000D4 :: status)"
abbreviation "STATUS_REPARSE_POINT_NOT_RESOLVED \<equiv> (0xC0000280 :: status)"
abbreviation "STATUS_UNSUCCESSFUL \<equiv> (0xC0000001 :: status)"
abbreviation "STATUS_CANNOT_DELETE \<equiv> (0xC0000121 :: status)"
abbreviation "STATUS_USER_MAPPED_FILE \<equiv> (0xC0000243 :: status)"
abbreviation "STATUS_INVALID_DEVICE_REQUEST \<equiv> (0xC0000010 :: status)"

section \<open>C integer conversions\<close>

lemma s32_id [simp]: "in_s32 x \<Longrightarrow> s32 x = x"
  by (simp add: in_s32_def s32_def)

lemma in_s32_s32 [simp]: "in_s32 (s32 x)"
  by (simp add: in_s32_def s32_def)

lemma u32_of_bounds: "0 \<le> u32_of x \<and> u32_of x < 2 ^ 32"
  by (simp add: u32_of_def)

lemma u32_of_id [simp]: "0 \<le> x \<Longrightarrow> x < 2 ^ 32 \<Longrightarrow> u32_of x = x"
  by (simp add: u32_of_def)

section \<open>Step relations\<close>

text \<open>
  The requests of each component form a step relation. What a component promises is an invariant that every single step keeps;
  it then holds after any sequence of requests, and with it everything that follows from it.
\<close>

locale step_invariant =
  fixes step :: "'s \<Rightarrow> 's \<Rightarrow> bool" and inv :: "'s \<Rightarrow> bool"
  assumes step_keeps: "step s s' \<Longrightarrow> inv s \<Longrightarrow> inv s'"
begin

lemma steps_keep:
  assumes "step\<^sup>*\<^sup>* s s'" and "inv s"
  shows "inv s'"
  using assms by (induction rule: rtranclp_induct) (auto intro: step_keeps)

end

section \<open>Lists\<close>

lemma takeWhile_same_key:
  "\<forall>x \<in> set (takeWhile (\<lambda>x. f x = k) xs). f x = k"
  by (auto dest: set_takeWhileD)

lemma hd_takeWhile_ne: "xs \<noteq> [] \<Longrightarrow> P (hd xs) \<Longrightarrow> takeWhile P xs \<noteq> []"
  by (cases xs) auto

lemma length_dropWhile_less: "xs \<noteq> [] \<Longrightarrow> P (hd xs) \<Longrightarrow> length (dropWhile P xs) < length xs"
  by (cases xs) (auto simp: le_imp_less_Suc length_dropWhile_le)

end
