(* ===== verification/Rectangles.thy ===== *)
theory Rectangles
  imports Wine_Prelude
begin

text \<open>
  Rectangles of window regions (\<^verbatim>\<open>struct rectangle\<close> of \<^verbatim>\<open>include/wine/server_protocol.h\<close>) and the
  inline helpers of \<^verbatim>\<open>server/user.h\<close>. A coordinate is a C \<^verbatim>\<open>int\<close>; comparisons are exact, and the
  helpers that compute new coordinates write the 32-bit wrap-around out with \<^const>\<open>s32\<close>.
\<close>

record rectangle =
  rleft :: int
  rtop :: int
  rright :: int
  rbottom :: int

definition empty_rect :: rectangle where
  "empty_rect = \<lparr>rleft = 0, rtop = 0, rright = 0, rbottom = 0\<rparr>"

definition is_rect_equal :: "rectangle \<Rightarrow> rectangle \<Rightarrow> bool" where
  "is_rect_equal rect1 rect2 \<longleftrightarrow>
     rleft rect1 = rleft rect2 \<and> rright rect1 = rright rect2 \<and>
     rtop rect1 = rtop rect2 \<and> rbottom rect1 = rbottom rect2"

definition is_rect_empty :: "rectangle \<Rightarrow> bool" where
  "is_rect_empty rect \<longleftrightarrow> rleft rect \<ge> rright rect \<or> rtop rect \<ge> rbottom rect"

definition point_in_rect :: "rectangle \<Rightarrow> int \<Rightarrow> int \<Rightarrow> bool" where
  "point_in_rect rect x y \<longleftrightarrow>
     x \<ge> rleft rect \<and> x < rright rect \<and> y \<ge> rtop rect \<and> y < rbottom rect"

text \<open>
  \<^verbatim>\<open>scale_dpi\<close> multiplies an \<^verbatim>\<open>int\<close> by an \<^verbatim>\<open>unsigned int\<close>: C converts the value to unsigned, so the
  product, the rounding term and the division are all unsigned, and the quotient is converted back.
  Every caller passes a nonzero \<open>dpi_from\<close> (a zero one would trap in C).
\<close>

definition scale_dpi :: "int \<Rightarrow> int \<Rightarrow> int \<Rightarrow> int" where
  "scale_dpi val dpi_from dpi_to =
     (if val \<ge> 0 then s32 (u32_of (u32_of val * dpi_to + dpi_from div 2) div dpi_from)
      else s32 (u32_of (u32_of val * dpi_to - dpi_from div 2) div dpi_from))"

definition scale_dpi_rect :: "rectangle \<Rightarrow> int \<Rightarrow> int \<Rightarrow> rectangle" where
  "scale_dpi_rect rect dpi_from dpi_to =
     \<lparr>rleft = scale_dpi (rleft rect) dpi_from dpi_to,
      rtop = scale_dpi (rtop rect) dpi_from dpi_to,
      rright = scale_dpi (rright rect) dpi_from dpi_to,
      rbottom = scale_dpi (rbottom rect) dpi_from dpi_to\<rparr>"

definition offset_rect :: "rectangle \<Rightarrow> int \<Rightarrow> int \<Rightarrow> rectangle" where
  "offset_rect rect offset_x offset_y =
     \<lparr>rleft = s32 (rleft rect + offset_x), rtop = s32 (rtop rect + offset_y),
      rright = s32 (rright rect + offset_x), rbottom = s32 (rbottom rect + offset_y)\<rparr>"

definition mirror_rect :: "rectangle \<Rightarrow> rectangle \<Rightarrow> rectangle" where
  "mirror_rect client_rect rect =
     (let width = s32 (rright client_rect - rleft client_rect)
      in rect\<lparr>rleft := s32 (width - rright rect), rright := s32 (width - rleft rect)\<rparr>)"

definition intersect_rect :: "rectangle \<Rightarrow> rectangle \<Rightarrow> bool \<times> rectangle" where
  "intersect_rect src1 src2 =
     (let dst = \<lparr>rleft = max (rleft src1) (rleft src2), rtop = max (rtop src1) (rtop src2),
                 rright = min (rright src1) (rright src2), rbottom = min (rbottom src1) (rbottom src2)\<rparr>
      in (\<not> is_rect_empty dst, dst))"

definition reset_bounds :: rectangle where
  "reset_bounds = \<lparr>rleft = 2 ^ 31 - 1, rtop = 2 ^ 31 - 1, rright = - (2 ^ 31), rbottom = - (2 ^ 31)\<rparr>"

definition union_rect :: "rectangle \<Rightarrow> rectangle \<Rightarrow> rectangle" where
  "union_rect src1 src2 =
     (if is_rect_empty src1 then (if is_rect_empty src2 then reset_bounds else src2)
      else if is_rect_empty src2 then src1
      else \<lparr>rleft = min (rleft src1) (rleft src2), rtop = min (rtop src1) (rtop src2),
            rright = max (rright src1) (rright src2), rbottom = max (rbottom src1) (rbottom src2)\<rparr>)"

section \<open>Points\<close>

text \<open>The points of a rectangle and of a list of rectangles, on the integer grid.\<close>

definition rect_pts :: "rectangle \<Rightarrow> (int \<times> int) set" where
  "rect_pts rect = {(x, y). point_in_rect rect x y}"

definition rects_pts :: "rectangle list \<Rightarrow> (int \<times> int) set" where
  "rects_pts rs = (\<Union>r \<in> set rs. rect_pts r)"

lemma rects_pts_iff:
  "(x, y) \<in> rects_pts rs \<longleftrightarrow>
     (\<exists>r \<in> set rs. rleft r \<le> x \<and> x < rright r \<and> rtop r \<le> y \<and> y < rbottom r)"
  by (auto simp: rects_pts_def rect_pts_def point_in_rect_def)

lemma rects_pts_Nil [simp]: "rects_pts [] = {}"
  by (simp add: rects_pts_def)

lemma rects_pts_append [simp]: "rects_pts (xs @ ys) = rects_pts xs \<union> rects_pts ys"
  by (simp add: rects_pts_def)

lemma rects_pts_Cons [simp]: "rects_pts (x # xs) = rect_pts x \<union> rects_pts xs"
  by (simp add: rects_pts_def)

lemma rect_pts_empty_iff: "rect_pts r = {} \<longleftrightarrow> is_rect_empty r"
proof -
  have "(rleft r, rtop r) \<in> rect_pts r" if "\<not> is_rect_empty r"
    using that by (simp add: is_rect_empty_def rect_pts_def point_in_rect_def)
  moreover have "rect_pts r = {}" if "is_rect_empty r"
    using that by (auto simp: is_rect_empty_def rect_pts_def point_in_rect_def)
  ultimately show ?thesis by blast
qed

lemma is_rect_equal_iff: "is_rect_equal r1 r2 \<longleftrightarrow> r1 = r2"
  by (auto simp: is_rect_equal_def)

lemma intersect_rect_pts: "rect_pts (snd (intersect_rect a b)) = rect_pts a \<inter> rect_pts b"
  by (auto simp: intersect_rect_def Let_def rect_pts_def point_in_rect_def)

lemma intersect_rect_nonempty: "fst (intersect_rect a b) \<longleftrightarrow> rect_pts a \<inter> rect_pts b \<noteq> {}"
proof -
  have "fst (intersect_rect a b) \<longleftrightarrow> \<not> is_rect_empty (snd (intersect_rect a b))"
    by (simp add: intersect_rect_def Let_def)
  then show ?thesis by (simp add: rect_pts_empty_iff [symmetric] intersect_rect_pts)
qed

text \<open>\<^const>\<open>union_rect\<close> is the least rectangle around both arguments.\<close>

lemma union_rect_covers: "rect_pts a \<union> rect_pts b \<subseteq> rect_pts (union_rect a b)"
  by (auto simp: union_rect_def rect_pts_def point_in_rect_def is_rect_empty_def)

end
