(* ===== verification/Regions.thy ===== *)
theory Regions
  imports Rectangles
begin

text \<open>
  The window regions of \<^verbatim>\<open>server/region.c\<close>: a region is a list of rectangles kept in y-x-banded
  order, with its bounding box. The valid part of the C array \<open>rects[0 .. num_rects)\<close> is the list
  \<open>rects\<close>, so \<open>num_rects\<close> is its length; \<open>rgn_size\<close> is the number of rectangles allocated.

  Memory allocation is an input: \<open>rgn_mem\<close> says for one call which allocations succeed, by the
  number of rectangles asked for (the initial array, growing it in \<^verbatim>\<open>add_rect\<close>, shrinking it at the
  end of \<^verbatim>\<open>region_op\<close>, the copy in \<^verbatim>\<open>copy_region\<close>). A failed allocation makes the operation return
  \<open>None\<close>, as the C code returns NULL after setting STATUS_NO_MEMORY.
\<close>

section \<open>Data\<close>

record region =
  rgn_size :: nat
  rects :: "rectangle list"
  extents :: rectangle

record rgn_mem =
  alloc_ok :: "nat \<Rightarrow> bool"
  grow_ok :: "nat \<Rightarrow> bool"
  shrink_ok :: "nat \<Rightarrow> bool"
  copy_ok :: "nat \<Rightarrow> bool"

abbreviation num_rects :: "region \<Rightarrow> nat" where
  "num_rects reg \<equiv> length (rects reg)"

abbreviation RGN_DEFAULT_RECTS :: nat where
  "RGN_DEFAULT_RECTS \<equiv> 2"

definition EXTENTCHECK :: "rectangle \<Rightarrow> rectangle \<Rightarrow> bool" where
  "EXTENTCHECK r1 r2 \<longleftrightarrow>
     rright r1 > rleft r2 \<and> rleft r1 < rright r2 \<and> rbottom r1 > rtop r2 \<and> rtop r1 < rbottom r2"

section \<open>Building a region\<close>

text \<open>\<^verbatim>\<open>add_rect\<close> makes room for one rectangle; its callers fill in the new slot.\<close>

definition add_rect :: "(nat \<Rightarrow> bool) \<Rightarrow> region \<Rightarrow> rectangle \<Rightarrow> region option" where
  "add_rect grow reg rect =
     (if num_rects reg \<ge> rgn_size reg then
        if grow (2 * rgn_size reg) then Some (reg\<lparr>rgn_size := rgn_size reg * 2, rects := rects reg @ [rect]\<rparr>)
        else None
      else Some (reg\<lparr>rects := rects reg @ [rect]\<rparr>))"

fun validate_rectangles :: "rectangle list \<Rightarrow> bool" where
  "validate_rectangles [] = True"
| "validate_rectangles [r] = (\<not> is_rect_empty r)"
| "validate_rectangles (r # s # rs) =
     (if is_rect_empty r then False
      else if rtop r = rtop s then
        if rbottom r \<noteq> rbottom s then False
        else if rright r \<ge> rleft s then False
        else validate_rectangles (s # rs)
      else if rbottom r > rtop s then False
      else validate_rectangles (s # rs))"

text \<open>
  \<open>last_band_start rects e\<close> is the loop \<^verbatim>\<open>while (pRegEnd[-1].top == pRegEnd->top) pRegEnd--\<close> from
  index \<open>e\<close>. The C loop has no lower bound; where it is reached the list has an earlier band.
\<close>

fun last_band_start :: "rectangle list \<Rightarrow> nat \<Rightarrow> nat" where
  "last_band_start rs 0 = 0"
| "last_band_start rs (Suc e) =
     (if rtop (rs ! e) = rtop (rs ! Suc e) then last_band_start rs e else Suc e)"

definition coalesce_region :: "region \<Rightarrow> nat \<Rightarrow> nat \<Rightarrow> region \<times> nat" where
  "coalesce_region pReg prevStart curStart =
     (let rs = rects pReg;
          prevNumRects = curStart - prevStart;
          bandtop = rtop (rs ! curStart);
          curNumRects = length (takeWhile (\<lambda>r. rtop r = bandtop) (drop curStart rs));
          atEnd = (curStart + curNumRects = length rs);
          curStart' = (if \<not> atEnd then last_band_start rs (length rs - 1) else curStart)
      in if curNumRects = prevNumRects \<and> curNumRects \<noteq> 0 then
           if rbottom (rs ! prevStart) = rtop (rs ! curStart) then
             let prev = take prevNumRects (drop prevStart rs);
                 cur = take curNumRects (drop curStart rs)
             in if list_all2 (\<lambda>p c. rleft p = rleft c \<and> rright p = rright c) prev cur then
                  (pReg\<lparr>rects := take prevStart rs
                          @ map2 (\<lambda>p c. p\<lparr>rbottom := rbottom c\<rparr>) prev cur
                          @ drop (curStart + curNumRects) rs\<rparr>,
                   if atEnd then prevStart else curStart')
                else (pReg, curStart')
           else (pReg, curStart')
         else (pReg, curStart'))"

section \<open>Band operations\<close>

fun intersect_overlapping ::
    "(nat \<Rightarrow> bool) \<Rightarrow> region \<Rightarrow> rectangle list \<Rightarrow> rectangle list \<Rightarrow> int \<Rightarrow> int \<Rightarrow> region option" where
  "intersect_overlapping grow pReg (r1 # rs1) (r2 # rs2) ytop ybot =
     (let left = max (rleft r1) (rleft r2);
          right = min (rright r1) (rright r2);
          added = (if left < right
                   then add_rect grow pReg
                          \<lparr>rleft = left, rtop = ytop, rright = right, rbottom = ybot\<rparr>
                   else Some pReg)
      in case added of
           None \<Rightarrow> None
         | Some reg \<Rightarrow>
             if rright r1 < rright r2 then intersect_overlapping grow reg rs1 (r2 # rs2) ytop ybot
             else if rright r2 < rright r1 then intersect_overlapping grow reg (r1 # rs1) rs2 ytop ybot
             else intersect_overlapping grow reg rs1 rs2 ytop ybot)"
| "intersect_overlapping grow pReg rs1 rs2 ytop ybot = Some pReg"

fun subtract_non_overlapping ::
    "(nat \<Rightarrow> bool) \<Rightarrow> region \<Rightarrow> rectangle list \<Rightarrow> int \<Rightarrow> int \<Rightarrow> region option" where
  "subtract_non_overlapping grow pReg [] ytop ybot = Some pReg"
| "subtract_non_overlapping grow pReg (r # rs) ytop ybot =
     (case add_rect grow pReg
             \<lparr>rleft = rleft r, rtop = ytop, rright = rright r, rbottom = ybot\<rparr> of
        None \<Rightarrow> None
      | Some reg \<Rightarrow> subtract_non_overlapping grow reg rs ytop ybot)"

text \<open>
  The two loops of \<^verbatim>\<open>subtract_overlapping\<close>: \<open>left\<close> is the left end of what remains of the current
  rectangle of the first band. \<open>next_left\<close> is \<^verbatim>\<open>if (r1 != r1End) left = r1->left\<close> after \<^verbatim>\<open>r1++\<close>.
\<close>

definition next_left :: "rectangle list \<Rightarrow> int \<Rightarrow> int" where
  "next_left rs1 left = (case rs1 of [] \<Rightarrow> left | r # _ \<Rightarrow> rleft r)"

fun subtract_tail ::
    "(nat \<Rightarrow> bool) \<Rightarrow> region \<Rightarrow> int \<Rightarrow> rectangle list \<Rightarrow> int \<Rightarrow> int \<Rightarrow> region option" where
  "subtract_tail grow pReg left [] ytop ybot = Some pReg"
| "subtract_tail grow pReg left (r1 # rs1) ytop ybot =
     (case add_rect grow pReg
             \<lparr>rleft = left, rtop = ytop, rright = rright r1, rbottom = ybot\<rparr> of
        None \<Rightarrow> None
      | Some reg \<Rightarrow> subtract_tail grow reg (next_left rs1 left) rs1 ytop ybot)"

fun subtract_loop ::
    "(nat \<Rightarrow> bool) \<Rightarrow> region \<Rightarrow> int \<Rightarrow> rectangle list \<Rightarrow> rectangle list \<Rightarrow> int \<Rightarrow> int \<Rightarrow> region option" where
  "subtract_loop grow pReg left (r1 # rs1) (r2 # rs2) ytop ybot =
     (if rright r2 \<le> left then subtract_loop grow pReg left (r1 # rs1) rs2 ytop ybot
      else if rleft r2 \<le> left then
        (let left' = rright r2
         in if left' \<ge> rright r1
            then subtract_loop grow pReg (next_left rs1 left') rs1 (r2 # rs2) ytop ybot
            else subtract_loop grow pReg left' (r1 # rs1) rs2 ytop ybot)
      else if rleft r2 < rright r1 then
        (case add_rect grow pReg
                \<lparr>rleft = left, rtop = ytop, rright = rleft r2, rbottom = ybot\<rparr> of
           None \<Rightarrow> None
         | Some reg \<Rightarrow>
             (let left' = rright r2
              in if left' \<ge> rright r1
                 then subtract_loop grow reg (next_left rs1 left') rs1 (r2 # rs2) ytop ybot
                 else subtract_loop grow reg left' (r1 # rs1) rs2 ytop ybot))
      else
        (case (if rright r1 > left
               then add_rect grow pReg
                      \<lparr>rleft = left, rtop = ytop, rright = rright r1, rbottom = ybot\<rparr>
               else Some pReg) of
           None \<Rightarrow> None
         | Some reg \<Rightarrow> subtract_loop grow reg (next_left rs1 left) rs1 (r2 # rs2) ytop ybot))"
| "subtract_loop grow pReg left rs1 rs2 ytop ybot = subtract_tail grow pReg left rs1 ytop ybot"

definition subtract_overlapping ::
    "(nat \<Rightarrow> bool) \<Rightarrow> region \<Rightarrow> rectangle list \<Rightarrow> rectangle list \<Rightarrow> int \<Rightarrow> int \<Rightarrow> region option" where
  "subtract_overlapping grow pReg rs1 rs2 ytop ybot =
     subtract_loop grow pReg (rleft (hd rs1)) rs1 rs2 ytop ybot"

fun union_non_overlapping ::
    "(nat \<Rightarrow> bool) \<Rightarrow> region \<Rightarrow> rectangle list \<Rightarrow> int \<Rightarrow> int \<Rightarrow> region option" where
  "union_non_overlapping grow pReg [] ytop ybot = Some pReg"
| "union_non_overlapping grow pReg (r # rs) ytop ybot =
     (case add_rect grow pReg
             \<lparr>rleft = rleft r, rtop = ytop, rright = rright r, rbottom = ybot\<rparr> of
        None \<Rightarrow> None
      | Some reg \<Rightarrow> union_non_overlapping grow reg rs ytop ybot)"

definition MERGERECT ::
    "(nat \<Rightarrow> bool) \<Rightarrow> region \<Rightarrow> rectangle \<Rightarrow> int \<Rightarrow> int \<Rightarrow> region option" where
  "MERGERECT grow pReg r ytop ybot =
     (if rects pReg \<noteq> [] \<and> rtop (last (rects pReg)) = ytop \<and>
         rbottom (last (rects pReg)) = ybot \<and> rright (last (rects pReg)) \<ge> rleft r
      then Some (if rright (last (rects pReg)) < rright r
                 then pReg\<lparr>rects := butlast (rects pReg)
                             @ [(last (rects pReg))\<lparr>rright := rright r\<rparr>]\<rparr>
                 else pReg)
      else add_rect grow pReg
             \<lparr>rleft = rleft r, rtop = ytop, rright = rright r, rbottom = ybot\<rparr>)"

fun union_overlapping ::
    "(nat \<Rightarrow> bool) \<Rightarrow> region \<Rightarrow> rectangle list \<Rightarrow> rectangle list \<Rightarrow> int \<Rightarrow> int \<Rightarrow> region option" where
  "union_overlapping grow pReg [] [] ytop ybot = Some pReg"
| "union_overlapping grow pReg (r1 # rs1) [] ytop ybot =
     (case MERGERECT grow pReg r1 ytop ybot of
        None \<Rightarrow> None
      | Some reg \<Rightarrow> union_overlapping grow reg rs1 [] ytop ybot)"
| "union_overlapping grow pReg [] (r2 # rs2) ytop ybot =
     (case MERGERECT grow pReg r2 ytop ybot of
        None \<Rightarrow> None
      | Some reg \<Rightarrow> union_overlapping grow reg [] rs2 ytop ybot)"
| "union_overlapping grow pReg (r1 # rs1) (r2 # rs2) ytop ybot =
     (if rleft r1 < rleft r2 then
        (case MERGERECT grow pReg r1 ytop ybot of
           None \<Rightarrow> None
         | Some reg \<Rightarrow> union_overlapping grow reg rs1 (r2 # rs2) ytop ybot)
      else
        (case MERGERECT grow pReg r2 ytop ybot of
           None \<Rightarrow> None
         | Some reg \<Rightarrow> union_overlapping grow reg (r1 # rs1) rs2 ytop ybot))"


section \<open>Combining two regions\<close>

text \<open>
  A suffix of a banded list starts with a band: the rectangles with the top of the first one.
  \<open>band_end\<close> is the position \<^verbatim>\<open>r1BandEnd\<close> reached by the scanning loops.
\<close>

definition band :: "rectangle list \<Rightarrow> rectangle list" where
  "band rs = takeWhile (\<lambda>r. rtop r = rtop (hd rs)) rs"

definition band_end :: "rectangle list \<Rightarrow> rectangle list" where
  "band_end rs = dropWhile (\<lambda>r. rtop r = rtop (hd rs)) rs"

type_synonym overlap_func =
  "region \<Rightarrow> rectangle list \<Rightarrow> rectangle list \<Rightarrow> int \<Rightarrow> int \<Rightarrow> region option"
type_synonym non_overlap_func =
  "region \<Rightarrow> rectangle list \<Rightarrow> int \<Rightarrow> int \<Rightarrow> region option"

text \<open>\<^verbatim>\<open>if ((top != bot) && non_overlap_func) if (!non_overlap_func( ... )) goto done\<close>.\<close>

definition call_non_overlap ::
    "non_overlap_func option \<Rightarrow> region \<Rightarrow> rectangle list \<Rightarrow> int \<Rightarrow> int \<Rightarrow> region option" where
  "call_non_overlap f reg rs t b =
     (case f of None \<Rightarrow> Some reg | Some g \<Rightarrow> if t \<noteq> b then g reg rs t b else Some reg)"

text \<open>\<^verbatim>\<open>if (newReg->num_rects != curBand) prevBand = coalesce_region( newReg, prevBand, curBand )\<close>.\<close>

definition coalesce_if_grown :: "region \<Rightarrow> nat \<Rightarrow> nat \<Rightarrow> region \<times> nat" where
  "coalesce_if_grown reg prevBand curBand =
     (if num_rects reg \<noteq> curBand then coalesce_region reg prevBand curBand else (reg, prevBand))"

lemma length_band_end_less [simp]: "length (band_end (h # t)) < Suc (length t)"
  by (simp add: band_end_def le_imp_less_Suc length_dropWhile_le)

lemma length_band_end_le [simp]: "length (band_end rs) \<le> length rs"
  by (simp add: band_end_def length_dropWhile_le)

text \<open>One pass through the body of the \<^verbatim>\<open>do ... while\<close> loop, up to advancing \<open>r1\<close> and \<open>r2\<close>.\<close>

definition region_op_step ::
    "overlap_func \<Rightarrow> non_overlap_func option \<Rightarrow> non_overlap_func option \<Rightarrow> region \<Rightarrow> nat \<Rightarrow> int
      \<Rightarrow> rectangle list \<Rightarrow> rectangle list \<Rightarrow> (region \<times> nat \<times> int) option" where
  "region_op_step overlap non1 non2 newReg prevBand ybot r1 r2 =
     (let h1 = hd r1; h2 = hd r2;
          first = (if rtop h1 < rtop h2 then
                     call_non_overlap non1 newReg (band r1)
                       (max (rtop h1) ybot) (min (rbottom h1) (rtop h2))
                   else if rtop h2 < rtop h1 then
                     call_non_overlap non2 newReg (band r2)
                       (max (rtop h2) ybot) (min (rbottom h2) (rtop h1))
                   else Some newReg);
          ytop = (if rtop h1 < rtop h2 then rtop h2 else rtop h1)
      in case first of
           None \<Rightarrow> None
         | Some reg1 \<Rightarrow>
             (let (reg2, prev2) = coalesce_if_grown reg1 prevBand (num_rects newReg);
                  ybot' = min (rbottom h1) (rbottom h2)
              in case (if ybot' > ytop then overlap reg2 (band r1) (band r2) ytop ybot'
                       else Some reg2) of
                   None \<Rightarrow> None
                 | Some reg3 \<Rightarrow>
                     (let (reg4, prev4) = coalesce_if_grown reg3 prev2 (num_rects reg2)
                      in Some (reg4, prev4, ybot'))))"

text \<open>\<^verbatim>\<open>if (r1->bottom == ybot) r1 = r1BandEnd\<close>.\<close>

definition skip_band :: "int \<Rightarrow> rectangle list \<Rightarrow> rectangle list" where
  "skip_band ybot rs = (if rbottom (hd rs) = ybot then band_end rs else rs)"

lemma length_skip_band_le: "length (skip_band y rs) \<le> length rs"
  by (simp add: skip_band_def)

lemma length_skip_band_less: "rs \<noteq> [] \<Longrightarrow> rbottom (hd rs) = y \<Longrightarrow> length (skip_band y rs) < length rs"
  by (cases rs) (simp_all add: skip_band_def)

lemma region_op_step_ybot:
  "region_op_step overlap non1 non2 newReg prevBand ybot r1 r2 = Some (reg, prev, y)
     \<Longrightarrow> y = min (rbottom (hd r1)) (rbottom (hd r2))"
  by (auto simp: region_op_step_def Let_def split: option.splits prod.splits)

lemma skip_bands_less:
  assumes "r1 \<noteq> []" and "r2 \<noteq> []" and "y = min (rbottom (hd r1)) (rbottom (hd r2))"
  shows "length (skip_band y r1) + length (skip_band y r2) < length r1 + length r2"
proof (cases "rbottom (hd r1) = y")
  case True
  with assms(1) show ?thesis
    by (intro add_less_le_mono length_skip_band_less length_skip_band_le)
next
  case False
  with assms have "rbottom (hd r2) = y" by (auto simp: min_def split: if_splits)
  with assms(2) show ?thesis
    by (intro add_le_less_mono length_skip_band_less length_skip_band_le)
qed

text \<open>
  The \<^verbatim>\<open>do ... while\<close> loop. Its callers enter it with two nonempty regions only, so testing the
  condition before the body makes no difference.
\<close>

function region_op_loop ::
    "overlap_func \<Rightarrow> non_overlap_func option \<Rightarrow> non_overlap_func option \<Rightarrow> region \<Rightarrow> nat \<Rightarrow> int
      \<Rightarrow> rectangle list \<Rightarrow> rectangle list
      \<Rightarrow> (region \<times> nat \<times> int \<times> rectangle list \<times> rectangle list) option" where
  "region_op_loop overlap non1 non2 newReg prevBand ybot r1 r2 =
     (if r1 \<noteq> [] \<and> r2 \<noteq> [] then
        (case region_op_step overlap non1 non2 newReg prevBand ybot r1 r2 of
           None \<Rightarrow> None
         | Some (reg, prev, ybot') \<Rightarrow>
             region_op_loop overlap non1 non2 reg prev ybot' (skip_band ybot' r1) (skip_band ybot' r2))
      else Some (newReg, prevBand, ybot, r1, r2))"
  by pat_completeness auto
termination
  by (relation "measure (\<lambda>(_, _, _, _, _, _, r1, r2). length r1 + length r2)")
    (auto dest: region_op_step_ybot intro: skip_bands_less)

declare region_op_loop.simps [simp del]

text \<open>The trailing loops over what is left of one of the two regions.\<close>

function region_op_tail ::
    "non_overlap_func \<Rightarrow> region \<Rightarrow> int \<Rightarrow> rectangle list \<Rightarrow> region option" where
  "region_op_tail f reg ybot [] = Some reg"
| "region_op_tail f reg ybot (h # t) =
     (case f reg (band (h # t)) (max (rtop h) ybot) (rbottom h) of
        None \<Rightarrow> None
      | Some reg' \<Rightarrow> region_op_tail f reg' ybot (band_end (h # t)))"
  by pat_completeness auto
termination
  by (relation "measure (\<lambda>(_, _, _, rs). length rs)") auto

definition call_tail ::
    "non_overlap_func option \<Rightarrow> region \<Rightarrow> int \<Rightarrow> rectangle list \<Rightarrow> region option" where
  "call_tail f reg ybot rs = (case f of None \<Rightarrow> Some reg | Some g \<Rightarrow> region_op_tail g reg ybot rs)"

definition region_op ::
    "rgn_mem \<Rightarrow> region \<Rightarrow> region \<Rightarrow> region \<Rightarrow> ((nat \<Rightarrow> bool) \<Rightarrow> overlap_func)
      \<Rightarrow> ((nat \<Rightarrow> bool) \<Rightarrow> non_overlap_func) option \<Rightarrow> ((nat \<Rightarrow> bool) \<Rightarrow> non_overlap_func) option
      \<Rightarrow> region option" where
  "region_op mem newReg reg1 reg2 overlap non1 non2 =
     (let new_size = max (num_rects reg1) (num_rects reg2) * 2;
          non1' = map_option (\<lambda>f. f (grow_ok mem)) non1;
          non2' = map_option (\<lambda>f. f (grow_ok mem)) non2
      in if \<not> alloc_ok mem new_size then None
         else case region_op_loop (overlap (grow_ok mem)) non1' non2'
                     (newReg\<lparr>rgn_size := new_size, rects := []\<rparr>) 0
                     (if rtop (extents reg1) < rtop (extents reg2)
                      then rtop (extents reg1) else rtop (extents reg2))
                     (rects reg1) (rects reg2) of
                None \<Rightarrow> None
              | Some (reg, prevBand, ybot, r1, r2) \<Rightarrow>
                  (case (if r1 \<noteq> [] then call_tail non1' reg ybot r1
                         else if r2 \<noteq> [] then call_tail non2' reg ybot r2
                         else Some reg) of
                     None \<Rightarrow> None
                   | Some reg' \<Rightarrow>
                       (let reg'' = fst (coalesce_if_grown reg' prevBand (num_rects reg));
                            small = max (num_rects reg'') RGN_DEFAULT_RECTS
                        in if num_rects reg'' < rgn_size reg'' div 2 \<and> rgn_size reg'' > 2
                              \<and> shrink_ok mem small
                           then Some (reg''\<lparr>rgn_size := small\<rparr>)
                           else Some reg'')))"

definition set_region_extents :: "region \<Rightarrow> region" where
  "set_region_extents reg =
     (case rects reg of
        [] \<Rightarrow> reg\<lparr>extents := empty_rect\<rparr>
      | r # rs \<Rightarrow>
          reg\<lparr>extents :=
            \<lparr>rleft = foldl (\<lambda>l q. if rleft q < l then rleft q else l) (rleft r) (r # rs),
             rtop = rtop r,
             rright = foldl (\<lambda>m q. if rright q > m then rright q else m) (rright (last (r # rs))) (r # rs),
             rbottom = rbottom (last (r # rs))\<rparr>\<rparr>)"

section \<open>The exported operations\<close>

definition create_empty_region :: "bool \<Rightarrow> bool \<Rightarrow> region option" where
  "create_empty_region struct_ok rects_ok =
     (if \<not> struct_ok then None
      else if \<not> rects_ok then None
      else Some \<lparr>rgn_size = RGN_DEFAULT_RECTS, rects = [], extents = empty_rect\<rparr>)"

text \<open>The request data is an array of rectangles; a single all-zero one stands for no rectangle.\<close>

definition create_region_from_req_data :: "bool \<Rightarrow> bool \<Rightarrow> rectangle list \<Rightarrow> region result" where
  "create_region_from_req_data struct_ok rects_ok data =
     (let rs = (if data = [empty_rect] then [] else data)
      in if \<not> validate_rectangles rs then Inl STATUS_INVALID_PARAMETER
         else if \<not> struct_ok then Inl STATUS_NO_MEMORY
         else if \<not> rects_ok then Inl STATUS_NO_MEMORY
         else Inr (set_region_extents
                \<lparr>rgn_size = max (length rs) RGN_DEFAULT_RECTS, rects = rs, extents = empty_rect\<rparr>))"

definition set_region_rect :: "region \<Rightarrow> rectangle \<Rightarrow> region" where
  "set_region_rect reg rect =
     (if \<not> is_rect_empty rect then reg\<lparr>rects := [rect], extents := rect\<rparr>
      else reg\<lparr>rects := [], extents := empty_rect\<rparr>)"

text \<open>
  The reply carries the rectangles themselves; the C result is their copy and the total size in
  bytes (16 per rectangle).
\<close>

definition get_region_data :: "bool \<Rightarrow> region \<Rightarrow> nat \<Rightarrow> nat \<times> rectangle list result" where
  "get_region_data dup_ok reg max_size =
     (let data = (if num_rects reg * 16 = 0 then [empty_rect] else rects reg);
          total_size = length data * 16
      in (total_size,
          if max_size \<ge> total_size then if dup_ok then Inr data else Inl STATUS_NO_MEMORY
          else Inl STATUS_BUFFER_OVERFLOW))"

definition get_region_data_and_free :: "bool \<Rightarrow> region \<Rightarrow> nat \<Rightarrow> nat \<times> rectangle list result" where
  "get_region_data_and_free dup_ok reg max_size =
     (if num_rects reg * 16 = 0
      then (16, if max_size < 16 then Inl STATUS_BUFFER_OVERFLOW
                else if dup_ok then Inr [empty_rect] else Inl STATUS_NO_MEMORY)
      else (num_rects reg * 16,
            if max_size < num_rects reg * 16 then Inl STATUS_BUFFER_OVERFLOW else Inr (rects reg)))"

definition is_region_empty :: "region \<Rightarrow> bool" where
  "is_region_empty reg \<longleftrightarrow> num_rects reg = 0"

definition is_region_equal :: "region \<Rightarrow> region \<Rightarrow> bool" where
  "is_region_equal region1 region2 \<longleftrightarrow>
     (if num_rects region1 \<noteq> num_rects region2 then False
      else if num_rects region1 = 0 then True
      else if \<not> is_rect_equal (extents region1) (extents region2) then False
      else list_all2 is_rect_equal (rects region1) (rects region2))"

definition get_region_extents :: "region \<Rightarrow> rectangle" where
  "get_region_extents reg = extents reg"

definition offset_region :: "region \<Rightarrow> int \<Rightarrow> int \<Rightarrow> region" where
  "offset_region reg x y =
     (if num_rects reg = 0 then reg
      else reg\<lparr>rects := map (\<lambda>r. offset_rect r x y) (rects reg),
               extents := offset_rect (extents reg) x y\<rparr>)"

definition scale_region :: "region \<Rightarrow> int \<Rightarrow> int \<Rightarrow> region" where
  "scale_region reg dpi_from dpi_to =
     (if num_rects reg = 0 then reg
      else reg\<lparr>rects := map (\<lambda>r. scale_dpi_rect r dpi_from dpi_to) (rects reg),
               extents := scale_dpi_rect (extents reg) dpi_from dpi_to\<rparr>)"

text \<open>
  \<^verbatim>\<open>mirror_region\<close>: the scan for the end of a band, the exchange loop from both ends of the band, and
  the loop over the bands. The exchange copies \<^verbatim>\<open>rects[j]\<close> into the temporary, as the source does.
\<close>

function mirror_band_last :: "rectangle list \<Rightarrow> nat \<Rightarrow> nat" where
  "mirror_band_last rs e =
     (if e < length rs - 1 then
        if rtop (rs ! (e + 1)) \<noteq> rtop (rs ! e) then e else mirror_band_last rs (e + 1)
      else e)"
  by pat_completeness auto
termination
  by (relation "measure (\<lambda>(rs, e). length rs - e)") auto

declare mirror_band_last.simps [simp del]

function mirror_band :: "rectangle \<Rightarrow> rectangle list \<Rightarrow> nat \<Rightarrow> nat \<Rightarrow> rectangle list" where
  "mirror_band client_rect rs i j =
     (if i < j then
        (let rect = rs ! j;
             rs1 = rs[i := rs ! j];
             rs2 = rs1[j := rect];
             rs3 = rs2[j := mirror_rect client_rect (rs2 ! j)];
             rs4 = rs3[i := mirror_rect client_rect (rs3 ! i)]
         in mirror_band client_rect rs4 (i + 1) (j - 1))
      else if i = j then rs[i := mirror_rect client_rect (rs ! i)]
      else rs)"
  by pat_completeness auto
termination
  by (relation "measure (\<lambda>(_, _, i, j). j - i)") auto

declare mirror_band.simps [simp del]

lemma mirror_band_last_ge: "e \<le> mirror_band_last rs e"
proof (induction rs e rule: mirror_band_last.induct)
  case (1 rs e)
  then show ?case by (subst mirror_band_last.simps) (auto dest: Suc_leD)
qed

lemma length_mirror_band [simp]: "length (mirror_band client_rect rs i j) = length rs"
proof (induction client_rect rs i j rule: mirror_band.induct)
  case (1 client_rect rs i j)
  then show ?case by (subst mirror_band.simps) (simp add: Let_def)
qed

function mirror_loop :: "rectangle \<Rightarrow> rectangle list \<Rightarrow> nat \<Rightarrow> rectangle list" where
  "mirror_loop client_rect rs start =
     (if start < length rs then
        (let e = mirror_band_last rs start
         in mirror_loop client_rect (mirror_band client_rect rs start e) (e + 1))
      else rs)"
  by pat_completeness auto
termination
  by (relation "measure (\<lambda>(_, rs, start). length rs - start)")
    (auto intro!: diff_less_mono2 le_imp_less_Suc mirror_band_last_ge)

declare mirror_loop.simps [simp del]

definition mirror_region :: "rectangle \<Rightarrow> region \<Rightarrow> region" where
  "mirror_region client_rect reg =
     reg\<lparr>rects := mirror_loop client_rect (rects reg) 0,
         extents := mirror_rect client_rect (extents reg)\<rparr>"

text \<open>
  Where two arguments may be the same C object a flag says whether they are; the values passed are
  then equal.
\<close>

definition copy_region :: "rgn_mem \<Rightarrow> bool \<Rightarrow> region \<Rightarrow> region \<Rightarrow> region option" where
  "copy_region mem same dst src =
     (if same then Some dst
      else if rgn_size dst < num_rects src \<and> \<not> copy_ok mem (num_rects src) then None
      else Some \<lparr>rgn_size = (if rgn_size dst < num_rects src then num_rects src else rgn_size dst),
                 rects = rects src, extents = extents src\<rparr>)"

definition intersect_region :: "rgn_mem \<Rightarrow> region \<Rightarrow> region \<Rightarrow> region \<Rightarrow> region option" where
  "intersect_region mem dst src1 src2 =
     (if num_rects src1 = 0 \<or> num_rects src2 = 0 \<or> \<not> EXTENTCHECK (extents src1) (extents src2)
      then Some (dst\<lparr>rects := [], extents := empty_rect\<rparr>)
      else map_option set_region_extents
             (region_op mem dst src1 src2 intersect_overlapping None None))"

definition subtract_region ::
    "rgn_mem \<Rightarrow> bool \<Rightarrow> region \<Rightarrow> region \<Rightarrow> region \<Rightarrow> region option" where
  "subtract_region mem dst_is_src1 dst src1 src2 =
     (if num_rects src1 = 0 \<or> num_rects src2 = 0 \<or> \<not> EXTENTCHECK (extents src1) (extents src2)
      then copy_region mem dst_is_src1 dst src1
      else map_option set_region_extents
             (region_op mem dst src1 src2 subtract_overlapping (Some subtract_non_overlapping) None))"

definition union_region ::
    "rgn_mem \<Rightarrow> bool \<Rightarrow> bool \<Rightarrow> bool \<Rightarrow> region \<Rightarrow> region \<Rightarrow> region \<Rightarrow> region option" where
  "union_region mem same dst_is_src1 dst_is_src2 dst src1 src2 =
     (if same then copy_region mem dst_is_src1 dst src1
      else if num_rects src1 = 0 then copy_region mem dst_is_src2 dst src2
      else if num_rects src2 = 0 then copy_region mem dst_is_src1 dst src1
      else if num_rects src1 = 1 \<and>
              rleft (extents src1) \<le> rleft (extents src2) \<and>
              rtop (extents src1) \<le> rtop (extents src2) \<and>
              rright (extents src1) \<ge> rright (extents src2) \<and>
              rbottom (extents src1) \<ge> rbottom (extents src2)
      then copy_region mem dst_is_src1 dst src1
      else if num_rects src2 = 1 \<and>
              rleft (extents src2) \<le> rleft (extents src1) \<and>
              rtop (extents src2) \<le> rtop (extents src1) \<and>
              rright (extents src2) \<ge> rright (extents src1) \<and>
              rbottom (extents src2) \<ge> rbottom (extents src1)
      then copy_region mem dst_is_src2 dst src2
      else map_option
             (\<lambda>d. d\<lparr>extents :=
                \<lparr>rleft = min (rleft (extents src1)) (rleft (extents src2)),
                 rtop = min (rtop (extents src1)) (rtop (extents src2)),
                 rright = max (rright (extents src1)) (rright (extents src2)),
                 rbottom = max (rbottom (extents src1)) (rbottom (extents src2))\<rparr>\<rparr>)
             (region_op mem dst src1 src2 union_overlapping
                (Some union_non_overlapping) (Some union_non_overlapping)))"

definition xor_region ::
    "bool \<Rightarrow> bool \<Rightarrow> rgn_mem \<Rightarrow> rgn_mem \<Rightarrow> rgn_mem \<Rightarrow> bool \<Rightarrow> region \<Rightarrow> region \<Rightarrow> region \<Rightarrow> region option" where
  "xor_region struct_ok rects_ok mem1 mem2 mem3 dst_is_src2 dst src1 src2 =
     (case create_empty_region struct_ok rects_ok of
        None \<Rightarrow> None
      | Some tmp \<Rightarrow>
          (case subtract_region mem1 False tmp src1 src2 of
             None \<Rightarrow> None
           | Some tmp' \<Rightarrow>
               (case subtract_region mem2 dst_is_src2 dst src2 src1 of
                  None \<Rightarrow> None
                | Some dst' \<Rightarrow> union_region mem3 False True False dst' dst' tmp')))"

fun point_in_rects :: "rectangle list \<Rightarrow> int \<Rightarrow> int \<Rightarrow> bool" where
  "point_in_rects [] x y = False"
| "point_in_rects (r # rs) x y =
     (if rtop r > y then False
      else if rbottom r \<le> y then point_in_rects rs x y
      else if rleft r > x then False
      else if rright r \<le> x then point_in_rects rs x y
      else True)"

definition point_in_region :: "region \<Rightarrow> int \<Rightarrow> int \<Rightarrow> bool" where
  "point_in_region reg x y = point_in_rects (rects reg) x y"

fun rect_in_rects :: "rectangle list \<Rightarrow> rectangle \<Rightarrow> bool" where
  "rect_in_rects [] rect = False"
| "rect_in_rects (r # rs) rect =
     (if rtop r \<ge> rbottom rect then False
      else if rbottom r \<le> rtop rect then rect_in_rects rs rect
      else if rleft r \<ge> rright rect then rect_in_rects rs rect
      else if rright r \<le> rleft rect then rect_in_rects rs rect
      else True)"

definition rect_in_region :: "region \<Rightarrow> rectangle \<Rightarrow> bool" where
  "rect_in_region reg rect = rect_in_rects (rects reg) rect"

end
