(* ===== verification/Region_Bands.thy ===== *)
theory Region_Bands
  imports Regions
begin

text \<open>
  The geometry behind \<^verbatim>\<open>server/region.c\<close>: what \<^const>\<open>validate_rectangles\<close> accepts is a list of
  nonempty rectangles sorted by a transitive relation, a band is a list of disjoint, separated
  x-intervals, and each band operation appends a band that covers exactly the intersection, the
  difference or the union of the x-intervals of its arguments.
\<close>

section \<open>Banded lists\<close>

definition before :: "rectangle \<Rightarrow> rectangle \<Rightarrow> bool" where
  "before r s \<longleftrightarrow> rtop r = rtop s \<and> rbottom r = rbottom s \<and> rright r < rleft s \<or> rbottom r \<le> rtop s"

definition banded :: "rectangle list \<Rightarrow> bool" where
  "banded rs \<longleftrightarrow> (\<forall>r \<in> set rs. \<not> is_rect_empty r) \<and> sorted_wrt before rs"

lemma before_trans:
  "before r s \<Longrightarrow> before s u \<Longrightarrow> \<not> is_rect_empty s \<Longrightarrow> before r u"
  by (auto simp: before_def is_rect_empty_def)

lemma banded_Nil [simp]: "banded []"
  by (simp add: banded_def)

lemma banded_Cons:
  "banded (r # rs) \<longleftrightarrow> \<not> is_rect_empty r \<and> (\<forall>s \<in> set rs. before r s) \<and> banded rs"
  by (auto simp: banded_def)

lemma banded_append:
  "banded (xs @ ys) \<longleftrightarrow> banded xs \<and> banded ys \<and> (\<forall>x \<in> set xs. \<forall>y \<in> set ys. before x y)"
  by (auto simp: banded_def sorted_wrt_append)

lemma validate_step:
  "validate_rectangles (r # s # rs) \<longleftrightarrow>
     \<not> is_rect_empty r \<and> before r s \<and> validate_rectangles (s # rs)"
proof (cases "is_rect_empty r")
  case False
  then have "rtop r < rbottom r" by (simp add: is_rect_empty_def)
  with False show ?thesis by (auto simp: before_def)
qed simp

theorem validate_rectangles_iff: "validate_rectangles rs \<longleftrightarrow> banded rs"
proof (induction rs rule: induct_list012)
  case (3 r s rs)
  have "before r u" if "before r s" "banded (s # rs)" "u \<in> set rs" for u
    using that by (auto simp: banded_Cons intro: before_trans)
  with "3.IH"(2) show ?case
    unfolding validate_step by (auto simp: banded_Cons)
qed (simp_all add: banded_def)

lemma banded_rtop_le: "banded (r # rs) \<Longrightarrow> s \<in> set rs \<Longrightarrow> rtop r \<le> rtop s"
  by (auto simp: banded_Cons before_def is_rect_empty_def)

lemma banded_dropWhile: "banded rs \<Longrightarrow> banded (dropWhile P rs)"
  by (metis banded_append takeWhile_dropWhile_id)

lemma banded_takeWhile: "banded rs \<Longrightarrow> banded (takeWhile P rs)"
  by (metis banded_append takeWhile_dropWhile_id)

section \<open>Bands as lists of x-intervals\<close>

definition xsorted :: "rectangle list \<Rightarrow> bool" where
  "xsorted rs \<longleftrightarrow> (\<forall>r \<in> set rs. rleft r < rright r) \<and> sorted_wrt (\<lambda>r s. rright r < rleft s) rs"

definition xband :: "int \<Rightarrow> int \<Rightarrow> rectangle list \<Rightarrow> bool" where
  "xband t b rs \<longleftrightarrow> (\<forall>r \<in> set rs. rtop r = t \<and> rbottom r = b) \<and> xsorted rs"

definition xs_pts :: "rectangle list \<Rightarrow> int set" where
  "xs_pts rs = {x. \<exists>r \<in> set rs. rleft r \<le> x \<and> x < rright r}"

lemma xsorted_Nil [simp]: "xsorted []"
  by (simp add: xsorted_def)

lemma xsorted_Cons:
  "xsorted (r # rs) \<longleftrightarrow> rleft r < rright r \<and> (\<forall>s \<in> set rs. rright r < rleft s) \<and> xsorted rs"
  by (auto simp: xsorted_def)

lemma xsorted_append:
  "xsorted (xs @ ys) \<longleftrightarrow> xsorted xs \<and> xsorted ys \<and> (\<forall>r \<in> set xs. \<forall>s \<in> set ys. rright r < rleft s)"
  by (auto simp: xsorted_def sorted_wrt_append)

lemma xband_Nil [simp]: "xband t b []"
  by (simp add: xband_def)

lemma xband_Cons:
  "xband t b (r # rs) \<longleftrightarrow>
     rtop r = t \<and> rbottom r = b \<and> rleft r < rright r \<and> (\<forall>s \<in> set rs. rright r < rleft s) \<and> xband t b rs"
  by (auto simp: xband_def xsorted_Cons)

lemma xband_append:
  "xband t b (xs @ ys) \<longleftrightarrow>
     xband t b xs \<and> xband t b ys \<and> (\<forall>r \<in> set xs. \<forall>s \<in> set ys. rright r < rleft s)"
  by (auto simp: xband_def xsorted_append)

lemma xs_pts_Nil [simp]: "xs_pts [] = {}"
  by (simp add: xs_pts_def)

lemma xs_pts_Cons [simp]: "xs_pts (r # rs) = {x. rleft r \<le> x \<and> x < rright r} \<union> xs_pts rs"
  by (auto simp: xs_pts_def)

lemma xs_pts_append [simp]: "xs_pts (xs @ ys) = xs_pts xs \<union> xs_pts ys"
  by (auto simp: xs_pts_def)

lemma xs_pts_gt: "xsorted (r # rs) \<Longrightarrow> x \<in> xs_pts rs \<Longrightarrow> rright r < x"
  by (auto simp: xsorted_Cons xs_pts_def)

lemma xs_pts_ge: "xsorted (r # rs) \<Longrightarrow> x \<in> xs_pts (r # rs) \<Longrightarrow> rleft r \<le> x"
  by (auto simp: xsorted_Cons xs_pts_def)

lemma xs_pts_left: "r \<in> set rs \<Longrightarrow> xsorted rs \<Longrightarrow> rleft r \<in> xs_pts rs"
  by (auto simp: xsorted_def xs_pts_def)

lemma xband_xsorted: "xband t b rs \<Longrightarrow> xsorted rs"
  by (simp add: xband_def)

lemma xband_pts: "xband t b rs \<Longrightarrow> rects_pts rs = {(x, y). x \<in> xs_pts rs \<and> t \<le> y \<and> y < b}"
  by (auto simp: xband_def xs_pts_def rects_pts_iff)

lemma xbandD: "xband t b rs \<Longrightarrow> r \<in> set rs \<Longrightarrow> rtop r = t \<and> rbottom r = b \<and> rleft r < rright r"
  by (simp add: xband_def xsorted_def)

lemma xband_banded: "xband t b rs \<Longrightarrow> t < b \<Longrightarrow> banded rs"
  by (induction rs) (auto simp: xband_Cons banded_Cons before_def is_rect_empty_def dest: xbandD)

text \<open>Putting a rectangle in front of a band whose points all lie to its right keeps the order.\<close>

lemma xband_ConsI:
  assumes "xband t b bs" and "rleft r < rright r" and "rtop r = t" and "rbottom r = b"
    and "\<And>x. x \<in> xs_pts bs \<Longrightarrow> rright r < x"
  shows "xband t b (r # bs)"
  using assms by (auto simp: xband_Cons dest: xs_pts_left xband_xsorted)

section \<open>Allocation\<close>

text \<open>The array holds the rectangles: \<^verbatim>\<open>num_rects\<close> never exceeds the allocated size.\<close>

definition cap :: "region \<Rightarrow> bool" where
  "cap reg \<longleftrightarrow> 0 < rgn_size reg \<and> num_rects reg \<le> rgn_size reg"

lemma add_rect_SomeD:
  "add_rect grow reg r = Some reg' \<Longrightarrow>
     rects reg' = rects reg @ [r] \<and> extents reg' = extents reg \<and> (cap reg \<longrightarrow> cap reg')"
  by (auto simp: add_rect_def cap_def split: if_splits)

lemma add_rect_total: "\<forall>n. grow n \<Longrightarrow> \<exists>reg'. add_rect grow reg r = Some reg'"
  by (simp add: add_rect_def)

text \<open>
  What a band operation does: it appends a band at the given rows that covers the set \<open>X\<close> of
  columns, and leaves the rest of the region alone.
\<close>

definition appends :: "int \<Rightarrow> int \<Rightarrow> int set \<Rightarrow> region \<Rightarrow> region \<Rightarrow> bool" where
  "appends t b X reg reg' \<longleftrightarrow>
     (\<exists>bs. rects reg' = rects reg @ bs \<and> xband t b bs \<and> xs_pts bs = X) \<and>
     extents reg' = extents reg \<and> (cap reg \<longrightarrow> cap reg')"

lemma appends_refl: "appends t b {} reg reg"
  by (auto simp: appends_def)

lemma appends_eq: "appends t b X reg reg' \<Longrightarrow> X = Y \<Longrightarrow> appends t b Y reg reg'"
  by simp

text \<open>One rectangle, then a band to the right of it.\<close>

lemma appends_Cons:
  assumes add: "add_rect grow reg \<lparr>rleft = l, rtop = t, rright = r, rbottom = b\<rparr> = Some reg1"
    and rest: "appends t b X reg1 reg'" and "l < r" and "\<And>x. x \<in> X \<Longrightarrow> r < x"
  shows "appends t b ({x. l \<le> x \<and> x < r} \<union> X) reg reg'"
proof -
  let ?r = "\<lparr>rleft = l, rtop = t, rright = r, rbottom = b\<rparr>"
  from rest obtain bs where bs: "rects reg' = rects reg1 @ bs" "xband t b bs" "xs_pts bs = X"
    by (auto simp: appends_def)
  have "xband t b (?r # bs)" using bs assms(3,4) by (intro xband_ConsI) auto
  with bs add_rect_SomeD [OF add] rest show ?thesis
    by (auto simp: appends_def intro!: exI [of _ "?r # bs"])
qed

section \<open>The band operations\<close>

lemma intersect_overlapping_appends:
  "intersect_overlapping grow reg rs1 rs2 t b = Some reg' \<Longrightarrow> xsorted rs1 \<Longrightarrow> xsorted rs2
     \<Longrightarrow> appends t b (xs_pts rs1 \<inter> xs_pts rs2) reg reg'"
proof (induction grow reg rs1 rs2 t b arbitrary: reg' rule: intersect_overlapping.induct)
  case (1 grow reg r1 rs1 r2 rs2 t b)
  let ?l = "max (rleft r1) (rleft r2)" and ?r = "min (rright r1) (rright r2)"
  let ?rest = "if rright r1 < rright r2 then (rs1, r2 # rs2)
    else if rright r2 < rright r1 then (r1 # rs1, rs2) else (rs1, rs2)"
  let ?X = "xs_pts (fst ?rest) \<inter> xs_pts (snd ?rest)"
  from "1.prems" obtain reg1 where
    add: "(if ?l < ?r then add_rect grow reg \<lparr>rleft = ?l, rtop = t, rright = ?r, rbottom = b\<rparr>
           else Some reg) = Some reg1"
    and rec: "intersect_overlapping grow reg1 (fst ?rest) (snd ?rest) t b = Some reg'"
    by (auto simp: Let_def split: option.splits if_splits)
  have gt1: "rright r1 < x" if "x \<in> xs_pts rs1" for x using that "1.prems"(2) by (rule xs_pts_gt [rotated])
  have gt2: "rright r2 < x" if "x \<in> xs_pts rs2" for x using that "1.prems"(3) by (rule xs_pts_gt [rotated])
  have rest: "appends t b ?X reg1 reg'"
    using "1.IH" rec add "1.prems"(2,3)
    by (auto simp: Let_def xsorted_Cons split: if_splits)
  have beyond: "?r < x" if "x \<in> ?X" for x
    using that by (auto split: if_splits dest: gt1 gt2)
  have set: "xs_pts (r1 # rs1) \<inter> xs_pts (r2 # rs2) = {x. ?l \<le> x \<and> x < ?r} \<union> ?X"
    by (auto split: if_splits dest: gt1 gt2)
  show ?case
  proof (cases "?l < ?r")
    case True
    with add have "add_rect grow reg \<lparr>rleft = ?l, rtop = t, rright = ?r, rbottom = b\<rparr> = Some reg1"
      by simp
    from appends_Cons [OF this rest True beyond] show ?thesis unfolding set .
  next
    case False
    then have "{x. ?l \<le> x \<and> x < ?r} = {}" by auto
    moreover from False add have "reg1 = reg" by (simp only: if_False option.inject)
    ultimately show ?thesis using rest unfolding set by (simp only: Un_empty_left)
  qed
qed (auto simp: appends_refl)

lemma subtract_non_overlapping_appends:
  "subtract_non_overlapping grow reg rs t b = Some reg' \<Longrightarrow> xsorted rs
     \<Longrightarrow> appends t b (xs_pts rs) reg reg'"
proof (induction grow reg rs t b arbitrary: reg' rule: subtract_non_overlapping.induct)
  case (2 grow reg r rs t b)
  from "2.prems"(1) obtain reg1 where
    add: "add_rect grow reg \<lparr>rleft = rleft r, rtop = t, rright = rright r, rbottom = b\<rparr> = Some reg1"
    and rec: "subtract_non_overlapping grow reg1 rs t b = Some reg'"
    by (auto split: option.splits)
  have "appends t b (xs_pts rs) reg1 reg'"
    using "2.IH" [OF add rec] "2.prems"(2) by (simp add: xsorted_Cons)
  from appends_Cons [OF add this] "2.prems"(2) xs_pts_gt [OF "2.prems"(2)]
  show ?case by (simp add: xsorted_Cons)
qed (simp add: appends_refl)

lemma union_non_overlapping_subtract:
  "union_non_overlapping grow reg rs t b = subtract_non_overlapping grow reg rs t b"
  by (induction grow reg rs t b rule: union_non_overlapping.induct) (auto split: option.splits)

text \<open>
  In \<^const>\<open>subtract_loop\<close> the variable \<open>left\<close> always lies inside the current rectangle, and what is
  still to be emitted are the points from \<open>left\<close> on.
\<close>

lemma next_left_Cons [simp]: "next_left (r # rs) left = rleft r"
  by (simp add: next_left_def)

lemma next_left_within:
  "xsorted rs \<Longrightarrow> rs \<noteq> [] \<Longrightarrow> rleft (hd rs) \<le> next_left rs l \<and> next_left rs l < rright (hd rs)"
  by (cases rs) (auto simp: xsorted_Cons)

lemma next_left_pts: "xsorted rs \<Longrightarrow> {x \<in> xs_pts rs. next_left rs l \<le> x} = xs_pts rs"
  by (cases rs) (auto dest: xs_pts_ge simp del: xs_pts_Cons)

lemma subtract_tail_appends:
  "subtract_tail grow reg l rs t b = Some reg' \<Longrightarrow> xsorted rs
     \<Longrightarrow> (rs \<noteq> [] \<Longrightarrow> rleft (hd rs) \<le> l \<and> l < rright (hd rs))
     \<Longrightarrow> appends t b {x \<in> xs_pts rs. l \<le> x} reg reg'"
proof (induction grow reg l rs t b arbitrary: reg' rule: subtract_tail.induct)
  case (2 grow reg l r rs t b)
  from "2.prems"(1) obtain reg1 where
    add: "add_rect grow reg \<lparr>rleft = l, rtop = t, rright = rright r, rbottom = b\<rparr> = Some reg1"
    and rec: "subtract_tail grow reg1 (next_left rs l) rs t b = Some reg'"
    by (auto split: option.splits)
  have xs: "xsorted rs" using "2.prems"(2) by (simp add: xsorted_Cons)
  have rest: "appends t b (xs_pts rs) reg1 reg'"
    using "2.IH" [OF add rec xs] next_left_within [OF xs] next_left_pts [OF xs] by simp
  have l: "rleft r \<le> l" "l < rright r" using "2.prems"(3) by auto
  have gt: "rright r < x" if "x \<in> xs_pts rs" for x using that "2.prems"(2) by (rule xs_pts_gt [rotated])
  have set: "{x \<in> xs_pts (r # rs). l \<le> x} = {x. l \<le> x \<and> x < rright r} \<union> xs_pts rs"
    using l by (auto dest: gt)
  show ?case unfolding set by (rule appends_Cons [OF add rest l(2) gt])
qed (simp add: appends_refl)

lemma subtract_loop_appends:
  "subtract_loop grow reg l rs1 rs2 t b = Some reg' \<Longrightarrow> xsorted rs1 \<Longrightarrow> xsorted rs2
     \<Longrightarrow> (rs1 \<noteq> [] \<Longrightarrow> rleft (hd rs1) \<le> l \<and> l < rright (hd rs1))
     \<Longrightarrow> appends t b ({x \<in> xs_pts rs1. l \<le> x} - xs_pts rs2) reg reg'"
proof (induction grow reg l rs1 rs2 t b arbitrary: reg' rule: subtract_loop.induct)
  case (1 grow reg l r1 rs1 r2 rs2 t b)
  let ?add = "\<lambda>r. add_rect grow reg \<lparr>rleft = l, rtop = t, rright = r, rbottom = b\<rparr>"
  let ?rest = "\<lambda>l rs1 rs2. {x \<in> xs_pts rs1. l \<le> x} - xs_pts rs2"
  note xs = "1.prems"(2,3)
  have xs1: "xsorted rs1" and xs2: "xsorted rs2" and lr: "rleft r1 \<le> l" "l < rright r1" "rleft r2 < rright r2"
    using "1.prems"(2,3,4) by (auto simp: xsorted_Cons)
  have gt1: "rright r1 < x" if "x \<in> xs_pts rs1" for x using that xs(1) by (rule xs_pts_gt [rotated])
  have gt2: "rright r2 < x" if "x \<in> xs_pts rs2" for x using that xs(2) by (rule xs_pts_gt [rotated])
  note nl = next_left_within [OF xs1] next_left_pts [OF xs1]
  consider (drop) "rright r2 \<le> l" | (cut) "l < rright r2" "rleft r2 \<le> l"
    | (split) "l < rleft r2" "rleft r2 < rright r1" | (whole) "l < rleft r2" "rright r1 \<le> rleft r2"
    by linarith
  then show ?case
  proof cases
    case drop
    then have "appends t b (?rest l (r1 # rs1) rs2) reg reg'"
      using "1.IH"(1) "1.prems" xs2 by auto
    moreover have "?rest l (r1 # rs1) (r2 # rs2) = ?rest l (r1 # rs1) rs2" using drop by auto
    ultimately show ?thesis by simp
  next
    case cut
    show ?thesis
    proof (cases "rright r1 \<le> rright r2")
      case True
      then have "appends t b (xs_pts rs1 - xs_pts (r2 # rs2)) reg reg'"
        using "1.IH"(2) "1.prems"(1) cut xs xs1 nl by (simp add: Let_def)
      moreover have "?rest l (r1 # rs1) (r2 # rs2) = xs_pts rs1 - xs_pts (r2 # rs2)"
        using cut True lr by (auto dest: gt1 gt2)
      ultimately show ?thesis by simp
    next
      case False
      then have "appends t b (?rest (rright r2) (r1 # rs1) rs2) reg reg'"
        using "1.IH"(3) "1.prems"(1) cut xs xs2 lr by (simp add: Let_def)
      moreover have "?rest l (r1 # rs1) (r2 # rs2) = ?rest (rright r2) (r1 # rs1) rs2"
        using cut False lr by (auto dest: gt1 gt2)
      ultimately show ?thesis by simp
    qed
  next
    case split
    then obtain reg1 where add: "?add (rleft r2) = Some reg1"
      using "1.prems"(1) lr by (auto split: option.splits if_splits)
    let ?Y = "if rright r1 \<le> rright r2 then xs_pts rs1 - xs_pts (r2 # rs2)
      else ?rest (rright r2) (r1 # rs1) rs2"
    have rest: "appends t b ?Y reg1 reg'"
      using "1.IH"(4,5) [OF _ _ _ add] "1.prems"(1) split lr xs xs1 xs2 nl add
      by (auto simp: Let_def)
    have set: "?rest l (r1 # rs1) (r2 # rs2) = {x. l \<le> x \<and> x < rleft r2} \<union> ?Y"
      using split lr by (auto dest: gt1 gt2)
    have "rleft r2 < x" if "x \<in> ?Y" for x
      using that split lr by (auto split: if_splits dest: gt1)
    from appends_Cons [OF add rest split(1) this] show ?thesis unfolding set .
  next
    case whole
    then obtain reg1 where add: "?add (rright r1) = Some reg1"
      using "1.prems"(1) lr by (auto split: option.splits)
    have rest: "appends t b (xs_pts rs1 - xs_pts (r2 # rs2)) reg1 reg'"
      using "1.IH"(6) "1.prems"(1) whole lr xs xs1 nl add by simp
    have set: "?rest l (r1 # rs1) (r2 # rs2)
        = {x. l \<le> x \<and> x < rright r1} \<union> (xs_pts rs1 - xs_pts (r2 # rs2))"
      using whole lr by (auto dest: gt1 gt2)
    have "rright r1 < x" if "x \<in> xs_pts rs1 - xs_pts (r2 # rs2)" for x
      using that by (auto dest: gt1)
    from appends_Cons [OF add rest lr(2) this] show ?thesis unfolding set .
  qed
qed (auto simp: appends_refl dest: subtract_tail_appends)

lemma subtract_overlapping_appends:
  assumes "subtract_overlapping grow reg rs1 rs2 t b = Some reg'" and "rs1 \<noteq> []"
    and xs: "xsorted rs1" "xsorted rs2"
  shows "appends t b (xs_pts rs1 - xs_pts rs2) reg reg'"
proof -
  have "{x \<in> xs_pts rs1. rleft (hd rs1) \<le> x} = xs_pts rs1"
    using next_left_pts [OF xs(1)] \<open>rs1 \<noteq> []\<close> by (cases rs1) auto
  moreover have "rleft (hd rs1) < rright (hd rs1)"
    using xs(1) \<open>rs1 \<noteq> []\<close> by (cases rs1) (auto simp: xsorted_Cons)
  ultimately show ?thesis
    using subtract_loop_appends [of grow reg "rleft (hd rs1)" rs1 rs2 t b reg'] assms
    by (simp add: subtract_overlapping_def)
qed

text \<open>
  \<^const>\<open>MERGERECT\<close> may extend the last rectangle instead of adding one. The invariant of the union
  loop splits the rectangles at the start \<open>base\<close> of the band being built.
\<close>

definition building :: "rectangle list \<Rightarrow> int \<Rightarrow> int \<Rightarrow> int set \<Rightarrow> region \<Rightarrow> bool" where
  "building base t b X reg \<longleftrightarrow>
     (\<exists>bs. rects reg = base @ bs \<and> xband t b bs \<and> xs_pts bs = X)"

lemma xband_last:
  "xband t b (bs @ [c]) \<longleftrightarrow>
     xband t b bs \<and> rtop c = t \<and> rbottom c = b \<and> rleft c < rright c \<and> (\<forall>r \<in> set bs. rright r < rleft c)"
  by (auto simp: xband_append xband_Cons)

lemma MERGERECT_frame:
  "MERGERECT grow reg r t b = Some reg' \<Longrightarrow>
     extents reg' = extents reg \<and> (cap reg \<longrightarrow> cap reg') \<and>
     (\<forall>c \<in> set (rects reg'). c \<in> set (rects reg) \<or> rleft c = rleft r \<or>
        (\<exists>d \<in> set (rects reg). rtop c = rtop d \<and> rleft c = rleft d))"
  by (auto simp: MERGERECT_def cap_def dest!: add_rect_SomeD dest: in_set_butlastD
      intro!: bexI [of _ "last (rects reg)"] split: if_splits)

lemma MERGERECT_building:
  assumes merge: "MERGERECT grow reg r t b = Some reg'" and inv: "building base t b X reg"
    and base: "\<forall>c \<in> set base. rtop c \<noteq> t" and r: "rleft r < rright r"
    and Xl: "\<forall>c \<in> set (rects reg). rtop c = t \<longrightarrow> rleft c \<le> rleft r"
  shows "building base t b (X \<union> {x. rleft r \<le> x \<and> x < rright r}) reg'"
    and "\<forall>c \<in> set (rects reg'). rtop c = t \<longrightarrow> rleft c \<le> rleft r"
    and "extents reg' = extents reg" and "cap reg \<Longrightarrow> cap reg'"
proof -
  from inv obtain bs where bs: "rects reg = base @ bs" "xband t b bs" "xs_pts bs = X"
    by (auto simp: building_def)
  let ?new = "\<lparr>rleft = rleft r, rtop = t, rright = rright r, rbottom = b\<rparr>"
  show "building base t b (X \<union> {x. rleft r \<le> x \<and> x < rright r}) reg'"
  proof (cases bs rule: rev_cases)
    case Nil
    then have "add_rect grow reg ?new = Some reg'"
      using merge bs(1) base by (auto simp: MERGERECT_def split: if_splits)
    from add_rect_SomeD [OF this] Nil bs r show ?thesis
      by (auto simp: building_def xband_Cons)
  next
    case (snoc cs c)
    with bs have c: "rtop c = t" "rbottom c = b" "rleft c < rright c" "rleft c \<le> rleft r"
      using Xl by (auto simp: xband_last)
    show ?thesis
    proof (cases "rright c \<ge> rleft r")
      case True
      then have "rects reg' = base @ cs @ [if rright c < rright r then c\<lparr>rright := rright r\<rparr> else c]"
        using merge bs(1) snoc c by (auto simp: MERGERECT_def butlast_append split: if_splits)
      moreover have "xs_pts cs \<union> {x. rleft c \<le> x \<and> x < max (rright c) (rright r)}
          = X \<union> {x. rleft r \<le> x \<and> x < rright r}"
        using bs(3) snoc c True by auto
      ultimately show ?thesis
        using bs(2) snoc c by (auto simp: building_def xband_last max_def split: if_splits)
    next
      case False
      then have "add_rect grow reg ?new = Some reg'"
        using merge bs(1) snoc by (auto simp: MERGERECT_def split: if_splits)
      from add_rect_SomeD [OF this] False snoc bs r c show ?thesis
        by (auto simp: building_def xband_append xband_Cons intro!: exI [of _ "bs @ [?new]"])
    qed
  qed
qed (use MERGERECT_frame [OF merge] Xl in auto)

lemma union_overlapping_building:
  "union_overlapping grow reg rs1 rs2 t b = Some reg' \<Longrightarrow> building base t b X reg
     \<Longrightarrow> xsorted rs1 \<Longrightarrow> xsorted rs2 \<Longrightarrow> \<forall>c \<in> set base. rtop c \<noteq> t
     \<Longrightarrow> (\<forall>c \<in> set (rects reg). rtop c = t \<longrightarrow> (\<forall>r \<in> set rs1 \<union> set rs2. rleft c \<le> rleft r))
     \<Longrightarrow> building base t b (X \<union> xs_pts rs1 \<union> xs_pts rs2) reg' \<and>
       extents reg' = extents reg \<and> (cap reg \<longrightarrow> cap reg')"
proof (induction grow reg rs1 rs2 t b arbitrary: X reg' rule: union_overlapping.induct)
  case (2 grow reg r rs t b)
  from "2.prems"(1) obtain reg1 where m: "MERGERECT grow reg r t b = Some reg1"
    and rec: "union_overlapping grow reg1 rs [] t b = Some reg'" by (auto split: option.splits)
  have r: "rleft r < rright r" using "2.prems"(3) by (simp add: xsorted_Cons)
  have le: "\<forall>c \<in> set (rects reg). rtop c = t \<longrightarrow> rleft c \<le> rleft r" using "2.prems"(6) by simp
  note merge = MERGERECT_building [OF m "2.prems"(2,5) r le]
  have "rleft r < rleft s" if "s \<in> set rs" for s using "2.prems"(3) that by (force simp: xsorted_Cons)
  then have "\<forall>c \<in> set (rects reg1). rtop c = t \<longrightarrow> (\<forall>s \<in> set rs \<union> set []. rleft c \<le> rleft s)"
    using merge(2) by force
  from "2.IH" [OF m rec merge(1) _ _ "2.prems"(5) this] show ?case
    using "2.prems"(3) merge(3,4) by (simp add: xsorted_Cons Un_ac)
next
  case (3 grow reg r rs t b)
  from "3.prems"(1) obtain reg1 where m: "MERGERECT grow reg r t b = Some reg1"
    and rec: "union_overlapping grow reg1 [] rs t b = Some reg'" by (auto split: option.splits)
  have r: "rleft r < rright r" using "3.prems"(4) by (simp add: xsorted_Cons)
  have le: "\<forall>c \<in> set (rects reg). rtop c = t \<longrightarrow> rleft c \<le> rleft r" using "3.prems"(6) by simp
  note merge = MERGERECT_building [OF m "3.prems"(2,5) r le]
  have "rleft r < rleft s" if "s \<in> set rs" for s using "3.prems"(4) that by (force simp: xsorted_Cons)
  then have "\<forall>c \<in> set (rects reg1). rtop c = t \<longrightarrow> (\<forall>s \<in> set [] \<union> set rs. rleft c \<le> rleft s)"
    using merge(2) by force
  from "3.IH" [OF m rec merge(1) _ _ "3.prems"(5) this] show ?case
    using "3.prems"(4) merge(3,4) by (simp add: xsorted_Cons Un_ac)
next
  case (4 grow reg r1 rs1 r2 rs2 t b)
  have gt1: "rleft r1 < rleft s" if "s \<in> set rs1" for s using "4.prems"(3) that by (force simp: xsorted_Cons)
  have gt2: "rleft r2 < rleft s" if "s \<in> set rs2" for s using "4.prems"(4) that by (force simp: xsorted_Cons)
  have le1: "\<forall>c \<in> set (rects reg). rtop c = t \<longrightarrow> rleft c \<le> rleft r1" using "4.prems"(6) by simp
  have le2: "\<forall>c \<in> set (rects reg). rtop c = t \<longrightarrow> rleft c \<le> rleft r2" using "4.prems"(6) by simp
  show ?case
  proof (cases "rleft r1 < rleft r2")
    case True
    from True "4.prems"(1) obtain reg1 where m: "MERGERECT grow reg r1 t b = Some reg1"
      and rec: "union_overlapping grow reg1 rs1 (r2 # rs2) t b = Some reg'" by (auto split: option.splits)
    have r1: "rleft r1 < rright r1" using "4.prems"(3) by (simp add: xsorted_Cons)
    note merge = MERGERECT_building [OF m "4.prems"(2,5) r1 le1]
    have "\<forall>c \<in> set (rects reg1). rtop c = t \<longrightarrow> (\<forall>s \<in> set rs1 \<union> set (r2 # rs2). rleft c \<le> rleft s)"
      using merge(2) gt1 gt2 True by fastforce
    from "4.IH"(1) [OF True m rec merge(1) _ "4.prems"(4,5) this] show ?thesis
      using "4.prems"(3) merge(3,4) by (simp add: xsorted_Cons Un_ac)
  next
    case False
    from False "4.prems"(1) obtain reg1 where m: "MERGERECT grow reg r2 t b = Some reg1"
      and rec: "union_overlapping grow reg1 (r1 # rs1) rs2 t b = Some reg'" by (auto split: option.splits)
    have r2: "rleft r2 < rright r2" using "4.prems"(4) by (simp add: xsorted_Cons)
    note merge = MERGERECT_building [OF m "4.prems"(2,5) r2 le2]
    have "\<forall>c \<in> set (rects reg1). rtop c = t \<longrightarrow> (\<forall>s \<in> set (r1 # rs1) \<union> set rs2. rleft c \<le> rleft s)"
      using merge(2) gt1 gt2 False by fastforce
    from "4.IH"(2) [OF False m rec merge(1) "4.prems"(3) _ "4.prems"(5) this] show ?thesis
      using "4.prems"(4) merge(3,4) by (simp add: xsorted_Cons Un_ac)
  qed
qed simp

lemma union_overlapping_appends:
  assumes "union_overlapping grow reg rs1 rs2 t b = Some reg'" and "xsorted rs1" "xsorted rs2"
    and "\<forall>c \<in> set (rects reg). rtop c \<noteq> t"
  shows "appends t b (xs_pts rs1 \<union> xs_pts rs2) reg reg'"
proof -
  have "building (rects reg) t b {} reg" by (auto simp: building_def)
  from union_overlapping_building [OF assms(1) this assms(2-4)] assms(4) show ?thesis
    by (auto simp: building_def appends_def)
qed

section \<open>The band operations return when memory does not run out\<close>

lemma add_rect_neq_None [simp]: "\<forall>n. grow n \<Longrightarrow> add_rect grow reg r \<noteq> None"
  by (simp add: add_rect_def)

lemma MERGERECT_neq_None [simp]: "\<forall>n. grow n \<Longrightarrow> MERGERECT grow reg r t b \<noteq> None"
  unfolding MERGERECT_def by (simp del: not_None_eq)

lemma intersect_overlapping_neq_None:
  "\<forall>n. grow n \<Longrightarrow> intersect_overlapping grow reg rs1 rs2 t b \<noteq> None"
  by (induction grow reg rs1 rs2 t b rule: intersect_overlapping.induct)
    (auto simp: Let_def add_rect_def split: option.splits)

lemma subtract_non_overlapping_neq_None:
  "\<forall>n. grow n \<Longrightarrow> subtract_non_overlapping grow reg rs t b \<noteq> None"
  by (induction grow reg rs t b rule: subtract_non_overlapping.induct)
    (auto simp: add_rect_def split: option.splits)

lemma subtract_tail_neq_None: "\<forall>n. grow n \<Longrightarrow> subtract_tail grow reg l rs t b \<noteq> None"
  by (induction grow reg l rs t b rule: subtract_tail.induct)
    (auto simp: add_rect_def split: option.splits)

lemma subtract_overlapping_neq_None:
  "\<forall>n. grow n \<Longrightarrow> subtract_overlapping grow reg rs1 rs2 t b \<noteq> None"
proof -
  have "\<forall>n. grow n \<Longrightarrow> subtract_loop grow reg l rs1 rs2 t b \<noteq> None" for reg l
    by (induction grow reg l rs1 rs2 t b rule: subtract_loop.induct)
      (auto simp: Let_def add_rect_def subtract_tail_neq_None [simplified] split: option.splits)
  then show "\<forall>n. grow n \<Longrightarrow> subtract_overlapping grow reg rs1 rs2 t b \<noteq> None"
    by (simp add: subtract_overlapping_def)
qed

lemma union_overlapping_neq_None:
  "\<forall>n. grow n \<Longrightarrow> union_overlapping grow reg rs1 rs2 t b \<noteq> None"
  by (induction grow reg rs1 rs2 t b rule: union_overlapping.induct)
    (auto simp: MERGERECT_neq_None [simplified] split: option.splits dest: MERGERECT_neq_None)

end
