(* ===== verification/Region_Ops.thy ===== *)
theory Region_Ops
  imports Region_Bands
begin

text \<open>
  The generic combination of two regions, \<^verbatim>\<open>region_op\<close> of \<^verbatim>\<open>server/region.c\<close>. Coalescing keeps the
  points and the banding; one pass through the loop decides all rows up to the new \<open>ybot\<close>; the
  trailing loops copy what is left.
\<close>

section \<open>Bands of a banded list\<close>

lemma band_append_band_end: "band rs @ band_end rs = rs"
  by (simp add: band_def band_end_def)

lemma band_neq_Nil: "rs \<noteq> [] \<Longrightarrow> band rs \<noteq> []"
  by (cases rs) (simp_all add: band_def)

lemma banded_same_top:
  assumes "banded rs" and "r \<in> set rs" and "s \<in> set rs" and "rtop r = rtop s"
  shows "rbottom r = rbottom s"
proof -
  have *: "rbottom u = rbottom v" if "before u v" "rtop u = rtop v" "\<not> is_rect_empty u" for u v
    using that by (auto simp: before_def is_rect_empty_def)
  have "before r s \<or> before s r \<or> r = s"
    using assms(1-3) by (induction rs) (auto simp: banded_Cons)
  moreover have "\<not> is_rect_empty r" "\<not> is_rect_empty s" using assms by (auto simp: banded_def)
  ultimately show ?thesis using * [of r s] * [of s r] assms(4) by auto
qed

lemma banded_hd: "banded rs \<Longrightarrow> rs \<noteq> [] \<Longrightarrow> rtop (hd rs) < rbottom (hd rs)"
  by (cases rs) (auto simp: banded_Cons is_rect_empty_def)

lemma banded_xband:
  "banded rs \<Longrightarrow> \<forall>r \<in> set rs. rtop r = t \<and> rbottom r = b \<Longrightarrow> xband t b rs"
  by (induction rs) (auto simp: banded_Cons xband_Cons before_def is_rect_empty_def)

lemma takeWhile_top_xband:
  assumes "banded rs" and "r \<in> set rs"
  shows "xband (rtop r) (rbottom r) (takeWhile (\<lambda>s. rtop s = rtop r) rs)"
  using assms by (intro banded_xband banded_takeWhile)
    (auto dest!: set_takeWhileD intro: banded_same_top)

lemma band_xband: "banded rs \<Longrightarrow> rs \<noteq> [] \<Longrightarrow> xband (rtop (hd rs)) (rbottom (hd rs)) (band rs)"
  using takeWhile_top_xband [of rs "hd rs"] by (simp add: band_def)

lemma dropWhile_top_above:
  assumes "banded rs" and "s \<in> set (dropWhile (\<lambda>s. rtop s = t) rs)" and "r \<in> set (takeWhile (\<lambda>s. rtop s = t) rs)"
  shows "rbottom r \<le> rtop s"
proof -
  let ?t = "takeWhile (\<lambda>s. rtop s = t) rs" and ?d = "dropWhile (\<lambda>s. rtop s = t) rs"
  from assms(2) obtain d ds where d: "?d = d # ds" by (cases ?d) auto
  have b: "banded (?t @ d # ds)" using assms(1) d by (metis takeWhile_dropWhile_id)
  have "rtop d \<noteq> t" using d by (simp add: dropWhile_eq_Cons_conv)
  moreover have "rtop r = t" using set_takeWhileD [OF assms(3)] by simp
  ultimately have "rbottom r \<le> rtop d" using b assms(3) by (auto simp: banded_append before_def)
  moreover have "rtop d \<le> rtop s"
    using b assms(2) d by (auto simp: banded_append dest: banded_rtop_le)
  ultimately show ?thesis by simp
qed

lemma band_end_above: "banded rs \<Longrightarrow> rs \<noteq> [] \<Longrightarrow> s \<in> set (band_end rs) \<Longrightarrow> rbottom (hd rs) \<le> rtop s"
  using dropWhile_top_above [of rs s "rtop (hd rs)" "hd rs"] by (cases rs) (simp_all add: band_end_def)

lemma banded_band_end: "banded rs \<Longrightarrow> banded (band_end rs)"
  by (simp add: band_end_def banded_dropWhile)

section \<open>Coalescing\<close>

text \<open>
  \<open>last_band rs prev\<close>: the index \<^verbatim>\<open>prevBand\<close> is where the last band of \<open>rs\<close> starts.
\<close>

definition last_band :: "rectangle list \<Rightarrow> nat \<Rightarrow> bool" where
  "last_band rs prev \<longleftrightarrow>
     prev \<le> length rs \<and> (rs \<noteq> [] \<longrightarrow> prev < length rs) \<and>
     (\<exists>t b. xband t b (drop prev rs) \<and> (\<forall>a \<in> set (take prev rs). rbottom a \<le> t))"

definition out_ok :: "region \<Rightarrow> nat \<Rightarrow> int \<Rightarrow> bool" where
  "out_ok reg prev y \<longleftrightarrow>
     banded (rects reg) \<and> (\<forall>r \<in> set (rects reg). rbottom r \<le> y) \<and> last_band (rects reg) prev"

lemma out_ok_mono: "out_ok reg prev y \<Longrightarrow> y \<le> y' \<Longrightarrow> out_ok reg prev y'"
  by (force simp: out_ok_def)

lemma last_band_append:
  "xband t b N \<Longrightarrow> N \<noteq> [] \<Longrightarrow> \<forall>a \<in> set B. rbottom a \<le> t \<Longrightarrow> last_band (B @ N) (length B)"
  by (auto simp: last_band_def)

text \<open>Joining two bands that touch and have the same columns.\<close>

definition join_bands :: "rectangle list \<Rightarrow> rectangle list \<Rightarrow> rectangle list" where
  "join_bands ps cs = map2 (\<lambda>p c. p\<lparr>rbottom := rbottom c\<rparr>) ps cs"

abbreviation same_columns :: "rectangle list \<Rightarrow> rectangle list \<Rightarrow> bool" where
  "same_columns ps cs \<equiv> list_all2 (\<lambda>p c. rleft p = rleft c \<and> rright p = rright c) ps cs"

lemma join_bands_simps [simp]:
  "join_bands [] [] = []"
  "join_bands (p # ps) (c # cs) = p\<lparr>rbottom := rbottom c\<rparr> # join_bands ps cs"
  by (simp_all add: join_bands_def)

lemma join_bands_props:
  "same_columns ps cs \<Longrightarrow> xband t b ps \<Longrightarrow> xband b b' cs
     \<Longrightarrow> xband t b' (join_bands ps cs) \<and> xs_pts (join_bands ps cs) = xs_pts ps \<and> xs_pts cs = xs_pts ps \<and>
       rleft ` set (join_bands ps cs) = rleft ` set ps"
proof (induction ps cs rule: list_all2_induct)
  case (Cons p ps c cs)
  have IH: "xband t b' (join_bands ps cs)" "xs_pts (join_bands ps cs) = xs_pts ps" "xs_pts cs = xs_pts ps"
    "rleft ` set (join_bands ps cs) = rleft ` set ps"
    using Cons.IH Cons.prems by (simp_all add: xband_Cons)
  have p: "rtop p = t" "rbottom c = b'" "rleft p < rright p" "\<forall>s \<in> set ps. rright p < rleft s"
    using Cons.prems by (simp_all add: xband_Cons)
  have "rright p < rleft s" if "s \<in> set (join_bands ps cs)" for s
    using imageI [OF that, of rleft] p(4) unfolding IH(4) by auto
  with IH p Cons.hyps(1) show ?case by (simp add: xband_Cons)
qed simp

lemma join_bands_length: "same_columns ps cs \<Longrightarrow> length (join_bands ps cs) = length ps"
  by (simp add: join_bands_def list_all2_lengthD)

lemma banded_join:
  assumes "banded (A @ P @ C @ D)" and "same_columns P C" and "C \<noteq> []" and "xband t b P" and "xband b b' C"
    and "\<forall>a \<in> set A. rbottom a \<le> t" and "\<forall>d \<in> set D. b' \<le> rtop d" and "t < b" "b < b'"
  shows "banded (A @ join_bands P C @ D)"
    and "rects_pts (A @ join_bands P C @ D) = rects_pts (A @ P @ C @ D)"
proof -
  have j: "xband t b' (join_bands P C)" "xs_pts (join_bands P C) = xs_pts P" "xs_pts C = xs_pts P"
    using join_bands_props [OF assms(2,4,5)] by auto
  have "before x y" if "x \<in> set (join_bands P C)" "y \<in> set D" for x y
    using that assms(7) xbandD [OF j(1)] by (simp add: before_def)
  moreover have "before x y" if "x \<in> set A" "y \<in> set (join_bands P C)" for x y
    using that assms(6) xbandD [OF j(1)] by (simp add: before_def)
  moreover have "banded (join_bands P C)" using xband_banded [OF j(1)] assms(8,9) by simp
  ultimately show "banded (A @ join_bands P C @ D)" using assms(1) by (auto simp: banded_append)
  have "rects_pts (join_bands P C) = rects_pts P \<union> rects_pts C"
    unfolding xband_pts [OF j(1)] xband_pts [OF assms(4)] xband_pts [OF assms(5)] j(2,3)
    using assms(8,9) by auto
  then show "rects_pts (A @ join_bands P C @ D) = rects_pts (A @ P @ C @ D)" by auto
qed

text \<open>\<^const>\<open>coalesce_region\<close> on a list cut into the previous band \<open>P\<close> and what was added since.\<close>

lemma coalesce_region_split:
  fixes reg :: region
  assumes rs: "rects reg = A @ P @ N" and N: "N \<noteq> []"
  defines "cur \<equiv> if band_end N \<noteq> [] then last_band_start (A @ P @ N) (length (A @ P @ N) - 1)
                 else length (A @ P)"
  shows "coalesce_region reg (length A) (length (A @ P)) =
    (if length (band N) = length P \<and> rbottom (hd P) = rtop (hd N) \<and> same_columns P (band N)
     then (reg\<lparr>rects := A @ join_bands P (band N) @ band_end N\<rparr>, if band_end N = [] then length A else cur)
     else (reg, cur))"
proof -
  have len: "length (band N) + length (band_end N) = length N"
    by (metis band_append_band_end length_append)
  have cut: "take (length (band N)) N = band N" "drop (length (band N)) N = band_end N"
    using band_append_band_end [of N] by (metis append_eq_conv_conj)+
  have eqs: "(A @ P @ N) ! length (A @ P) = hd N"
    "takeWhile (\<lambda>r. rtop r = rtop (hd N)) (drop (length (A @ P)) (A @ P @ N)) = band N"
    "(length (A @ P) + length (band N) = length (A @ P @ N)) = (band_end N = [])"
    "length (A @ P) - length A = length P" "take (length P) (drop (length A) (A @ P @ N)) = P"
    "take (length (band N)) (drop (length (A @ P)) (A @ P @ N)) = band N"
    "take (length A) (A @ P @ N) = A" "drop (length (A @ P) + length (band N)) (A @ P @ N) = band_end N"
    using N len cut by (auto simp: band_def nth_append hd_conv_nth)
  have "(A @ P @ N) ! length A = hd P" if "length (band N) = length P"
    using that band_neq_Nil [OF N] by (cases P) (simp_all add: nth_append)
  moreover have "length (band N) \<noteq> 0" using band_neq_Nil [OF N] by simp
  ultimately show ?thesis
    unfolding coalesce_region_def Let_def rs eqs cur_def join_bands_def
    by (cases "length (band N) = length P"; cases "band_end N = []") simp_all
qed

lemma coalesce_region_ok:
  assumes rs: "rects reg = B @ N" and N: "N \<noteq> []" and b: "banded (B @ N)" and lb: "last_band B prev"
    and above: "\<forall>a \<in> set B. \<forall>c \<in> set N. rbottom a \<le> rtop c"
    and res: "coalesce_region reg prev (length B) = (reg2, prev2)"
  shows "banded (rects reg2)" and "rects_pts (rects reg2) = rects_pts (B @ N)"
    and "extents reg2 = extents reg" and "cap reg \<Longrightarrow> cap reg2"
    and "rbottom ` set (rects reg2) \<subseteq> rbottom ` set (B @ N)"
    and "xband t' b' N \<Longrightarrow> last_band (rects reg2) prev2"
proof -
  define A where "A = take prev B"
  define P where "P = drop prev B"
  have B: "B = A @ P" and lenA: "length A = prev" using lb by (auto simp: A_def P_def last_band_def)
  from lb obtain tp bp where P: "xband tp bp P" "\<forall>a \<in> set A. rbottom a \<le> tp"
    unfolding last_band_def A_def P_def by auto
  let ?C = "band N" and ?D = "band_end N"
  have CD: "B @ N = A @ P @ ?C @ ?D" unfolding B band_append_band_end by simp
  have bN: "banded N" using b by (simp add: banded_append)
  have C: "xband (rtop (hd N)) (rbottom (hd N)) ?C" using band_xband [OF bN N] .
  have hdN: "hd N \<in> set N" "rtop (hd N) < rbottom (hd N)"
    using N banded_hd [OF bN N] by simp_all
  have split: "coalesce_region reg (length A) (length (A @ P)) = (reg2, prev2)"
    using res lenA B by simp
  have Dnil: "?D = []" if "xband t' b' N"
    using hdN(1) xbandD [OF that] by (simp add: band_end_def)
  note eqs = coalesce_region_split [of reg A P N, OF _ N] rs B split
  consider (joined) "length ?C = length P" "rbottom (hd P) = rtop (hd N)" "same_columns P ?C"
      "reg2 = reg\<lparr>rects := A @ join_bands P ?C @ ?D\<rparr>" "?D = [] \<longrightarrow> prev2 = length A"
    | (kept) "reg2 = reg" "?D = [] \<longrightarrow> prev2 = length B"
    using eqs by (auto split: if_splits)
  then have "banded (rects reg2) \<and> rects_pts (rects reg2) = rects_pts (B @ N) \<and>
      extents reg2 = extents reg \<and> (cap reg \<longrightarrow> cap reg2) \<and>
      rbottom ` set (rects reg2) \<subseteq> rbottom ` set (B @ N) \<and>
      (xband t' b' N \<longrightarrow> last_band (rects reg2) prev2)"
  proof cases
    case joined
    have Pne: "P \<noteq> []" using joined(1) band_neq_Nil [OF N] by auto
    have bp: "bp = rtop (hd N)" using joined(2) xbandD [OF P(1), of "hd P"] Pne by simp
    have tb: "tp < bp"
      using b Pne xbandD [OF P(1), of "hd P"] banded_hd [of P] unfolding B by (simp add: banded_append)
    have above': "\<forall>d \<in> set ?D. rbottom (hd N) \<le> rtop d" using band_end_above [OF bN N] by simp
    note j = banded_join [OF b [unfolded CD] joined(3) band_neq_Nil [OF N] P(1) [unfolded bp] C P(2)
        above' tb [unfolded bp] hdN(2), folded CD]
    have jb: "xband tp (rbottom (hd N)) (join_bands P ?C)"
      using join_bands_props [OF joined(3) P(1)] C bp by simp
    have jne: "join_bands P ?C \<noteq> []" using Pne join_bands_length [OF joined(3)] by auto
    have "rbottom ` set (rects reg2) \<subseteq> rbottom ` set (B @ N)"
    proof -
      have "rbottom ` set (join_bands P ?C) \<subseteq> rbottom ` set N" using xbandD [OF jb] hdN(1) by auto
      moreover have "set (A @ ?D) \<subseteq> set (B @ N)" unfolding CD by auto
      ultimately show ?thesis unfolding joined(4) by auto
    qed
    moreover have "cap reg \<longrightarrow> cap reg2"
      using joined(4) CD rs by (simp add: cap_def join_bands_length [OF joined(3)])
    moreover have "last_band (rects reg2) prev2" if "xband t' b' N"
      using last_band_append [OF jb jne P(2)] joined(4,5) Dnil [OF that] by simp
    moreover note j
    ultimately show ?thesis using joined(4) by simp
  next
    case kept
    moreover have "last_band (rects reg2) prev2" if "xband t' b' N"
      using last_band_append [OF that N, of B] kept Dnil [OF that] above hdN(1) xbandD [OF that hdN(1)] rs
      by auto
    ultimately show ?thesis using b rs by simp
  qed
  then show "banded (rects reg2)" "rects_pts (rects reg2) = rects_pts (B @ N)"
    "extents reg2 = extents reg" "cap reg \<Longrightarrow> cap reg2"
    "rbottom ` set (rects reg2) \<subseteq> rbottom ` set (B @ N)"
    "xband t' b' N \<Longrightarrow> last_band (rects reg2) prev2" by auto
qed

section \<open>Rows decided so far\<close>

text \<open>
  \<open>decided op reg prev y\<close>: the output covers exactly the points of \<open>op\<close> in the rows below \<open>y\<close>.
  \<open>rest R y r\<close>: the remaining list \<open>r\<close> of a source region \<open>R\<close> has all its points from row \<open>y\<close> on.
\<close>

definition decided :: "(int \<Rightarrow> int \<Rightarrow> bool) \<Rightarrow> region \<Rightarrow> nat \<Rightarrow> int \<Rightarrow> bool" where
  "decided op reg prev y \<longleftrightarrow>
     out_ok reg prev y \<and> cap reg \<and> rects_pts (rects reg) = {(x, v). v < y \<and> op x v}"

definition rest :: "rectangle list \<Rightarrow> int \<Rightarrow> rectangle list \<Rightarrow> bool" where
  "rest R y r \<longleftrightarrow>
     banded r \<and> (\<forall>s \<in> set r. y < rbottom s) \<and>
     (\<forall>x v. y \<le> v \<longrightarrow> ((x, v) \<in> rects_pts R \<longleftrightarrow> (x, v) \<in> rects_pts r))"

lemma decided_skip:
  "decided op reg prev y \<Longrightarrow> y \<le> y' \<Longrightarrow> (\<And>x v. y \<le> v \<Longrightarrow> v < y' \<Longrightarrow> \<not> op x v) \<Longrightarrow> decided op reg prev y'"
  by (force simp: decided_def intro: out_ok_mono)

lemma coalesce_if_grown_same [simp]: "coalesce_if_grown reg prev (num_rects reg) = (reg, prev)"
  by (simp add: coalesce_if_grown_def)

text \<open>Emitting one band and coalescing it with the previous one decides its rows.\<close>

lemma decided_emit:
  assumes dec: "decided op reg prev y" and app: "appends t b X reg reg1" and "y \<le> t" "t < b"
    and gap: "\<And>x v. y \<le> v \<Longrightarrow> v < t \<Longrightarrow> \<not> op x v"
    and row: "\<And>x v. t \<le> v \<Longrightarrow> v < b \<Longrightarrow> op x v \<longleftrightarrow> x \<in> X"
    and coal: "coalesce_if_grown reg1 prev (num_rects reg) = (reg2, prev2)"
  shows "decided op reg2 prev2 b" and "extents reg2 = extents reg"
proof -
  from app obtain N where N: "rects reg1 = rects reg @ N" "xband t b N" "xs_pts N = X"
    and frame: "extents reg1 = extents reg" "cap reg1"
    using dec by (auto simp: appends_def decided_def)
  have B: "banded (rects reg)" "\<forall>r \<in> set (rects reg). rbottom r \<le> y" "last_band (rects reg) prev"
    using dec by (auto simp: decided_def out_ok_def)
  have pts: "rects_pts (rects reg @ N) = {(x, v). v < b \<and> op x v}"
  proof -
    have "rects_pts N = {(x, v). op x v \<and> t \<le> v \<and> v < b}"
      using xband_pts [OF N(2)] N(3) row by auto
    moreover have "rects_pts (rects reg) = {(x, v). v < t \<and> op x v}"
      using dec gap \<open>y \<le> t\<close> by (force simp: decided_def)
    ultimately show ?thesis using \<open>t < b\<close> by auto
  qed
  have above: "\<forall>a \<in> set (rects reg). \<forall>c \<in> set N. rbottom a \<le> rtop c"
    using B(2) xbandD [OF N(2)] \<open>y \<le> t\<close> by force
  have ban: "banded (rects reg @ N)"
    using B(1) xband_banded [OF N(2) \<open>t < b\<close>] above by (simp add: banded_append before_def)
  have bot: "\<forall>r \<in> set (rects reg @ N). rbottom r \<le> b"
    using B(2) xbandD [OF N(2)] \<open>y \<le> t\<close> \<open>t < b\<close> by force
  show "decided op reg2 prev2 b" and "extents reg2 = extents reg"
  proof (atomize (full), cases "N = []")
    case True
    then have "reg2 = reg1" "prev2 = prev" using coal N(1) by (auto simp: coalesce_if_grown_def)
    then show "decided op reg2 prev2 b \<and> extents reg2 = extents reg"
      using True N(1) B ban bot pts frame by (simp add: decided_def out_ok_def)
  next
    case False
    then have "coalesce_region reg1 prev (length (rects reg)) = (reg2, prev2)"
      using coal N(1) by (simp add: coalesce_if_grown_def)
    note c = coalesce_region_ok [OF N(1) False ban B(3) above this]
    have "\<forall>r \<in> set (rects reg2). rbottom r \<le> b" using c(5) bot by (auto simp del: set_append)
    with c(1,2,3) c(4) [OF frame(2)] c(6) [OF N(2)] pts frame(1)
    show "decided op reg2 prev2 b \<and> extents reg2 = extents reg"
      by (simp add: decided_def out_ok_def)
  qed
qed

section \<open>The remaining rectangles of a source\<close>

lemma rest_row:
  assumes "rest R y r" and "r \<noteq> []" and "y \<le> v" and "v < rbottom (hd r)"
  shows "(x, v) \<in> rects_pts R \<longleftrightarrow> x \<in> xs_pts (band r) \<and> rtop (hd r) \<le> v"
proof -
  have b: "banded r" using assms(1) by (simp add: rest_def)
  have "(x, v) \<in> rects_pts R \<longleftrightarrow> (x, v) \<in> rects_pts (band r @ band_end r)"
    using assms(1,3) by (simp add: rest_def band_append_band_end)
  moreover have "(x, v) \<notin> rects_pts (band_end r)"
    using band_end_above [OF b assms(2)] assms(4) by (force simp: rects_pts_iff)
  ultimately show ?thesis using xband_pts [OF band_xband [OF b assms(2)]] assms(4) by auto
qed

lemma rest_skip:
  assumes R: "rest R y r" and ne: "r \<noteq> []" and y': "y \<le> y'" "y' \<le> rbottom (hd r)"
  shows "rest R y' (skip_band y' r)"
proof -
  have b: "banded r" using R by (simp add: rest_def)
  note bx = band_xband [OF b ne]
  have above: "rbottom (hd r) < rbottom s" if "s \<in> set (band_end r)" for s
    using band_end_above [OF b ne that] banded_band_end [OF b] that
    by (auto simp: banded_def is_rect_empty_def)
  show ?thesis
  proof (cases "rbottom (hd r) = y'")
    case True
    have "(x, v) \<in> rects_pts r \<longleftrightarrow> (x, v) \<in> rects_pts (band_end r)" if "y' \<le> v" for x v
      using xband_pts [OF bx] that True rects_pts_append [of "band r" "band_end r"]
      unfolding band_append_band_end by auto
    then show ?thesis using R True above banded_band_end [OF b] y'
      by (simp add: rest_def skip_band_def)
  next
    case False
    have "y' < rbottom s" if "s \<in> set (band r @ band_end r)" for s
      using that above [of s] xbandD [OF bx, of s] False y'(2) by auto
    then show ?thesis using R False y' unfolding band_append_band_end
      by (simp add: rest_def skip_band_def)
  qed
qed

lemma rest_tops: "rest R y r \<Longrightarrow> r \<noteq> [] \<Longrightarrow> y < rbottom (hd r) \<and> rtop (hd r) < rbottom (hd r)"
  using banded_hd [of r] by (cases r) (auto simp: rest_def)

end
