(* ===== verification/Region_Combine.thy ===== *)
theory Region_Combine
  imports Region_Ops
begin

text \<open>
  The contract of the functions passed to \<^const>\<open>region_op\<close>, as a locale, and the correctness of
  \<^const>\<open>region_op\<close> under that contract; the contract is discharged for the intersection, the
  difference and the union of \<^verbatim>\<open>server/region.c\<close>, whose exported operations then compute the
  intersection, difference, union and symmetric difference of point sets.
\<close>

section \<open>The contract of a combination\<close>

text \<open>
  \<open>bop\<close> is the pointwise operation. Rows where only one source has points are copied when its
  \<open>non_overlap\<close> function is given and dropped when it is NULL, so \<open>bop\<close> must agree with that.
\<close>

locale band_op =
  fixes ov :: "(nat \<Rightarrow> bool) \<Rightarrow> overlap_func"
    and non1 non2 :: "((nat \<Rightarrow> bool) \<Rightarrow> non_overlap_func) option"
    and bop :: "bool \<Rightarrow> bool \<Rightarrow> bool"
  assumes overlap: "ov grow reg rs1 rs2 t b = Some reg' \<Longrightarrow> rs1 \<noteq> [] \<Longrightarrow> xsorted rs1 \<Longrightarrow> xsorted rs2
      \<Longrightarrow> \<forall>c \<in> set (rects reg). rtop c \<noteq> t
      \<Longrightarrow> appends t b {x. bop (x \<in> xs_pts rs1) (x \<in> xs_pts rs2)} reg reg'"
    and overlap_total: "\<forall>n. grow n \<Longrightarrow> ov grow reg rs1 rs2 t b \<noteq> None"
    and copies1: "non1 = Some f \<Longrightarrow> f = subtract_non_overlapping"
    and copies2: "non2 = Some f \<Longrightarrow> f = subtract_non_overlapping"
    and bop_rows: "\<not> bop False False" "bop True False \<longleftrightarrow> non1 \<noteq> None" "bop False True \<longleftrightarrow> non2 \<noteq> None"

text \<open>What a \<open>non_overlap\<close> call does for one source: copy its band if \<open>keep\<close> holds, else nothing.\<close>

definition copies :: "(nat \<Rightarrow> bool) \<Rightarrow> non_overlap_func option \<Rightarrow> bool \<Rightarrow> bool" where
  "copies grow f keep \<longleftrightarrow> f = (if keep then Some (subtract_non_overlapping grow) else None)"

lemma decided_non_overlap:
  assumes dec: "decided op reg prev y" and R: "rest R y r" "r \<noteq> []" and f: "copies grow f keep"
    and call: "call_non_overlap f reg (band r) (max (rtop (hd r)) y) (min (rbottom (hd r)) t2) = Some reg1"
    and coal: "coalesce_if_grown reg1 prev (num_rects reg) = (reg2, prev2)"
    and t2: "rtop (hd r) < t2" "y \<le> t2"
    and op: "\<And>x v. y \<le> v \<Longrightarrow> v < t2 \<Longrightarrow> op x v \<longleftrightarrow> keep \<and> (x, v) \<in> rects_pts R"
  shows "decided op reg2 prev2 (min (rbottom (hd r)) t2) \<and> extents reg2 = extents reg"
proof -
  let ?t = "max (rtop (hd r)) y" and ?b = "min (rbottom (hd r)) t2"
  note tops = rest_tops [OF R]
  have row: "op x v \<longleftrightarrow> keep \<and> x \<in> xs_pts (band r) \<and> rtop (hd r) \<le> v" if "y \<le> v" "v < ?b" for x v
    using op [of v x] rest_row [OF R, of v x] that by auto
  show ?thesis
  proof (cases "keep \<and> ?t \<noteq> ?b")
    case True
    have xs: "xsorted (band r)" using R band_xband [of r] xband_xsorted by (auto simp: rest_def)
    have "subtract_non_overlapping grow reg (band r) ?t ?b = Some reg1"
      using True call f by (auto simp: call_non_overlap_def copies_def)
    note app = subtract_non_overlapping_appends [OF this xs]
    have "?t < ?b" using True tops t2 by auto
    moreover have "\<not> op x v" if "y \<le> v" "v < ?t" for x v
    proof -
      have "v < ?b" "v < rtop (hd r)" using that \<open>?t < ?b\<close> by linarith+
      with row [of v x] that show ?thesis by auto
    qed
    moreover have "op x v \<longleftrightarrow> x \<in> xs_pts (band r)" if "?t \<le> v" "v < ?b" for x v
      using row [of v x] that True by auto
    ultimately show ?thesis
      using decided_emit [OF dec app max.cobounded2 _ _ _ coal] by blast
  next
    case False
    then have [simp]: "reg1 = reg"
      using call f by (auto simp: call_non_overlap_def copies_def split: if_splits)
    have [simp]: "reg2 = reg" "prev2 = prev" using coal by auto
    have "y \<le> ?b" using tops t2 by auto
    moreover have "\<not> op x v" if "y \<le> v" "v < ?b" for x v
      using False row [OF that] that tops t2 by auto
    ultimately have "decided op reg prev ?b" by (rule decided_skip [OF dec])
    then show ?thesis by simp
  qed
qed

lemma call_non_overlap_total:
  "\<forall>n. grow n \<Longrightarrow> copies grow f keep \<Longrightarrow> call_non_overlap f reg rs t b \<noteq> None"
  by (auto simp: call_non_overlap_def copies_def subtract_non_overlapping_neq_None [simplified])

section \<open>The trailing loops\<close>

lemma tail_ok:
  "region_op_tail (subtract_non_overlapping grow) reg y rs = Some reg' \<Longrightarrow> banded rs
     \<Longrightarrow> (\<forall>s \<in> set rs. y < rbottom s)
     \<Longrightarrow> \<exists>N. rects reg' = rects reg @ N \<and> banded N \<and> extents reg' = extents reg \<and> (cap reg \<longrightarrow> cap reg') \<and>
       (\<forall>c \<in> set N. y \<le> rtop c \<and> (\<exists>s \<in> set rs. rtop s \<le> rtop c)) \<and>
       rects_pts N = {(x, v). y \<le> v \<and> (x, v) \<in> rects_pts rs}"
proof (induction "subtract_non_overlapping grow" reg y rs arbitrary: reg' rule: region_op_tail.induct)
  case (2 reg y h t)
  let ?r = "h # t" and ?t = "max (rtop h) y"
  from "2.prems"(1) obtain reg1 where
    call: "subtract_non_overlapping grow reg (band ?r) ?t (rbottom h) = Some reg1"
    and rec: "region_op_tail (subtract_non_overlapping grow) reg1 y (band_end ?r) = Some reg'"
    by (auto split: option.splits)
  have bx: "xband (rtop h) (rbottom h) (band ?r)" using band_xband [OF "2.prems"(2)] by simp
  have h: "?t < rbottom h" using "2.prems"(2,3) by (simp add: banded_Cons is_rect_empty_def)
  from subtract_non_overlapping_appends [OF call xband_xsorted [OF bx]] obtain bs where
    bs: "rects reg1 = rects reg @ bs" "xband ?t (rbottom h) bs" "xs_pts bs = xs_pts (band ?r)"
    and frame: "extents reg1 = extents reg" "cap reg \<longrightarrow> cap reg1" by (auto simp: appends_def)
  have "set (band_end ?r) \<subseteq> set ?r" by (auto simp: band_end_def dest: set_dropWhileD)
  with "2.hyps" [OF call rec banded_band_end [OF "2.prems"(2)]] "2.prems"(3) obtain N where
    N: "rects reg' = rects reg1 @ N" "banded N" "extents reg' = extents reg1" "cap reg1 \<longrightarrow> cap reg'"
    "\<forall>c \<in> set N. y \<le> rtop c \<and> (\<exists>s \<in> set (band_end ?r). rtop s \<le> rtop c)"
    "rects_pts N = {(x, v). y \<le> v \<and> (x, v) \<in> rects_pts (band_end ?r)}" by blast
  have above: "rbottom h \<le> rtop c" if "c \<in> set N" for c
    using N(5) that band_end_above [OF "2.prems"(2)] by fastforce
  have "banded (bs @ N)"
    using xband_banded [OF bs(2) h] N(2) above xbandD [OF bs(2)] by (auto simp: banded_append before_def)
  moreover have "\<forall>c \<in> set (bs @ N). y \<le> rtop c \<and> (\<exists>s \<in> set ?r. rtop s \<le> rtop c)"
    using N(5) xbandD [OF bs(2)] above h by force
  moreover have "rects_pts (bs @ N) = {(x, v). y \<le> v \<and> (x, v) \<in> rects_pts (band ?r @ band_end ?r)}"
    using xband_pts [OF bs(2)] xband_pts [OF bx] bs(3) N(6) by auto
  ultimately show ?case using N(1,3,4) bs(1) frame unfolding band_append_band_end
    by (intro exI [of _ "bs @ N"]) simp
qed simp

lemma tail_total:
  "\<forall>n. grow n \<Longrightarrow> region_op_tail (subtract_non_overlapping grow) reg y rs \<noteq> None"
  by (induction "subtract_non_overlapping grow" reg y rs rule: region_op_tail.induct)
    (auto simp: subtract_non_overlapping_neq_None [simplified] split: option.splits)

lemma decided_tail:
  assumes dec: "decided op reg prev y" and N: "rects reg' = rects reg @ N" "banded N" "\<forall>c \<in> set N. y \<le> rtop c"
    and pts: "rects_pts N = {(x, v). y \<le> v \<and> op x v}" and "cap reg'"
    and coal: "fst (coalesce_if_grown reg' prev (num_rects reg)) = reg2"
  shows "banded (rects reg2) \<and> cap reg2 \<and> rects_pts (rects reg2) = {(x, v). op x v}"
proof -
  have B: "banded (rects reg)" "\<forall>r \<in> set (rects reg). rbottom r \<le> y" "last_band (rects reg) prev"
    and Bpts: "rects_pts (rects reg) = {(x, v). v < y \<and> op x v}"
    using dec by (auto simp: decided_def out_ok_def)
  have above: "\<forall>a \<in> set (rects reg). \<forall>c \<in> set N. rbottom a \<le> rtop c" using B(2) N(3) by force
  have ban: "banded (rects reg @ N)" using B(1) N(2) above by (simp add: banded_append before_def)
  have all: "rects_pts (rects reg @ N) = {(x, v). op x v}" using pts Bpts by auto
  show ?thesis
  proof (cases "N = []")
    case True
    then show ?thesis using coal N(1) ban all \<open>cap reg'\<close> by (simp add: coalesce_if_grown_def)
  next
    case False
    then obtain p where "coalesce_region reg' prev (length (rects reg)) = (reg2, p)"
      using coal N(1) by (cases "coalesce_region reg' prev (length (rects reg))") (simp add: coalesce_if_grown_def)
    note c = coalesce_region_ok [OF N(1) False ban B(3) above this]
    show ?thesis using c(1,2,4) \<open>cap reg'\<close> all by simp
  qed
qed

section \<open>The main loop\<close>

context band_op
begin

definition covers :: "rectangle list \<Rightarrow> rectangle list \<Rightarrow> int \<Rightarrow> int \<Rightarrow> bool" where
  "covers R1 R2 x v \<longleftrightarrow> bop ((x, v) \<in> rects_pts R1) ((x, v) \<in> rects_pts R2)"

definition loop_inv ::
    "rectangle list \<Rightarrow> rectangle list \<Rightarrow> region \<Rightarrow> nat \<Rightarrow> int \<Rightarrow> rectangle list \<Rightarrow> rectangle list \<Rightarrow> bool" where
  "loop_inv R1 R2 reg prev y r1 r2 \<longleftrightarrow>
     decided (covers R1 R2) reg prev y \<and> rest R1 y r1 \<and> rest R2 y r2 \<and>
     (r1 \<noteq> [] \<and> r2 \<noteq> [] \<longrightarrow> y \<le> max (rtop (hd r1)) (rtop (hd r2)))"

abbreviation arg :: "(nat \<Rightarrow> bool) \<Rightarrow> ((nat \<Rightarrow> bool) \<Rightarrow> non_overlap_func) option \<Rightarrow> non_overlap_func option" where
  "arg grow f \<equiv> map_option (\<lambda>f. f grow) f"

lemma copies_arg: "copies grow (arg grow non1) (bop True False)" "copies grow (arg grow non2) (bop False True)"
  using bop_rows copies1 copies2 by (auto simp: copies_def)

lemma below_rest: "rest R y r \<Longrightarrow> r \<noteq> [] \<Longrightarrow> y \<le> v \<Longrightarrow> v < rtop (hd r) \<Longrightarrow> (x, v) \<notin> rects_pts R"
  using rest_row [of R y r v x] rest_tops [of R y r] by auto

text \<open>The rows above the overlap of the two bands.\<close>

lemma step_first:
  assumes inv: "loop_inv R1 R2 reg prev y r1 r2" and ne: "r1 \<noteq> []" "r2 \<noteq> []"
    and first: "(if rtop (hd r1) < rtop (hd r2) then
        call_non_overlap (arg grow non1) reg (band r1) (max (rtop (hd r1)) y) (min (rbottom (hd r1)) (rtop (hd r2)))
      else if rtop (hd r2) < rtop (hd r1) then
        call_non_overlap (arg grow non2) reg (band r2) (max (rtop (hd r2)) y) (min (rbottom (hd r2)) (rtop (hd r1)))
      else Some reg) = Some reg1"
    and coal: "coalesce_if_grown reg1 prev (num_rects reg) = (reg2, prev2)"
  shows "decided (covers R1 R2) reg2 prev2
      (min (min (rbottom (hd r1)) (rbottom (hd r2))) (max (rtop (hd r1)) (rtop (hd r2)))) \<and>
    extents reg2 = extents reg"
proof -
  have dec: "decided (covers R1 R2) reg prev y" and R: "rest R1 y r1" "rest R2 y r2"
    and y: "y \<le> max (rtop (hd r1)) (rtop (hd r2))" using inv ne by (auto simp: loop_inv_def)
  note tops = rest_tops [OF R(1) ne(1)] rest_tops [OF R(2) ne(2)]
  consider (less) "rtop (hd r1) < rtop (hd r2)" | (greater) "rtop (hd r2) < rtop (hd r1)"
    | (equal) "rtop (hd r1) = rtop (hd r2)" by linarith
  then show ?thesis
  proof cases
    case less
    have op: "covers R1 R2 x v \<longleftrightarrow> bop True False \<and> (x, v) \<in> rects_pts R1" if "y \<le> v" "v < rtop (hd r2)" for x v
      using below_rest [OF R(2) ne(2) that, of x] bop_rows(1)
      by (cases "(x, v) \<in> rects_pts R1") (simp_all add: covers_def)
    have call: "call_non_overlap (arg grow non1) reg (band r1) (max (rtop (hd r1)) y)
        (min (rbottom (hd r1)) (rtop (hd r2))) = Some reg1" using first less by simp
    have "min (min (rbottom (hd r1)) (rbottom (hd r2))) (max (rtop (hd r1)) (rtop (hd r2)))
        = min (rbottom (hd r1)) (rtop (hd r2))" using less tops by auto
    moreover have "y \<le> rtop (hd r2)" using y less by simp
    ultimately show ?thesis
      using decided_non_overlap [OF dec R(1) ne(1) copies_arg(1) call coal less _ op] by simp
  next
    case greater
    have op: "covers R1 R2 x v \<longleftrightarrow> bop False True \<and> (x, v) \<in> rects_pts R2" if "y \<le> v" "v < rtop (hd r1)" for x v
      using below_rest [OF R(1) ne(1) that, of x] bop_rows(1)
      by (cases "(x, v) \<in> rects_pts R2") (simp_all add: covers_def)
    have call: "call_non_overlap (arg grow non2) reg (band r2) (max (rtop (hd r2)) y)
        (min (rbottom (hd r2)) (rtop (hd r1))) = Some reg1" using first greater by simp
    have "min (min (rbottom (hd r1)) (rbottom (hd r2))) (max (rtop (hd r1)) (rtop (hd r2)))
        = min (rbottom (hd r2)) (rtop (hd r1))" using greater tops by auto
    moreover have "y \<le> rtop (hd r1)" using y greater by simp
    ultimately show ?thesis
      using decided_non_overlap [OF dec R(2) ne(2) copies_arg(2) call coal greater _ op] by simp
  next
    case equal
    have "decided (covers R1 R2) reg prev (rtop (hd r1))"
    proof (rule decided_skip [OF dec])
      show "y \<le> rtop (hd r1)" using y equal by simp
      show "\<not> covers R1 R2 x v" if "y \<le> v" "v < rtop (hd r1)" for x v
        using below_rest [OF R(1) ne(1), of v x] below_rest [OF R(2) ne(2), of v x] that equal bop_rows(1)
        by (simp add: covers_def)
    qed
    moreover have "reg2 = reg" "prev2 = prev" using first coal equal by auto
    moreover have "min (min (rbottom (hd r1)) (rbottom (hd r2))) (max (rtop (hd r1)) (rtop (hd r2)))
        = rtop (hd r1)" using equal tops by auto
    ultimately show ?thesis by simp
  qed
qed

text \<open>The rows where the two bands overlap.\<close>

lemma step_overlap:
  assumes dec: "decided (covers R1 R2) reg prev (min ybot ytop)" and R: "rest R1 y r1" "rest R2 y r2"
    and ne: "r1 \<noteq> []" "r2 \<noteq> []"
    and ybot: "ybot = min (rbottom (hd r1)) (rbottom (hd r2))"
    and ytop: "ytop = max (rtop (hd r1)) (rtop (hd r2))" and y: "y \<le> ytop"
    and call: "(if ybot > ytop then ov grow reg (band r1) (band r2) ytop ybot else Some reg) = Some reg1"
    and coal: "coalesce_if_grown reg1 prev (num_rects reg) = (reg2, prev2)"
  shows "decided (covers R1 R2) reg2 prev2 ybot \<and> extents reg2 = extents reg"
proof (cases "ybot > ytop")
  case True
  have xs: "xsorted (band r1)" "xsorted (band r2)"
    using R ne band_xband xband_xsorted by (auto simp: rest_def)
  have dec': "decided (covers R1 R2) reg prev ytop" using dec True by (simp add: min_def)
  have "\<forall>c \<in> set (rects reg). rtop c \<noteq> ytop"
    using dec' by (force simp: decided_def out_ok_def banded_def is_rect_empty_def)
  then have app: "appends ytop ybot {x. bop (x \<in> xs_pts (band r1)) (x \<in> xs_pts (band r2))} reg reg1"
    using overlap call True band_neq_Nil [OF ne(1)] xs by simp
  have "covers R1 R2 x v \<longleftrightarrow> x \<in> {x. bop (x \<in> xs_pts (band r1)) (x \<in> xs_pts (band r2))}"
    if "ytop \<le> v" "v < ybot" for x v
    using that order_trans [OF y that(1)] ybot ytop rest_row [OF R(1) ne(1), of v x] rest_row [OF R(2) ne(2), of v x]
    by (simp add: covers_def)
  from decided_emit [OF dec' app order_refl True _ this coal] show ?thesis by auto
next
  case False
  then have "reg2 = reg" "prev2 = prev" using call coal by auto
  with False dec show ?thesis by (simp add: min_def)
qed

lemma step_ok:
  assumes inv: "loop_inv R1 R2 reg prev y r1 r2" and ne: "r1 \<noteq> []" "r2 \<noteq> []"
    and step: "region_op_step (ov grow) (arg grow non1) (arg grow non2) reg prev y r1 r2 = Some (reg', prev', y')"
  shows "loop_inv R1 R2 reg' prev' y' (skip_band y' r1) (skip_band y' r2) \<and> extents reg' = extents reg"
proof -
  let ?ytop = "max (rtop (hd r1)) (rtop (hd r2))"
  let ?ybot = "min (rbottom (hd r1)) (rbottom (hd r2))"
  have R: "rest R1 y r1" "rest R2 y r2" and y: "y \<le> ?ytop" using inv ne by (auto simp: loop_inv_def)
  note tops = rest_tops [OF R(1) ne(1)] rest_tops [OF R(2) ne(2)]
  have y': "y' = ?ybot" using region_op_step_ybot [OF step] .
  have top_eq: "(if rtop (hd r1) < rtop (hd r2) then rtop (hd r2) else rtop (hd r1)) = ?ytop" by auto
  from step obtain reg1 reg2 prev2 reg3 where
    first: "(if rtop (hd r1) < rtop (hd r2) then
        call_non_overlap (arg grow non1) reg (band r1) (max (rtop (hd r1)) y) (min (rbottom (hd r1)) (rtop (hd r2)))
      else if rtop (hd r2) < rtop (hd r1) then
        call_non_overlap (arg grow non2) reg (band r2) (max (rtop (hd r2)) y) (min (rbottom (hd r2)) (rtop (hd r1)))
      else Some reg) = Some reg1"
    and coal: "coalesce_if_grown reg1 prev (num_rects reg) = (reg2, prev2)"
    and call: "(if ?ybot > ?ytop then ov grow reg2 (band r1) (band r2) ?ytop ?ybot else Some reg2) = Some reg3"
    and coal3: "coalesce_if_grown reg3 prev2 (num_rects reg2) = (reg', prev')"
    unfolding region_op_step_def Let_def top_eq
    by (simp only: split: option.splits prod.splits) auto
  have d1: "decided (covers R1 R2) reg2 prev2 (min ?ybot ?ytop)" "extents reg2 = extents reg"
    using step_first [OF inv ne first coal] by auto
  have d2: "decided (covers R1 R2) reg' prev' y'" "extents reg' = extents reg2"
    using step_overlap [OF d1(1) R ne refl refl y call coal3] unfolding y' by auto
  have le: "y \<le> y'" "y' \<le> rbottom (hd r1)" "y' \<le> rbottom (hd r2)" using tops y' by auto
  have skip: "rest R1 y' (skip_band y' r1)" "rest R2 y' (skip_band y' r2)"
    using rest_skip [OF R(1) ne(1) le(1,2)] rest_skip [OF R(2) ne(2) le(1,3)] by auto
  have "y' \<le> max (rtop (hd (skip_band y' r1))) (rtop (hd (skip_band y' r2)))"
    if ne': "skip_band y' r1 \<noteq> []" "skip_band y' r2 \<noteq> []"
  proof -
    have up: "y' \<le> rtop (hd (skip_band y' r))" if "banded r" "r \<noteq> []" "rbottom (hd r) = y'" "skip_band y' r \<noteq> []" for r
      using band_end_above [OF that(1,2), of "hd (band_end r)"] that by (simp add: skip_band_def)
    have "rbottom (hd r1) = y' \<or> rbottom (hd r2) = y'" using y' by (simp add: min_def)
    then show ?thesis using up [of r1] up [of r2] R ne ne' by (auto simp: rest_def)
  qed
  then show ?thesis using d1 d2 skip by (simp add: loop_inv_def)
qed

lemma loop_ok:
  "region_op_loop (ov grow) (arg grow non1) (arg grow non2) reg prev y r1 r2 = Some (reg', prev', y', r1', r2')
     \<Longrightarrow> loop_inv R1 R2 reg prev y r1 r2
     \<Longrightarrow> loop_inv R1 R2 reg' prev' y' r1' r2' \<and> extents reg' = extents reg \<and> (r1' = [] \<or> r2' = [])"
proof (induction "ov grow" "arg grow non1" "arg grow non2" reg prev y r1 r2 rule: region_op_loop.induct)
  case (1 reg prev y r1 r2)
  show ?case
  proof (cases "r1 \<noteq> [] \<and> r2 \<noteq> []")
    case True
    with "1.prems"(1) obtain reg1 prev1 y1 where
      step: "region_op_step (ov grow) (arg grow non1) (arg grow non2) reg prev y r1 r2 = Some (reg1, prev1, y1)"
      and rec: "region_op_loop (ov grow) (arg grow non1) (arg grow non2) reg1 prev1 y1
        (skip_band y1 r1) (skip_band y1 r2) = Some (reg', prev', y', r1', r2')"
      by (subst (asm) region_op_loop.simps) (auto split: option.splits)
    have ne: "r1 \<noteq> []" "r2 \<noteq> []" using True by auto
    note ok = step_ok [OF "1.prems"(2) ne step]
    show ?thesis using "1.hyps" [OF True step refl refl rec] ok by simp
  next
    case False
    with "1.prems"(1) have "reg' = reg" "prev' = prev" "y' = y" "r1' = r1" "r2' = r2"
      by (subst (asm) region_op_loop.simps; auto)+
    with False "1.prems"(2) show ?thesis by auto
  qed
qed

lemma step_total:
  assumes grow: "\<forall>n. grow n"
  shows "region_op_step (ov grow) (arg grow non1) (arg grow non2) reg prev y r1 r2 \<noteq> None"
proof -
  have total: "call_non_overlap (arg grow non1) reg rs t b \<noteq> None" "call_non_overlap (arg grow non2) reg rs t b \<noteq> None" for rs t b
    using call_non_overlap_total [OF grow copies_arg(1)] call_non_overlap_total [OF grow copies_arg(2)] .
  define F where F: "F = (if rtop (hd r1) < rtop (hd r2) then
        call_non_overlap (arg grow non1) reg (band r1) (max (rtop (hd r1)) y) (min (rbottom (hd r1)) (rtop (hd r2)))
      else if rtop (hd r2) < rtop (hd r1) then
        call_non_overlap (arg grow non2) reg (band r2) (max (rtop (hd r2)) y) (min (rbottom (hd r2)) (rtop (hd r1)))
      else Some reg)"
  have "F \<noteq> None" unfolding F by (simp add: total del: not_None_eq)
  then obtain reg1 where first: "F = Some reg1" by blast
  obtain reg2 prev2 where coal: "coalesce_if_grown reg1 prev (num_rects reg) = (reg2, prev2)" by force
  show ?thesis
    unfolding region_op_step_def Let_def F [symmetric] first
    by (simp add: coal overlap_total [OF grow] split: option.split prod.split del: not_None_eq)
qed

lemma loop_total:
  assumes grow: "\<forall>n. grow n"
  shows "region_op_loop (ov grow) (arg grow non1) (arg grow non2) reg prev y r1 r2 \<noteq> None"
proof (induction "ov grow" "arg grow non1" "arg grow non2" reg prev y r1 r2 rule: region_op_loop.induct)
  case (1 reg prev y r1 r2)
  then show ?case using step_total [OF grow, of reg prev y r1 r2]
    by (subst region_op_loop.simps) (auto split: option.split simp del: split_paired_Ex)
qed

text \<open>The whole of \<^const>\<open>region_op\<close>.\<close>

lemma call_tail_ok:
  assumes dec: "decided op reg prev y" and R: "rest R y r" and f: "copies grow f keep"
    and op: "\<And>x v. y \<le> v \<Longrightarrow> op x v \<longleftrightarrow> keep \<and> (x, v) \<in> rects_pts R"
    and call: "call_tail f reg y r = Some reg'"
  shows "\<exists>N. rects reg' = rects reg @ N \<and> banded N \<and> (\<forall>c \<in> set N. y \<le> rtop c) \<and>
    rects_pts N = {(x, v). y \<le> v \<and> op x v} \<and> cap reg'"
proof (cases keep)
  case True
  then have "region_op_tail (subtract_non_overlapping grow) reg y r = Some reg'"
    using call f by (simp add: call_tail_def copies_def)
  from tail_ok [OF this] R dec obtain N where
    "rects reg' = rects reg @ N" "banded N" "\<forall>c \<in> set N. y \<le> rtop c" "cap reg'"
    "rects_pts N = {(x, v). y \<le> v \<and> (x, v) \<in> rects_pts r}"
    unfolding rest_def decided_def by blast
  moreover have "{(x, v). y \<le> v \<and> (x, v) \<in> rects_pts r} = {(x, v). y \<le> v \<and> op x v}"
    using True op R by (auto simp: rest_def)
  ultimately show ?thesis by auto
next
  case False
  then have "reg' = reg" using call f by (simp add: call_tail_def copies_def)
  then show ?thesis using False op dec by (intro exI [of _ "[]"]) (auto simp: decided_def)
qed

lemma region_op_result:
  assumes R: "banded (rects reg1)" "banded (rects reg2)" "rects reg1 \<noteq> []"
    and y: "\<forall>r \<in> set (rects reg1) \<union> set (rects reg2). min (rtop (extents reg1)) (rtop (extents reg2)) \<le> rtop r"
    and res: "region_op mem new reg1 reg2 ov non1 non2 = Some reg"
  shows "banded (rects reg) \<and> cap reg \<and> rects_pts (rects reg) = {(x, v). covers (rects reg1) (rects reg2) x v}"
proof -
  let ?op = "covers (rects reg1) (rects reg2)" and ?grow = "grow_ok mem"
  let ?y = "min (rtop (extents reg1)) (rtop (extents reg2))"
  let ?new = "new\<lparr>rgn_size := max (num_rects reg1) (num_rects reg2) * 2, rects := []\<rparr>"
  have y_eq: "(if rtop (extents reg1) < rtop (extents reg2) then rtop (extents reg1) else rtop (extents reg2)) = ?y"
    by auto
  from res obtain reg' prev y' r1 r2 reg'' where
    loop: "region_op_loop (ov ?grow) (arg ?grow non1) (arg ?grow non2) ?new 0 ?y (rects reg1) (rects reg2)
      = Some (reg', prev, y', r1, r2)"
    and tail: "(if r1 \<noteq> [] then call_tail (arg ?grow non1) reg' y' r1
        else if r2 \<noteq> [] then call_tail (arg ?grow non2) reg' y' r2 else Some reg') = Some reg''"
    and reg: "rects reg = rects (fst (coalesce_if_grown reg'' prev (num_rects reg')))"
      "cap (fst (coalesce_if_grown reg'' prev (num_rects reg'))) \<Longrightarrow> cap reg"
    unfolding region_op_def Let_def y_eq
    by (auto split: if_splits option.splits prod.splits simp: cap_def)
  have bot: "\<forall>s \<in> set (rects reg1) \<union> set (rects reg2). ?y < rbottom s"
  proof
    fix s assume s: "s \<in> set (rects reg1) \<union> set (rects reg2)"
    then have "rtop s < rbottom s" using R by (auto simp: banded_def is_rect_empty_def)
    with s y show "?y < rbottom s" by force
  qed
  have "loop_inv (rects reg1) (rects reg2) ?new 0 ?y (rects reg1) (rects reg2)"
  proof -
    have "\<not> ?op x v" if "v < ?y" for x v
    proof -
      have "(x, v) \<notin> rects_pts (rects reg1 @ rects reg2)"
        using that y unfolding rects_pts_iff by (simp only: set_append) force
      then show ?thesis using bop_rows(1) by (simp add: covers_def)
    qed
    then have "decided ?op ?new 0 ?y"
      using R(3) by (auto simp: decided_def out_ok_def last_band_def cap_def less_max_iff_disj)
    then show ?thesis using R y bot by (auto simp: loop_inv_def rest_def hd_in_set le_max_iff_disj)
  qed
  from loop_ok [OF loop this] have inv: "decided ?op reg' prev y'" "rest (rects reg1) y' r1" "rest (rects reg2) y' r2"
    and one: "r1 = [] \<or> r2 = []" by (auto simp: loop_inv_def)
  have op1: "?op x v \<longleftrightarrow> bop True False \<and> (x, v) \<in> rects_pts (rects reg1)" if "r2 = []" "y' \<le> v" for x v
    using that inv(3) bop_rows(1) by (cases "(x, v) \<in> rects_pts (rects reg1)") (auto simp: rest_def covers_def)
  have op2: "?op x v \<longleftrightarrow> bop False True \<and> (x, v) \<in> rects_pts (rects reg2)" if "r1 = []" "y' \<le> v" for x v
    using that inv(2) bop_rows(1) by (cases "(x, v) \<in> rects_pts (rects reg2)") (auto simp: rest_def covers_def)
  have call0: "call_tail f reg' y' [] = Some reg'" for f by (simp add: call_tail_def split: option.split)
  have "\<exists>N. rects reg'' = rects reg' @ N \<and> banded N \<and> (\<forall>c \<in> set N. y' \<le> rtop c) \<and>
      rects_pts N = {(x, v). y' \<le> v \<and> ?op x v} \<and> cap reg''"
  proof (cases "r2 = []")
    case True
    then have "call_tail (arg ?grow non1) reg' y' r1 = Some reg''" using tail call0 by (auto split: if_splits)
    from call_tail_ok [OF inv(1,2) copies_arg(1) op1 [OF True] this] show ?thesis .
  next
    case False
    then have r1: "r1 = []" using one by simp
    then have "call_tail (arg ?grow non2) reg' y' r2 = Some reg''" using tail False by simp
    from call_tail_ok [OF inv(1,3) copies_arg(2) op2 [OF r1] this] show ?thesis .
  qed
  then show ?thesis using decided_tail [OF inv(1) _ _ _ _ _ refl, of reg''] reg by auto
qed

lemma region_op_total:
  assumes "\<forall>n. alloc_ok mem n" and grow: "\<forall>n. grow_ok mem n"
  shows "region_op mem new reg1 reg2 ov non1 non2 \<noteq> None"
proof -
  have "call_tail (arg (grow_ok mem) non1) reg y r \<noteq> None" "call_tail (arg (grow_ok mem) non2) reg y r \<noteq> None" for reg y r
    using tail_total [OF grow] copies_arg [of "grow_ok mem"]
    by (auto simp: call_tail_def copies_def split: if_splits)
  then have tail: "(if r1 \<noteq> [] then call_tail (arg (grow_ok mem) non1) reg y r1
      else if r2 \<noteq> [] then call_tail (arg (grow_ok mem) non2) reg y r2 else Some reg) \<noteq> None" for reg y r1 r2
    by (simp del: not_None_eq)
  obtain reg prev y r1 r2 where loop: "region_op_loop (ov (grow_ok mem)) (arg (grow_ok mem) non1) (arg (grow_ok mem) non2)
      (new\<lparr>rgn_size := max (num_rects reg1) (num_rects reg2) * 2, rects := []\<rparr>) 0
      (if rtop (extents reg1) < rtop (extents reg2) then rtop (extents reg1) else rtop (extents reg2))
      (rects reg1) (rects reg2) = Some (reg, prev, y, r1, r2)"
    using loop_total [OF grow] by (metis (no_types, lifting) not_None_eq prod_cases5)
  obtain reg' where tail': "(if r1 \<noteq> [] then call_tail (arg (grow_ok mem) non1) reg y r1
      else if r2 \<noteq> [] then call_tail (arg (grow_ok mem) non2) reg y r2 else Some reg) = Some reg'"
    using tail [of r1 reg y r2] by blast
  show ?thesis
    unfolding region_op_def Let_def loop option.case prod.case tail' using assms(1) by simp
qed

end

end
