(* ===== verification/Region_Correct.thy ===== *)
theory Region_Correct
  imports Region_Combine
begin

text \<open>
  What the exported operations of \<^verbatim>\<open>server/region.c\<close> promise: well-formed regions (banded rectangles
  within the allocated array, exact extents) are closed under them, and they compute the set
  operations on the points of the regions.
\<close>

section \<open>Extents\<close>

definition is_bbox :: "rectangle \<Rightarrow> (int \<times> int) set \<Rightarrow> bool" where
  "is_bbox e P \<longleftrightarrow>
     (\<forall>x y. (x, y) \<in> P \<longrightarrow> rleft e \<le> x \<and> x < rright e \<and> rtop e \<le> y \<and> y < rbottom e) \<and>
     (\<exists>y. (rleft e, y) \<in> P) \<and> (\<exists>y. (rright e - 1, y) \<in> P) \<and>
     (\<exists>x. (x, rtop e) \<in> P) \<and> (\<exists>x. (x, rbottom e - 1) \<in> P)"

definition region_wf :: "region \<Rightarrow> bool" where
  "region_wf reg \<longleftrightarrow>
     cap reg \<and> banded (rects reg) \<and>
     (if rects reg = [] then extents reg = empty_rect else is_bbox (extents reg) (rects_pts (rects reg)))"

lemma bbox_unique:
  assumes "is_bbox e P" and "is_bbox e' P"
  shows "e = e'"
proof -
  have "rleft e = rleft e' \<and> rright e = rright e'" "rtop e = rtop e' \<and> rbottom e = rbottom e'"
    using assms unfolding is_bbox_def by (smt (verit))+
  then show ?thesis by simp
qed

lemma bbox_Un:
  assumes "is_bbox e1 P1" and "is_bbox e2 P2"
  shows "is_bbox \<lparr>rleft = min (rleft e1) (rleft e2), rtop = min (rtop e1) (rtop e2),
      rright = max (rright e1) (rright e2), rbottom = max (rbottom e1) (rbottom e2)\<rparr> (P1 \<union> P2)"
proof -
  have "\<forall>x y. (x, y) \<in> P1 \<union> P2 \<longrightarrow> min (rleft e1) (rleft e2) \<le> x \<and> x < max (rright e1) (rright e2) \<and>
      min (rtop e1) (rtop e2) \<le> y \<and> y < max (rbottom e1) (rbottom e2)"
    using assms unfolding is_bbox_def by fastforce
  then show ?thesis
    using assms unfolding is_bbox_def by (simp add: min_def max_def) blast
qed

lemma bbox_rect: "\<not> is_rect_empty r \<Longrightarrow> is_bbox r (rect_pts r)"
  by (auto simp: is_bbox_def is_rect_empty_def rect_pts_def point_in_rect_def)

lemma bboxD: "is_bbox e P \<Longrightarrow> (x, y) \<in> P \<Longrightarrow> rleft e \<le> x \<and> x < rright e \<and> rtop e \<le> y \<and> y < rbottom e"
  by (simp add: is_bbox_def)

lemma bbox_disjoint:
  assumes "is_bbox e1 P1" and "is_bbox e2 P2" and "\<not> EXTENTCHECK e1 e2"
  shows "P1 \<inter> P2 = {}"
proof -
  have "(x, y) \<notin> P2" if "(x, y) \<in> P1" for x y
    using bboxD [OF assms(1) that] bboxD [OF assms(2), of x y] assms(3) by (auto simp: EXTENTCHECK_def)
  then show ?thesis by auto
qed

lemma bbox_shift:
  assumes bb: "is_bbox e P" and Q: "\<And>x y. (x, y) \<in> Q \<longleftrightarrow> (x - dx, y - dy) \<in> P"
  shows "is_bbox \<lparr>rleft = rleft e + dx, rtop = rtop e + dy, rright = rright e + dx, rbottom = rbottom e + dy\<rparr> Q"
proof -
  from bb obtain y1 y2 x1 x2 where "(rleft e, y1) \<in> P" "(rright e - 1, y2) \<in> P" "(x1, rtop e) \<in> P" "(x2, rbottom e - 1) \<in> P"
    by (auto simp: is_bbox_def)
  then have "(rleft e + dx, y1 + dy) \<in> Q" "(rright e + dx - 1, y2 + dy) \<in> Q"
    "(x1 + dx, rtop e + dy) \<in> Q" "(x2 + dx, rbottom e + dy - 1) \<in> Q"
    by (simp_all add: Q)
  moreover have "rleft e + dx \<le> x \<and> x < rright e + dx \<and> rtop e + dy \<le> y \<and> y < rbottom e + dy"
    if "(x, y) \<in> Q" for x y using bboxD [OF bb, of "x - dx" "y - dy"] that Q by auto
  ultimately show ?thesis unfolding is_bbox_def by auto
qed

lemma foldl_left:
  "foldl (\<lambda>l q. if rleft q < l then rleft q else l) a rs = fold (\<lambda>q. min (rleft q)) rs a"
  by (induction rs arbitrary: a) (auto simp: min_def)

lemma foldl_right:
  "foldl (\<lambda>m q. if rright q > m then rright q else m) a rs = fold (\<lambda>q. max (rright q)) rs a"
  by (induction rs arbitrary: a) (auto simp: max_def)

lemma fold_min_rleft:
  "fold (\<lambda>q. min (rleft q)) rs a = Min (insert a (rleft ` set rs))"
proof (induction rs arbitrary: a)
  case (Cons r rs)
  have "Min (insert (min (rleft r) a) (rleft ` set rs)) = Min (insert a (insert (rleft r) (rleft ` set rs)))"
    by (cases "rs = []") (simp_all add: min.left_commute min.commute)
  with Cons show ?case by simp
qed simp

lemma fold_max_rright:
  "fold (\<lambda>q. max (rright q)) rs a = Max (insert a (rright ` set rs))"
proof (induction rs arbitrary: a)
  case (Cons r rs)
  have "Max (insert (max (rright r) a) (rright ` set rs)) = Max (insert a (insert (rright r) (rright ` set rs)))"
    by (cases "rs = []") (simp_all add: max.left_commute max.commute)
  with Cons show ?case by simp
qed simp

lemma banded_last: "banded rs \<Longrightarrow> r \<in> set rs \<Longrightarrow> rbottom r \<le> rbottom (last rs)"
proof (cases rs rule: rev_cases)
  case (snoc qs q)
  assume "banded rs" "r \<in> set rs"
  with snoc show ?thesis by (auto simp: banded_append banded_Cons before_def is_rect_empty_def)
qed simp

lemma banded_first: "banded rs \<Longrightarrow> r \<in> set rs \<Longrightarrow> rtop (hd rs) \<le> rtop r"
  by (cases rs) (auto dest: banded_rtop_le)

lemma rects_corner:
  "banded rs \<Longrightarrow> r \<in> set rs \<Longrightarrow> (rleft r, rtop r) \<in> rects_pts rs \<and> (rright r - 1, rbottom r - 1) \<in> rects_pts rs"
  by (force simp: rects_pts_iff banded_def is_rect_empty_def)

lemma set_region_extents_bbox:
  assumes b: "banded (rects reg)" and ne: "rects reg \<noteq> []"
  shows "is_bbox (extents (set_region_extents reg)) (rects_pts (rects reg))"
proof -
  let ?rs = "rects reg" and ?e = "extents (set_region_extents reg)"
  have ext: "rleft ?e = Min (rleft ` set ?rs)" "rright ?e = Max (rright ` set ?rs)"
    "rtop ?e = rtop (hd ?rs)" "rbottom ?e = rbottom (last ?rs)"
  proof -
    obtain r qs where rs: "?rs = r # qs" using ne by (cases ?rs) auto
    have e: "?e = \<lparr>rleft = Min (insert (rleft r) (rleft ` set (r # qs))), rtop = rtop r,
        rright = Max (insert (rright (last (r # qs))) (rright ` set (r # qs))), rbottom = rbottom (last (r # qs))\<rparr>"
      unfolding set_region_extents_def rs list.case foldl_left foldl_right fold_min_rleft fold_max_rright by simp
    have "rleft r \<in> rleft ` set (r # qs)" "rright (last (r # qs)) \<in> rright ` set (r # qs)"
      by (intro imageI last_in_set; simp)+
    then have ins: "insert (rleft r) (rleft ` set ?rs) = rleft ` set ?rs"
      "insert (rright (last ?rs)) (rright ` set ?rs) = rright ` set ?rs"
      unfolding rs by (simp_all only: insert_absorb)
    then show "rleft ?e = Min (rleft ` set ?rs)" "rright ?e = Max (rright ` set ?rs)"
      "rtop ?e = rtop (hd ?rs)" "rbottom ?e = rbottom (last ?rs)"
      unfolding e [folded rs] ins by (simp_all add: rs del: set_simps last.simps)
  qed
  have "rleft ?e \<in> rleft ` set ?rs" "rright ?e \<in> rright ` set ?rs" using ne ext by simp_all
  then have touch: "(\<exists>y. (rleft ?e, y) \<in> rects_pts ?rs)" "(\<exists>y. (rright ?e - 1, y) \<in> rects_pts ?rs)"
    using rects_corner [OF b] by (auto; blast)+
  have "rleft ?e \<le> x \<and> x < rright ?e \<and> rtop ?e \<le> y \<and> y < rbottom ?e" if "(x, y) \<in> rects_pts ?rs" for x y
  proof -
    from that obtain r where r: "r \<in> set ?rs" "rleft r \<le> x" "x < rright r" "rtop r \<le> y" "y < rbottom r"
      by (auto simp: rects_pts_iff)
    then have "rleft ?e \<le> rleft r" "rright r \<le> rright ?e" using ext by simp_all
    then show ?thesis using r(2-5) ext(3,4) banded_first [OF b r(1)] banded_last [OF b r(1)] by linarith
  qed
  then show ?thesis
    using touch rects_corner [OF b hd_in_set [OF ne]] rects_corner [OF b last_in_set [OF ne]] ext
    unfolding is_bbox_def by auto
qed

lemma set_region_extents_frame [simp]:
  "rects (set_region_extents reg) = rects reg" "cap (set_region_extents reg) = cap reg"
  by (auto simp: set_region_extents_def cap_def split: list.split)

lemma set_region_extents_wf: "banded (rects reg) \<Longrightarrow> cap reg \<Longrightarrow> region_wf (set_region_extents reg)"
  using set_region_extents_bbox [of reg]
  by (auto simp: region_wf_def) (simp add: set_region_extents_def)

section \<open>The three combinations meet the contract\<close>

interpretation inter: band_op intersect_overlapping None None "(\<and>)"
proof unfold_locales
  fix grow reg rs1 rs2 t b reg'
  assume "intersect_overlapping grow reg rs1 rs2 t b = Some reg'" "xsorted rs1" "xsorted rs2"
  from intersect_overlapping_appends [OF this]
  show "appends t b {x. x \<in> xs_pts rs1 \<and> x \<in> xs_pts rs2} reg reg'" by (simp add: Int_def)
qed (auto simp: intersect_overlapping_neq_None [simplified])

interpretation diff: band_op subtract_overlapping "Some subtract_non_overlapping" None "\<lambda>a b. a \<and> \<not> b"
proof unfold_locales
  fix grow reg rs1 rs2 t b reg'
  assume "subtract_overlapping grow reg rs1 rs2 t b = Some reg'" "rs1 \<noteq> []" "xsorted rs1" "xsorted rs2"
  from subtract_overlapping_appends [OF this]
  show "appends t b {x. x \<in> xs_pts rs1 \<and> x \<notin> xs_pts rs2} reg reg'" by (simp add: set_diff_eq)
qed (auto simp: subtract_overlapping_neq_None [simplified])

interpretation unio: band_op union_overlapping "Some union_non_overlapping" "Some union_non_overlapping" "(\<or>)"
proof unfold_locales
  fix grow reg rs1 rs2 t b reg'
  assume "union_overlapping grow reg rs1 rs2 t b = Some reg'" "xsorted rs1" "xsorted rs2"
    "\<forall>c \<in> set (rects reg). rtop c \<noteq> t"
  from union_overlapping_appends [OF this]
  show "appends t b {x. x \<in> xs_pts rs1 \<or> x \<in> xs_pts rs2} reg reg'" by (simp add: Un_def)
qed (auto simp: union_overlapping_neq_None [simplified] union_non_overlapping_subtract intro!: ext)

section \<open>The exported operations\<close>

definition mem_ok :: "rgn_mem \<Rightarrow> bool" where
  "mem_ok mem \<longleftrightarrow> (\<forall>n. alloc_ok mem n) \<and> (\<forall>n. grow_ok mem n) \<and> (\<forall>n. copy_ok mem n)"

text \<open>
  \<open>computes mem P res\<close>: an operation returns a well-formed region with the points \<open>P\<close>, and it can
  only fail by running out of memory.
\<close>

definition computes :: "bool \<Rightarrow> (int \<times> int) set \<Rightarrow> region option \<Rightarrow> bool" where
  "computes ok P res \<longleftrightarrow>
     (case res of None \<Rightarrow> \<not> ok | Some reg \<Rightarrow> region_wf reg \<and> rects_pts (rects reg) = P)"

abbreviation points :: "region \<Rightarrow> (int \<times> int) set" where
  "points reg \<equiv> rects_pts (rects reg)"

lemma region_wf_tops:
  assumes "region_wf reg1" "region_wf reg2" and "rects reg1 \<noteq> []" "rects reg2 \<noteq> []"
  shows "\<forall>r \<in> set (rects reg1) \<union> set (rects reg2). min (rtop (extents reg1)) (rtop (extents reg2)) \<le> rtop r"
proof -
  have "rtop (extents reg) \<le> rtop r" if "region_wf reg" "r \<in> set (rects reg)" for reg r
    using that bboxD [of "extents reg" "rects_pts (rects reg)"] rects_corner [of "rects reg" r]
    by (fastforce simp: region_wf_def split: if_splits)
  then show ?thesis using assms by force
qed

lemma region_wf_banded: "region_wf reg \<Longrightarrow> banded (rects reg)"
  by (simp add: region_wf_def)

lemma copy_region_computes:
  assumes "region_wf src" and "cap dst" and "same \<Longrightarrow> dst = src"
  shows "computes (mem_ok mem) (points src) (copy_region mem same dst src)"
  using assms by (auto simp: computes_def copy_region_def mem_ok_def region_wf_def cap_def)

lemma set_extents_computes:
  assumes "\<And>reg. res = Some reg \<Longrightarrow> banded (rects reg) \<and> cap reg \<and> points reg = P" and "ok \<Longrightarrow> res \<noteq> None"
  shows "computes ok P (map_option set_region_extents res)"
  using assms set_region_extents_wf by (cases res) (auto simp: computes_def)

lemma extents_disjoint:
  assumes "region_wf src1" "region_wf src2"
    and "num_rects src1 = 0 \<or> num_rects src2 = 0 \<or> \<not> EXTENTCHECK (extents src1) (extents src2)"
  shows "points src1 \<inter> points src2 = {}"
  using assms bbox_disjoint [of "extents src1" "points src1" "extents src2" "points src2"]
  by (auto simp: region_wf_def split: if_splits)

lemma intersect_region_computes:
  assumes "region_wf src1" "region_wf src2" and "cap dst"
  shows "computes (mem_ok mem) (points src1 \<inter> points src2) (intersect_region mem dst src1 src2)"
proof (cases "num_rects src1 = 0 \<or> num_rects src2 = 0 \<or> \<not> EXTENTCHECK (extents src1) (extents src2)")
  case True
  with extents_disjoint [OF assms(1,2) True] \<open>cap dst\<close> show ?thesis
    by (simp add: intersect_region_def computes_def region_wf_def cap_def)
next
  case False
  let ?res = "region_op mem dst src1 src2 intersect_overlapping None None"
  have ne: "rects src1 \<noteq> []" "rects src2 \<noteq> []" using False by auto
  note res = inter.region_op_result [OF region_wf_banded [OF assms(1)] region_wf_banded [OF assms(2)] ne(1)
      region_wf_tops [OF assms(1,2) ne]]
  have "computes (mem_ok mem) (points src1 \<inter> points src2) (map_option set_region_extents ?res)"
    using res inter.region_op_total
    by (intro set_extents_computes) (auto simp: inter.covers_def mem_ok_def)
  with False show ?thesis by (simp add: intersect_region_def)
qed

lemma subtract_region_computes:
  assumes "region_wf src1" "region_wf src2" and "cap dst" and "dst_is_src1 \<Longrightarrow> dst = src1"
  shows "computes (mem_ok mem) (points src1 - points src2) (subtract_region mem dst_is_src1 dst src1 src2)"
proof (cases "num_rects src1 = 0 \<or> num_rects src2 = 0 \<or> \<not> EXTENTCHECK (extents src1) (extents src2)")
  case True
  with extents_disjoint [OF assms(1,2) True] copy_region_computes [OF assms(1,3,4)] show ?thesis
    by (simp add: subtract_region_def Diff_triv)
next
  case False
  let ?res = "region_op mem dst src1 src2 subtract_overlapping (Some subtract_non_overlapping) None"
  have ne: "rects src1 \<noteq> []" "rects src2 \<noteq> []" using False by auto
  note res = diff.region_op_result [OF region_wf_banded [OF assms(1)] region_wf_banded [OF assms(2)] ne(1)
      region_wf_tops [OF assms(1,2) ne]]
  have "computes (mem_ok mem) (points src1 - points src2) (map_option set_region_extents ?res)"
    using res diff.region_op_total
    by (intro set_extents_computes) (auto simp: diff.covers_def mem_ok_def)
  with False show ?thesis by (simp add: subtract_region_def)
qed

lemma single_rect_extents:
  assumes "region_wf reg" and "num_rects reg = 1"
  shows "points reg = rect_pts (extents reg)"
proof -
  from assms(2) obtain r where r: "rects reg = [r]" by (auto simp: length_Suc_conv)
  with assms(1) have "is_bbox (extents reg) (rect_pts r)" "\<not> is_rect_empty r"
    by (auto simp: region_wf_def banded_def)
  with bbox_unique bbox_rect have "extents reg = r" by blast
  with r show ?thesis by simp
qed

lemma covered_points:
  assumes wf: "region_wf src1" "region_wf src2" and one: "num_rects src1 = 1" and "num_rects src2 \<noteq> 0"
    and "rleft (extents src1) \<le> rleft (extents src2)" "rtop (extents src1) \<le> rtop (extents src2)"
    "rright (extents src1) \<ge> rright (extents src2)" "rbottom (extents src1) \<ge> rbottom (extents src2)"
  shows "points src2 \<subseteq> points src1"
proof -
  have "is_bbox (extents src2) (points src2)" using wf(2) assms(4) by (auto simp: region_wf_def)
  then show ?thesis
    unfolding single_rect_extents [OF wf(1) one] using assms(5-8)
    by (auto simp: rect_pts_def point_in_rect_def dest!: bboxD)
qed

lemma union_op_computes:
  assumes wf: "region_wf src1" "region_wf src2" and ne: "rects src1 \<noteq> []" "rects src2 \<noteq> []"
  shows "computes (mem_ok mem) (points src1 \<union> points src2)
    (map_option (\<lambda>d. d\<lparr>extents :=
        \<lparr>rleft = min (rleft (extents src1)) (rleft (extents src2)),
         rtop = min (rtop (extents src1)) (rtop (extents src2)),
         rright = max (rright (extents src1)) (rright (extents src2)),
         rbottom = max (rbottom (extents src1)) (rbottom (extents src2))\<rparr>\<rparr>)
      (region_op mem dst src1 src2 union_overlapping (Some union_non_overlapping) (Some union_non_overlapping)))"
    (is "computes _ ?P (map_option _ ?res)")
proof (cases ?res)
  case None
  with unio.region_op_total [of mem dst src1 src2] show ?thesis by (auto simp: computes_def mem_ok_def)
next
  case (Some reg)
  from unio.region_op_result [OF region_wf_banded [OF wf(1)] region_wf_banded [OF wf(2)] ne(1)
      region_wf_tops [OF wf ne] Some]
  have reg: "banded (rects reg)" "cap reg" "points reg = ?P" by (auto simp: unio.covers_def)
  have bb: "is_bbox (extents src1) (points src1)" "is_bbox (extents src2) (points src2)"
    using wf ne by (auto simp: region_wf_def)
  moreover have "rects reg \<noteq> []" using reg(3) bb(1) by (auto simp: is_bbox_def)
  ultimately show ?thesis using Some reg bbox_Un [OF bb] by (simp add: computes_def region_wf_def cap_def)
qed

lemma union_region_computes:
  assumes wf: "region_wf src1" "region_wf src2" and "cap dst" and same: "same \<Longrightarrow> src1 = src2"
    and "dst_is_src1 \<Longrightarrow> dst = src1" "dst_is_src2 \<Longrightarrow> dst = src2"
  shows "computes (mem_ok mem) (points src1 \<union> points src2)
    (union_region mem same dst_is_src1 dst_is_src2 dst src1 src2)"
proof -
  note copy1 = copy_region_computes [OF wf(1) assms(3,5)] and copy2 = copy_region_computes [OF wf(2) assms(3,6)]
  show ?thesis
  proof (cases "same \<or> num_rects src1 = 0 \<or> num_rects src2 = 0")
    case True
    then show ?thesis using copy1 copy2 same by (auto simp: union_region_def)
  next
    case False
    then have ne: "num_rects src1 \<noteq> 0" "num_rects src2 \<noteq> 0" by auto
    have eqs: "points src1 \<union> points src2 = points src1" if "points src2 \<subseteq> points src1" using that by blast
    have eqs2: "points src1 \<union> points src2 = points src2" if "points src1 \<subseteq> points src2" using that by blast
    note op = union_op_computes [OF wf, of mem dst]
    show ?thesis
      unfolding union_region_def
      using False copy1 copy2 op covered_points [OF wf _ ne(2)] covered_points [OF wf(2,1) _ ne(1)]
      by (simp add: eqs eqs2)
  qed
qed

lemma xor_region_computes:
  assumes wf: "region_wf src1" "region_wf src2" and "cap dst" and "dst_is_src2 \<Longrightarrow> dst = src2"
  shows "computes (struct_ok \<and> rects_ok \<and> mem_ok mem1 \<and> mem_ok mem2 \<and> mem_ok mem3)
    ((points src1 - points src2) \<union> (points src2 - points src1))
    (xor_region struct_ok rects_ok mem1 mem2 mem3 dst_is_src2 dst src1 src2)"
proof (cases "struct_ok \<and> rects_ok")
  case True
  let ?tmp = "\<lparr>rgn_size = RGN_DEFAULT_RECTS, rects = [], extents = empty_rect\<rparr>"
  have tmp: "create_empty_region struct_ok rects_ok = Some ?tmp" using True by (simp add: create_empty_region_def)
  have c1: "computes (mem_ok mem1) (points src1 - points src2) (subtract_region mem1 False ?tmp src1 src2)"
    by (rule subtract_region_computes [OF wf]) (simp_all add: cap_def)
  have c2: "computes (mem_ok mem2) (points src2 - points src1) (subtract_region mem2 dst_is_src2 dst src2 src1)"
    by (rule subtract_region_computes [OF wf(2,1) assms(3,4)])
  have c3: "computes (mem_ok mem3) (points d \<union> points t) (union_region mem3 False True False d d t)"
    if "region_wf d" "region_wf t" for d t
    by (rule union_region_computes [OF that]) (use that in \<open>auto simp: region_wf_def\<close>)
  show ?thesis
  proof (cases "subtract_region mem1 False ?tmp src1 src2")
    case t: (Some t)
    show ?thesis
    proof (cases "subtract_region mem2 dst_is_src2 dst src2 src1")
      case d: (Some d)
      show ?thesis using c1 c2 c3 [of d t] tmp t d True unfolding xor_region_def computes_def
        by (auto split: option.splits)
    qed (use c2 tmp t in \<open>simp add: xor_region_def computes_def\<close>)
  qed (use c1 tmp in \<open>simp add: xor_region_def computes_def\<close>)
qed (simp add: xor_region_def computes_def create_empty_region_def)

section \<open>Queries, requests and translations\<close>

lemma point_in_rects_iff: "banded rs \<Longrightarrow> point_in_rects rs x y \<longleftrightarrow> (x, y) \<in> rects_pts rs"
proof (induction rs)
  case (Cons r rs)
  have above: "rtop r \<le> rtop s" if "s \<in> set rs" for s using banded_rtop_le [OF Cons.prems that] .
  have beside: "rbottom r \<le> rtop s \<or> rright r < rleft s" if "s \<in> set rs" for s
    using Cons.prems that by (auto simp: banded_Cons before_def)
  have IH: "point_in_rects rs x y \<longleftrightarrow> (x, y) \<in> rects_pts rs" using Cons by (simp add: banded_Cons)
  consider "y < rtop r" | "rtop r \<le> y" "rbottom r \<le> y" | "rtop r \<le> y" "y < rbottom r" "x < rleft r"
    | "rtop r \<le> y" "y < rbottom r" "rleft r \<le> x" "rright r \<le> x"
    | "rtop r \<le> y" "y < rbottom r" "rleft r \<le> x" "x < rright r" by linarith
  then show ?case
  proof cases
    case 1
    then show ?thesis using above by (force simp: rects_pts_iff rect_pts_def point_in_rect_def)
  next
    case 3
    have "rleft r < rright r" using Cons.prems by (simp add: banded_Cons is_rect_empty_def)
    with 3 beside show ?thesis by (force simp: rects_pts_iff rect_pts_def point_in_rect_def)
  qed (use IH in \<open>auto simp: rect_pts_def point_in_rect_def\<close>)
qed simp

lemma rect_in_rects_iff:
  "banded rs \<Longrightarrow> \<not> is_rect_empty q \<Longrightarrow> rect_in_rects rs q \<longleftrightarrow> rects_pts rs \<inter> rect_pts q \<noteq> {}"
proof (induction rs)
  case (Cons r rs)
  have r: "rleft r < rright r" "rtop r < rbottom r" "rleft q < rright q" "rtop q < rbottom q"
    using Cons.prems by (auto simp: banded_Cons is_rect_empty_def)
  have meet: "rect_pts r \<inter> rect_pts q \<noteq> {} \<longleftrightarrow>
      rtop r < rbottom q \<and> rtop q < rbottom r \<and> rleft r < rright q \<and> rleft q < rright r"
    using intersect_rect_nonempty [of r q] r by (auto simp: intersect_rect_def Let_def is_rect_empty_def)
  show ?case
  proof (cases "rtop r \<ge> rbottom q")
    case True
    have "rtop r \<le> rtop s" if "s \<in> set rs" for s using banded_rtop_le [OF Cons.prems(1) that] .
    then have "rects_pts rs \<inter> rect_pts q = {}"
      using True by (force simp: rects_pts_def rect_pts_def point_in_rect_def)
    with True meet show ?thesis by (auto simp: Int_Un_distrib2)
  next
    case False
    then show ?thesis using Cons.IH Cons.prems meet by (auto simp: banded_Cons Int_Un_distrib2)
  qed
qed simp

lemma offset_rect_pts:
  assumes "in_s32 (rleft r + dx)" "in_s32 (rright r + dx)" "in_s32 (rtop r + dy)" "in_s32 (rbottom r + dy)"
  shows "(x, y) \<in> rect_pts (offset_rect r dx dy) \<longleftrightarrow> (x - dx, y - dy) \<in> rect_pts r"
  using assms by (auto simp: offset_rect_def rect_pts_def point_in_rect_def)

lemma offset_rect_before:
  assumes "\<forall>q \<in> {r, s}. in_s32 (rleft q + dx) \<and> in_s32 (rright q + dx) \<and> in_s32 (rtop q + dy) \<and> in_s32 (rbottom q + dy)"
  shows "before (offset_rect r dx dy) (offset_rect s dx dy) = before r s"
    and "is_rect_empty (offset_rect r dx dy) = is_rect_empty r"
  using assms by (auto simp: before_def offset_rect_def is_rect_empty_def)

lemma banded_offset:
  "\<forall>q \<in> set rs. in_s32 (rleft q + dx) \<and> in_s32 (rright q + dx) \<and> in_s32 (rtop q + dy) \<and> in_s32 (rbottom q + dy)
     \<Longrightarrow> banded (map (\<lambda>r. offset_rect r dx dy) rs) = banded rs"
  by (induction rs) (auto simp: banded_Cons offset_rect_before)

section \<open>Properties\<close>

text \<open>Two concrete regions and a memory that never runs out, for the instances below.\<close>

definition ex_mem :: rgn_mem where
  "ex_mem = \<lparr>alloc_ok = \<lambda>_. True, grow_ok = \<lambda>_. True, shrink_ok = \<lambda>_. True, copy_ok = \<lambda>_. True\<rparr>"

definition ex_rect :: "int \<Rightarrow> int \<Rightarrow> int \<Rightarrow> int \<Rightarrow> rectangle" where
  "ex_rect l t r b = \<lparr>rleft = l, rtop = t, rright = r, rbottom = b\<rparr>"

definition ex_region :: "rectangle list \<Rightarrow> region" where
  "ex_region rs = set_region_extents \<lparr>rgn_size = 2, rects = rs, extents = empty_rect\<rparr>"

definition ex_reg1 :: region where
  "ex_reg1 = ex_region [ex_rect 0 0 10 10, ex_rect 20 0 30 10]"

definition ex_reg2 :: region where
  "ex_reg2 = ex_region [ex_rect 5 5 25 15, ex_rect 0 15 8 20]"

lemma ex_mem_ok: "mem_ok ex_mem"
  by (simp add: mem_ok_def ex_mem_def)

lemma ex_regions_wf: "region_wf ex_reg1" "region_wf ex_reg2" "cap ex_reg1" "cap ex_reg2"
proof -
  show wf: "region_wf ex_reg1" "region_wf ex_reg2"
    unfolding ex_reg1_def ex_reg2_def ex_region_def
    by (rule set_region_extents_wf; simp add: banded_Cons before_def is_rect_empty_def ex_rect_def cap_def)+
  then show "cap ex_reg1" "cap ex_reg2" by (simp_all add: region_wf_def)
qed

text \<open>
  C7. \<^verbatim>\<open>intersect_region\<close>: for well-formed sources the result is a well-formed region (banded
  rectangles within the allocated array, exact extents) that covers exactly the common points, and
  the operation fails only when memory runs out.
\<close>

theorem intersect_region_correct:
  assumes "region_wf src1" and "region_wf src2" and "cap dst"
  shows "computes (mem_ok mem) (points src1 \<inter> points src2) (intersect_region mem dst src1 src2)"
  using assms by (rule intersect_region_computes)

theorem intersect_region_correct_witness:
  "computes (mem_ok ex_mem) (points ex_reg1 \<inter> points ex_reg2) (intersect_region ex_mem ex_reg1 ex_reg1 ex_reg2) \<and>
   intersect_region ex_mem ex_reg1 ex_reg1 ex_reg2 \<noteq> None"
  using intersect_region_correct [OF ex_regions_wf(1,2,3), of ex_mem] ex_mem_ok
  by (auto simp: computes_def split: option.splits)

text \<open>
  C8. \<^verbatim>\<open>subtract_region\<close>: for well-formed sources the result is a well-formed region that covers
  exactly the points of the first source that are not in the second, also when the destination is
  the first source itself; the operation fails only when memory runs out.
\<close>

theorem subtract_region_correct:
  assumes "region_wf src1" and "region_wf src2" and "cap dst" and "dst_is_src1 \<Longrightarrow> dst = src1"
  shows "computes (mem_ok mem) (points src1 - points src2) (subtract_region mem dst_is_src1 dst src1 src2)"
  using assms by (rule subtract_region_computes)

theorem subtract_region_correct_witness:
  "computes (mem_ok ex_mem) (points ex_reg1 - points ex_reg2)
     (subtract_region ex_mem True ex_reg1 ex_reg1 ex_reg2) \<and>
   subtract_region ex_mem True ex_reg1 ex_reg1 ex_reg2 \<noteq> None"
  using subtract_region_correct [OF ex_regions_wf(1,2,3), of True ex_mem] ex_mem_ok
  by (auto simp: computes_def split: option.splits)

text \<open>
  C9. \<^verbatim>\<open>union_region\<close>: for well-formed sources the result is a well-formed region that covers exactly
  the points of either source, with the aliasing the callers use (the two sources or a source and
  the destination the same object); the operation fails only when memory runs out.
\<close>

theorem union_region_correct:
  assumes "region_wf src1" and "region_wf src2" and "cap dst" and "same \<Longrightarrow> src1 = src2"
    and "dst_is_src1 \<Longrightarrow> dst = src1" and "dst_is_src2 \<Longrightarrow> dst = src2"
  shows "computes (mem_ok mem) (points src1 \<union> points src2)
    (union_region mem same dst_is_src1 dst_is_src2 dst src1 src2)"
  using assms by (rule union_region_computes)

theorem union_region_correct_witness:
  "computes (mem_ok ex_mem) (points ex_reg1 \<union> points ex_reg2)
     (union_region ex_mem False False True ex_reg2 ex_reg1 ex_reg2) \<and>
   union_region ex_mem False False True ex_reg2 ex_reg1 ex_reg2 \<noteq> None"
  using union_region_correct [OF ex_regions_wf(1,2,4), of False False True ex_mem] ex_mem_ok
  by (auto simp: computes_def split: option.splits)

text \<open>
  C10. \<^verbatim>\<open>xor_region\<close>: for well-formed sources the result is a well-formed region that covers exactly
  the points that are in one source and not in the other; the operation fails only when one of its
  allocations does.
\<close>

theorem xor_region_correct:
  assumes "region_wf src1" and "region_wf src2" and "cap dst" and "dst_is_src2 \<Longrightarrow> dst = src2"
  shows "computes (struct_ok \<and> rects_ok \<and> mem_ok mem1 \<and> mem_ok mem2 \<and> mem_ok mem3)
    ((points src1 - points src2) \<union> (points src2 - points src1))
    (xor_region struct_ok rects_ok mem1 mem2 mem3 dst_is_src2 dst src1 src2)"
  using assms by (rule xor_region_computes)

theorem xor_region_correct_witness:
  "computes True ((points ex_reg1 - points ex_reg2) \<union> (points ex_reg2 - points ex_reg1))
     (xor_region True True ex_mem ex_mem ex_mem True ex_reg2 ex_reg1 ex_reg2)"
  using xor_region_correct [OF ex_regions_wf(1,2,4), of True True True ex_mem ex_mem ex_mem] ex_mem_ok
  by simp

text \<open>
  C20. \<^verbatim>\<open>point_in_region\<close> and \<^verbatim>\<open>rect_in_region\<close>, which stop early thanks to the band order, decide
  membership of a point and overlap with a nonempty rectangle exactly.
\<close>

theorem region_queries_correct:
  assumes "region_wf reg" and "\<not> is_rect_empty q"
  shows "(point_in_region reg x y \<longleftrightarrow> (x, y) \<in> points reg) \<and>
    (rect_in_region reg q \<longleftrightarrow> points reg \<inter> rect_pts q \<noteq> {})"
  using assms point_in_rects_iff rect_in_rects_iff
  by (simp add: region_wf_def point_in_region_def rect_in_region_def)

theorem region_queries_correct_witness:
  "(point_in_region ex_reg1 25 3 \<longleftrightarrow> (25, 3) \<in> points ex_reg1) \<and>
   (rect_in_region ex_reg1 (ex_rect 9 9 20 12) \<longleftrightarrow> points ex_reg1 \<inter> rect_pts (ex_rect 9 9 20 12) \<noteq> {})"
proof -
  have "\<not> is_rect_empty (ex_rect 9 9 20 12)" by (simp add: ex_rect_def is_rect_empty_def)
  from region_queries_correct [OF ex_regions_wf(1) this] show ?thesis by blast
qed



text \<open>
  C22. \<^verbatim>\<open>create_region_from_req_data\<close> accepts exactly the lists of nonempty rectangles in band order
  (a single all-zero rectangle standing for the empty list), and makes a well-formed region of what
  it accepts; every other list of a client is refused with STATUS_INVALID_PARAMETER.
\<close>

theorem create_region_from_req_data_safe:
  "case create_region_from_req_data True True data of
     Inl err \<Rightarrow> err = STATUS_INVALID_PARAMETER \<and> \<not> banded data \<and> data \<noteq> [empty_rect]
   | Inr reg \<Rightarrow> region_wf reg \<and> points reg = rects_pts data \<and> (banded data \<or> data = [empty_rect])"
proof -
  have "rects_pts [empty_rect] = {}"
    by (auto simp: rects_pts_def rect_pts_def point_in_rect_def empty_rect_def)
  then show ?thesis
    by (auto simp: create_region_from_req_data_def validate_rectangles_iff cap_def
        intro!: set_region_extents_wf split: sum.split)
qed

text \<open>
  C23. \<^verbatim>\<open>offset_region\<close> translates a region: while no coordinate leaves the range of a C \<^verbatim>\<open>int\<close>, the
  result is well-formed and a point is in it exactly if the shifted-back point was in the region.
\<close>

theorem offset_region_correct:
  assumes wf: "region_wf reg"
    and range: "\<forall>q \<in> insert (extents reg) (set (rects reg)). in_s32 (rleft q + dx) \<and> in_s32 (rright q + dx) \<and>
      in_s32 (rtop q + dy) \<and> in_s32 (rbottom q + dy)"
  shows "region_wf (offset_region reg dx dy) \<and>
    ((x, y) \<in> points (offset_region reg dx dy) \<longleftrightarrow> (x - dx, y - dy) \<in> points reg)"
proof -
  have pts: "(x, y) \<in> points (offset_region reg dx dy) \<longleftrightarrow> (x - dx, y - dy) \<in> points reg" for x y
    using range offset_rect_pts by (auto simp: offset_region_def rects_pts_def)
  have "region_wf (offset_region reg dx dy)"
  proof (cases "rects reg = []")
    case False
    then have bb: "is_bbox (extents reg) (points reg)" using wf by (simp add: region_wf_def)
    have ext: "extents (offset_region reg dx dy) = \<lparr>rleft = rleft (extents reg) + dx, rtop = rtop (extents reg) + dy,
        rright = rright (extents reg) + dx, rbottom = rbottom (extents reg) + dy\<rparr>"
      using False range by (simp add: offset_region_def offset_rect_def)
    have "is_bbox (extents (offset_region reg dx dy)) (points (offset_region reg dx dy))"
      unfolding ext by (rule bbox_shift [OF bb pts])
    moreover have "banded (rects (offset_region reg dx dy))"
      using False range wf banded_offset [of "rects reg" dx dy] by (simp add: offset_region_def region_wf_def)
    ultimately show ?thesis using False wf by (simp add: region_wf_def offset_region_def cap_def)
  qed (use wf in \<open>simp add: offset_region_def\<close>)
  with pts show ?thesis by blast
qed

theorem offset_region_correct_witness:
  "region_wf (offset_region ex_reg1 3 (- 5)) \<and>
   ((23, 0) \<in> points (offset_region ex_reg1 3 (- 5)) \<longleftrightarrow> (23 - 3, 0 - (- 5)) \<in> points ex_reg1)"
  by (rule offset_region_correct [OF ex_regions_wf(1)])
    (simp add: ex_reg1_def ex_region_def ex_rect_def set_region_extents_def in_s32_def)

text \<open>
  \<^verbatim>\<open>mirror_region\<close> loses rectangles: in a band of two rectangles the exchange saves the last one
  twice, so the mirrored band holds the mirror image of the second rectangle twice and none of the
  first, and for nonempty rectangles it is no longer in band order.
\<close>

theorem mirror_region_two_rect_band:
  assumes "rects reg = [a, b]" and "rtop a = rtop b"
  shows "rects (mirror_region client reg) = [mirror_rect client b, mirror_rect client b] \<and>
    \<not> banded (rects (mirror_region client reg))"
proof -
  have last: "mirror_band_last [a, b] 0 = 1"
    using assms(2) by (simp add: mirror_band_last.simps)
  have "mirror_band client [a, b] 0 1 = [mirror_rect client b, mirror_rect client b]"
    by (simp add: mirror_band.simps [of client "[a, b]"] Let_def) (simp add: mirror_band.simps)
  then have "mirror_loop client [a, b] 0 = [mirror_rect client b, mirror_rect client b]"
    using last by (simp add: mirror_loop.simps [of client "[a, b]"] Let_def)
      (simp add: mirror_loop.simps)
  then show ?thesis
    using assms(1) by (auto simp: mirror_region_def banded_Cons before_def is_rect_empty_def)
qed

theorem mirror_region_two_rect_band_witness:
  "rects (mirror_region (ex_rect 0 0 100 50) ex_reg1) = [ex_rect 70 0 80 10, ex_rect 70 0 80 10] \<and>
   \<not> banded (rects (mirror_region (ex_rect 0 0 100 50) ex_reg1))"
proof -
  have "rects ex_reg1 = [ex_rect 0 0 10 10, ex_rect 20 0 30 10]"
    by (simp add: ex_reg1_def ex_region_def)
  moreover have "rtop (ex_rect 0 0 10 10) = rtop (ex_rect 20 0 30 10)" by (simp add: ex_rect_def)
  moreover have "mirror_rect (ex_rect 0 0 100 50) (ex_rect 20 0 30 10) = ex_rect 70 0 80 10"
    by (simp add: ex_rect_def mirror_rect_def s32_def)
  ultimately show ?thesis using mirror_region_two_rect_band [of ex_reg1] by metis
qed

text \<open>
  \<^verbatim>\<open>scale_dpi\<close> with equal resolutions changes the sign of negative coordinates: the product of an
  \<^verbatim>\<open>int\<close> and an \<^verbatim>\<open>unsigned int\<close> is unsigned in C, so the quotient is the one of a large positive number.
\<close>

theorem scale_dpi_negative:
  assumes "val < 0" and "2 \<le> dpi" and "- val * dpi + dpi div 2 \<le> 2 ^ 32"
  shows "0 \<le> scale_dpi val dpi dpi"
proof -
  let ?p = "val * dpi - dpi div 2"
  have "u32_of (u32_of val * dpi - dpi div 2) = ?p mod 2 ^ 32"
    unfolding u32_of_def by (metis mod_diff_left_eq mod_mult_left_eq)
  also have "\<dots> = ?p + 2 ^ 32"
  proof -
    have "val * dpi < 0" using assms by (simp add: mult_neg_pos)
    moreover have "0 \<le> dpi div 2" using assms by simp
    ultimately have "0 \<le> ?p + 2 ^ 32" "?p + 2 ^ 32 < 2 ^ 32" using assms(3) by linarith+
    then have "(?p + 2 ^ 32) mod 2 ^ 32 = ?p + 2 ^ 32" by (rule mod_pos_pos_trivial)
    then show ?thesis by simp
  qed
  finally have q: "u32_of (u32_of val * dpi - dpi div 2) div dpi = (?p + 2 ^ 32) div dpi" by simp
  have "0 \<le> ?p + 2 ^ 32" using assms(3) by linarith
  then have "0 \<le> (?p + 2 ^ 32) div dpi" using assms(2) by (simp add: pos_imp_zdiv_nonneg_iff)
  moreover have "(?p + 2 ^ 32) div dpi < 2 ^ 31"
  proof -
    have "?p + 2 ^ 32 < 2 ^ 31 * dpi"
    proof -
      have "val * dpi < 0" "0 \<le> dpi div 2" using assms by (simp_all add: mult_neg_pos)
      with assms(2) show ?thesis by simp
    qed
    moreover have "(?p + 2 ^ 32) div dpi * dpi \<le> ?p + 2 ^ 32"
      using assms(2) pos_mod_sign [of dpi "?p + 2 ^ 32"] div_mult_mod_eq [of "?p + 2 ^ 32" dpi] by linarith
    ultimately have "(?p + 2 ^ 32) div dpi * dpi < 2 ^ 31 * dpi" by linarith
    then show ?thesis using assms(2) by (simp only: mult_less_cancel_right)
  qed
  ultimately show ?thesis using assms(1) q by (simp add: scale_dpi_def in_s32_def)
qed

theorem scale_dpi_negative_witness: "0 \<le> scale_dpi (- 96) 96 96 \<and> scale_dpi (- 96) 96 96 = 44739146"
  using scale_dpi_negative [of "- 96" 96] by (simp add: scale_dpi_def u32_of_def s32_def)

end
