(* ===== verification/Unicode_Strings.thy ===== *)
theory Unicode_Strings
  imports Wine_Prelude
begin

text \<open>
  The string helpers of \<^verbatim>\<open>server/unicode.c\<close>: case folding, comparison, hashing, and the escaped
  text form in which strings are written to and read from registry files. A \<^verbatim>\<open>WCHAR\<close> is a 16-bit
  word, a \<^verbatim>\<open>char\<close> an 8-bit word. The case table is loaded from a data file, so it is a parameter.
\<close>

type_synonym wchar = u16

section \<open>Case folding, comparison and hashing\<close>

definition to_lower :: "(nat \<Rightarrow> u16) \<Rightarrow> wchar \<Rightarrow> wchar" where
  "to_lower casemap ch =
     ch + casemap (unat (casemap (unat (casemap (unat (drop_bit 8 ch))) + unat (drop_bit 4 ch AND 0x0f)))
                   + unat (ch AND 0x0f))"

text \<open>The difference of the first two characters that differ after folding, as a C \<^verbatim>\<open>int\<close>.\<close>

fun memicmp_strW :: "(nat \<Rightarrow> u16) \<Rightarrow> wchar list \<Rightarrow> wchar list \<Rightarrow> nat \<Rightarrow> int" where
  "memicmp_strW casemap (a # str1) (b # str2) (Suc len) =
     (let ret = uint (to_lower casemap a) - uint (to_lower casemap b)
      in if ret \<noteq> 0 then ret else memicmp_strW casemap str1 str2 len)"
| "memicmp_strW casemap str1 str2 len = 0"

definition hash_strW :: "(nat \<Rightarrow> u16) \<Rightarrow> wchar list \<Rightarrow> u32 \<Rightarrow> u32" where
  "hash_strW casemap str hash_size =
     foldl (\<lambda>hash ch. hash * 65599 + ucast (to_lower casemap ch)) 0 str mod hash_size"

definition ascii_to_unicode_str :: "bool \<Rightarrow> u8 list \<Rightarrow> wchar list option" where
  "ascii_to_unicode_str mem_ok str = (if mem_ok then Some (map ucast str) else None)"

section \<open>Parsing an escaped string\<close>

abbreviation (input) chr :: "char \<Rightarrow> u8" where
  "chr c \<equiv> of_char c"

text \<open>\<^verbatim>\<open>*p\<close> in a NUL-terminated string: past the last character there is the terminator.\<close>

definition cur :: "u8 list \<Rightarrow> u8" where
  "cur p = (case p of [] \<Rightarrow> 0 | c # _ \<Rightarrow> c)"

definition isdigit :: "u8 \<Rightarrow> bool" where
  "isdigit c \<longleftrightarrow> 0x30 \<le> c \<and> c \<le> 0x39"

definition isxdigit :: "u8 \<Rightarrow> bool" where
  "isxdigit c \<longleftrightarrow> isdigit c \<or> 0x41 \<le> c \<and> c \<le> 0x46 \<or> 0x61 \<le> c \<and> c \<le> 0x66"

definition tolower :: "u8 \<Rightarrow> u8" where
  "tolower c = (if 0x41 \<le> c \<and> c \<le> 0x5a then c + 0x20 else c)"

definition to_hex :: "u8 \<Rightarrow> u8" where
  "to_hex ch = (if isdigit ch then ch - 0x30 else tolower ch - 0x61 + 10)"

definition isoctal :: "u8 \<Rightarrow> bool" where
  "isoctal c \<longleftrightarrow> 0x30 \<le> c \<and> c \<le> 0x37"

text \<open>The C escapes of one letter: \<open>a b e f n r t v\<close>.\<close>

definition letter_escape :: "u8 \<Rightarrow> wchar option" where
  "letter_escape c =
     (if c = 0x61 then Some 7 else if c = 0x62 then Some 8 else if c = 0x65 then Some 27
      else if c = 0x66 then Some 12 else if c = 0x6e then Some 10 else if c = 0x72 then Some 13
      else if c = 0x74 then Some 9 else if c = 0x76 then Some 11 else None)"

text \<open>\<^verbatim>\<open>if (isxdigit(*p)) *dest = (*dest * 16) + to_hex(*p++)\<close>, and the octal one.\<close>

definition hex_more :: "wchar \<times> u8 list \<Rightarrow> wchar \<times> u8 list" where
  "hex_more dp = (case dp of (d, p) \<Rightarrow>
     if isxdigit (cur p) then (d * 16 + ucast (to_hex (cur p)), tl p) else (d, p))"

definition octal_more :: "wchar \<times> u8 list \<Rightarrow> wchar \<times> u8 list" where
  "octal_more dp = (case dp of (d, p) \<Rightarrow>
     if isoctal (cur p) then (d * 8 + ucast (cur p - 0x30), tl p) else (d, p))"

definition hex_escape :: "u8 list \<Rightarrow> wchar \<times> u8 list" where
  "hex_escape p =
     (if \<not> isxdigit (cur p) then (0x78, p)
      else hex_more (hex_more (hex_more (ucast (to_hex (cur p)), tl p))))"

definition octal_escape :: "u8 list \<Rightarrow> wchar \<times> u8 list" where
  "octal_escape p = octal_more (octal_more (ucast (cur p - 0x30), tl p))"

definition utf8_length :: "u8 \<Rightarrow> nat" where
  "utf8_length ch =
     (if 0xc2 \<le> ch \<and> ch \<le> 0xdf then 1 else if 0xe0 \<le> ch \<and> ch \<le> 0xef then 2
      else if 0xf0 \<le> ch \<and> ch \<le> 0xf4 then 3 else 0)"

definition utf8_mask :: "nat \<Rightarrow> u8" where
  "utf8_mask n = [0x7f, 0x1f, 0x0f, 0x07] ! n"

definition utf8_minval :: "nat \<Rightarrow> u32" where
  "utf8_minval n = [0x0, 0x80, 0x800, 0x10000] ! n"

text \<open>
  The fall-through cases of the switch on \<^verbatim>\<open>charlen\<close>: read that many continuation bytes; a byte that
  is none ends the character, and the bytes read so far are skipped.
\<close>

fun utf8_tail :: "nat \<Rightarrow> u32 \<Rightarrow> u8 list \<Rightarrow> u32 option \<times> u8 list" where
  "utf8_tail 0 res p = (Some res, p)"
| "utf8_tail (Suc n) res p =
     (let ch = cur p XOR 0x80
      in if ch \<ge> 0x40 then (None, p) else utf8_tail n (push_bit 6 res OR ucast ch) (tl p))"

text \<open>The characters stored for a decoded value; the second surrogate only if there is room.\<close>

definition store_utf16 :: "nat \<Rightarrow> wchar list \<Rightarrow> u32 \<Rightarrow> wchar list" where
  "store_utf16 cap dest res =
     (if res \<le> 0xffff then dest @ [ucast res]
      else let r = res - 0x10000; dest1 = dest @ [0xd800 OR ucast (drop_bit 10 r)]
           in if length dest1 < cap then dest1 @ [0xdc00 OR ucast (r AND 0x3ff)] else dest1)"

definition utf8_char :: "nat \<Rightarrow> wchar list \<Rightarrow> u8 \<Rightarrow> u8 list \<Rightarrow> wchar list \<times> u8 list" where
  "utf8_char cap dest ch p =
     (let charlen = utf8_length ch
      in if charlen = 0 then (dest, p)
         else case utf8_tail charlen (ucast (ch AND utf8_mask charlen)) p of
                (None, p') \<Rightarrow> (dest, p')
              | (Some res, p') \<Rightarrow>
                  if res < utf8_minval charlen then (dest, p')
                  else if res > 0x10ffff then (dest, p')
                  else (store_utf16 cap dest res, p'))"

definition normal_char :: "nat \<Rightarrow> wchar list \<Rightarrow> u8 list \<Rightarrow> wchar list \<times> u8 list" where
  "normal_char cap dest p =
     (let ch = cur p
      in if ch < 0x80 then (dest @ [ucast ch], tl p) else utf8_char cap dest ch (tl p))"

text \<open>
  One pass of the main loop; the flag says that the loop is left because the string ends after a
  backslash.
\<close>

definition parse_step :: "nat \<Rightarrow> wchar list \<Rightarrow> u8 list \<Rightarrow> bool \<times> wchar list \<times> u8 list" where
  "parse_step cap dest p =
     (if cur p = 0x5c then
        let q = tl p
        in if cur q = 0 then (True, dest, q)
           else case letter_escape (cur q) of
                  Some w \<Rightarrow> (False, dest @ [w], tl q)
                | None \<Rightarrow>
                    if cur q = 0x78 then let (w, r) = hex_escape (tl q) in (False, dest @ [w], r)
                    else if isoctal (cur q) then let (w, r) = octal_escape q in (False, dest @ [w], r)
                    else (False, normal_char cap dest q)
      else (False, normal_char cap dest p))"

lemma length_hex_more: "length (snd (hex_more dp)) \<le> length (snd dp)"
  by (auto simp: hex_more_def split: prod.splits)

lemma length_octal_more: "length (snd (octal_more dp)) \<le> length (snd dp)"
  by (auto simp: octal_more_def split: prod.splits)

lemma length_hex_escape: "length (snd (hex_escape p)) \<le> length p"
  unfolding hex_escape_def
  by (auto intro!: order_trans [OF length_hex_more])

lemma length_octal_escape: "length (snd (octal_escape p)) \<le> length p - 1"
  unfolding octal_escape_def
  by (auto intro!: order_trans [OF length_octal_more])

lemma length_utf8_tail: "length (snd (utf8_tail n res p)) \<le> length p"
proof (induction n res p rule: utf8_tail.induct)
  case (2 n res p)
  show ?case
  proof (cases "cur p XOR 0x80 \<ge> 0x40")
    case False
    from "2.IH" [OF refl this] have "length (snd (utf8_tail (Suc n) res p)) \<le> length p - 1"
      using False by (simp add: Let_def)
    then show ?thesis by simp
  qed simp
qed simp

lemma length_utf8_char: "length (snd (utf8_char cap dest ch p)) \<le> length p"
  using length_utf8_tail [of "utf8_length ch" "ucast (ch AND utf8_mask (utf8_length ch))" p]
  by (auto simp: utf8_char_def Let_def split: prod.splits option.splits)

lemma length_normal_char: "length (snd (normal_char cap dest p)) \<le> length p - 1"
  using length_utf8_char [of cap dest "cur p" "tl p"] by (simp add: normal_char_def Let_def)

lemma cur_neq_0: "cur p \<noteq> 0 \<Longrightarrow> p \<noteq> []"
  by (auto simp: cur_def)

lemma length_parse_step: "cur p \<noteq> 0 \<Longrightarrow> length (snd (snd (parse_step cap dest p))) < length p"
  using length_hex_escape [of "tl (tl p)"] length_octal_escape [of "tl p"]
    length_normal_char [of cap dest p] length_normal_char [of cap dest "tl p"] cur_neq_0 [of p]
  by (cases p) (auto simp: parse_step_def Let_def split: option.split prod.split)

lemma parse_step_less:
  "parse_step cap dest p = (stop, dest', p') \<Longrightarrow> cur p \<noteq> 0 \<Longrightarrow> length p' < length p"
  using length_parse_step [of p cap dest] by simp

function parse_loop :: "nat \<Rightarrow> u8 \<Rightarrow> wchar list \<Rightarrow> u8 list \<Rightarrow> wchar list \<times> u8 list" where
  "parse_loop cap endchar dest p =
     (if cur p \<noteq> 0 \<and> cur p \<noteq> endchar \<and> length dest < cap then
        case parse_step cap dest p of
          (stop, dest', p') \<Rightarrow> if stop then (dest', p') else parse_loop cap endchar dest' p'
      else (dest, p))"
  by pat_completeness auto
termination
  by (relation "measure (\<lambda>(_, _, _, p). length p)") (auto dest: parse_step_less [OF sym])

declare parse_loop.simps [simp del]

text \<open>
  The result is the terminated string and the number of characters read, or \<open>None\<close> for the return
  value -1; \<open>cap\<close> is the number of characters the buffer holds.
\<close>

definition parse_strW :: "nat \<Rightarrow> u8 list \<Rightarrow> u8 \<Rightarrow> (wchar list \<times> nat) option" where
  "parse_strW cap src endchar =
     (case parse_loop cap endchar [] src of (dest, p) \<Rightarrow>
        if length dest \<ge> cap then None
        else if cur p = 0 then None
        else Some (dest @ [0], length src - length p + 1))"

section \<open>Writing an escaped string\<close>

definition hex_digit :: "nat \<Rightarrow> u8" where
  "hex_digit d = (if d < 10 then 0x30 + of_nat d else 0x61 + of_nat (d - 10))"

definition hex4 :: "wchar \<Rightarrow> nat list" where
  "hex4 w = [unat w div 4096, unat w div 256 mod 16, unat w div 16 mod 16, unat w mod 16]"

definition oct3 :: "wchar \<Rightarrow> nat list" where
  "oct3 w = [unat w div 64, unat w div 8 mod 8, unat w mod 8]"

text \<open>The conversions \<open>%04x\<close>, \<open>%x\<close>, \<open>%03o\<close> and \<open>%o\<close> (the last for values below 512).\<close>

definition fmt_04x :: "wchar \<Rightarrow> u8 list" where
  "fmt_04x w = map hex_digit (hex4 w)"

definition fmt_x :: "wchar \<Rightarrow> u8 list" where
  "fmt_x w = map hex_digit (case dropWhile ((=) 0) (hex4 w) of [] \<Rightarrow> [0] | ds \<Rightarrow> ds)"

definition fmt_03o :: "wchar \<Rightarrow> u8 list" where
  "fmt_03o w = map hex_digit (oct3 w)"

definition fmt_o :: "wchar \<Rightarrow> u8 list" where
  "fmt_o w = map hex_digit (case dropWhile ((=) 0) (oct3 w) of [] \<Rightarrow> [0] | ds \<Rightarrow> ds)"

text \<open>The table \<^verbatim>\<open>escapes\<close>: 46 is the dot that marks an octal escape.\<close>

definition escapes :: "u8 list" where
  "escapes = replicate 7 46 @ [0x61, 0x62, 0x74, 0x6e, 0x76, 0x66, 0x72] @ replicate 13 46 @ [0x65] @ replicate 4 46"

definition dump_char :: "u8 \<times> u8 \<Rightarrow> wchar \<Rightarrow> wchar list \<Rightarrow> u8 list" where
  "dump_char esc c rest =
     (if c > 127 then
        if rest \<noteq> [] \<and> hd rest < 128 \<and> isxdigit (ucast (hd rest)) then [0x5c, 0x78] @ fmt_04x c
        else [0x5c, 0x78] @ fmt_x c
      else if c < 32 then
        if escapes ! unat c \<noteq> 46 then [0x5c, escapes ! unat c]
        else if rest \<noteq> [] \<and> hd rest \<ge> 0x30 \<and> hd rest \<le> 0x37 then [0x5c] @ fmt_03o c
        else [0x5c] @ fmt_o c
      else if c = 0x5c \<or> c = ucast (fst esc) \<or> c = ucast (snd esc) then [0x5c, ucast c]
      else [ucast c])"

text \<open>
  The output goes through a buffer of 256 bytes that is written out when more than 248 bytes are in
  use; the state is what was written to the file and what is in the buffer.
\<close>

fun dump_loop :: "u8 \<times> u8 \<Rightarrow> wchar list \<Rightarrow> u8 list \<Rightarrow> u8 list \<Rightarrow> u8 list \<times> u8 list" where
  "dump_loop esc [] written buffer = (written, buffer)"
| "dump_loop esc (c # str) written buffer =
     (let (written', buffer') = (if length buffer > 256 - 8 then (written @ buffer, []) else (written, buffer))
      in dump_loop esc str written' (buffer' @ dump_char esc c str))"

definition dump_strW :: "wchar list \<Rightarrow> u8 \<times> u8 \<Rightarrow> u8 list" where
  "dump_strW str esc = (case dump_loop esc str [] [] of (written, buffer) \<Rightarrow> written @ buffer)"

section \<open>Comparison and hashing agree\<close>

abbreviation folded :: "(nat \<Rightarrow> u16) \<Rightarrow> wchar list \<Rightarrow> wchar list" where
  "folded casemap s \<equiv> map (to_lower casemap) s"

lemma memicmp_strW_eq_0:
  "length s1 = length s2 \<Longrightarrow> memicmp_strW casemap s1 s2 (length s1) = 0 \<longleftrightarrow> folded casemap s1 = folded casemap s2"
  by (induction s1 s2 rule: list_induct2) (auto simp: Let_def word_uint_eq_iff)

lemma hash_strW_folded:
  assumes "folded casemap s1 = folded casemap s2"
  shows "hash_strW casemap s1 n = hash_strW casemap s2 n"
proof -
  have "foldl (\<lambda>hash ch. hash * 65599 + ucast (to_lower casemap ch)) h s
      = foldl (\<lambda>hash ch. hash * 65599 + ucast ch) h (folded casemap s)" for h :: u32 and s
    by (induction s arbitrary: h) auto
  with assms show ?thesis by (simp add: hash_strW_def)
qed

lemma hash_strW_less: "n \<noteq> 0 \<Longrightarrow> hash_strW casemap s n < n"
  by (simp add: hash_strW_def word_mod_less_divisor word_gt_0)

section \<open>The output buffer\<close>

lemma length_dump_char: "length (dump_char esc c rest) \<le> 6"
proof -
  have le: "length (dropWhile P xs) \<le> length xs" for P and xs :: "nat list" by (rule length_dropWhile_le)
  have "length (fmt_04x c) = 4" "length (fmt_x c) \<le> 4" "length (fmt_03o c) = 3" "length (fmt_o c) \<le> 3"
    using le [of "(=) 0" "hex4 c"] le [of "(=) 0" "oct3 c"]
    by (auto simp: fmt_04x_def fmt_x_def fmt_03o_def fmt_o_def hex4_def oct3_def split: list.split)
  then show ?thesis by (auto simp: dump_char_def)
qed

text \<open>The characters a string is written as, without the buffering.\<close>

fun dump_chars :: "u8 \<times> u8 \<Rightarrow> wchar list \<Rightarrow> u8 list" where
  "dump_chars esc [] = []"
| "dump_chars esc (c # str) = dump_char esc c str @ dump_chars esc str"

lemma dump_loop_Cons:
  "dump_loop esc (c # str) w b = (if length b > 248 then dump_loop esc str (w @ b) (dump_char esc c str)
     else dump_loop esc str w (b @ dump_char esc c str))"
  by simp

lemma dump_loop_chars:
  "fst (dump_loop esc str w b) @ snd (dump_loop esc str w b) = w @ b @ dump_chars esc str"
proof (induction str arbitrary: w b)
  case (Cons c str)
  show ?case unfolding dump_loop_Cons using Cons.IH by (simp del: dump_loop.simps)
qed simp

lemma dump_strW_chars: "dump_strW str esc = dump_chars esc str"
  using dump_loop_chars [of esc str "[]" "[]"] by (simp add: dump_strW_def split_beta)

lemma dump_loop_buffer: "length b \<le> 254 \<Longrightarrow> length (snd (dump_loop esc str w b)) \<le> 254"
proof (induction str arbitrary: w b)
  case (Cons c str)
  have len: "length (dump_char esc c str) \<le> 6" by (rule length_dump_char)
  show ?case
  proof (cases "length b > 248")
    case True
    with len Cons.IH [of "dump_char esc c str" "w @ b"] show ?thesis unfolding dump_loop_Cons by simp
  next
    case False
    with len Cons.IH [of "b @ dump_char esc c str" w] show ?thesis unfolding dump_loop_Cons by simp
  qed
qed simp

end
