(* ===== verification/Unicode_Roundtrip.thy ===== *)
theory Unicode_Roundtrip
  imports Unicode_Strings
begin

text \<open>
  What \<^const>\<open>dump_strW\<close> writes, \<^const>\<open>parse_strW\<close> reads back: the round trip that registry files rely
  on. The lemmas follow the escapes: digit strings, then one character with its lookahead, then the
  loop.
\<close>

section \<open>Digits\<close>

lemma hex_digit_props:
  assumes "k < 16"
  shows "isxdigit (hex_digit k)" and "ucast (to_hex (hex_digit k)) = (of_nat k :: wchar)"
proof -
  have "\<forall>k \<in> set [0..<16]. isxdigit (hex_digit k) \<and> ucast (to_hex (hex_digit k)) = (of_nat k :: wchar)"
    by code_simp
  then show "isxdigit (hex_digit k)" "ucast (to_hex (hex_digit k)) = (of_nat k :: wchar)" using assms by auto
qed

lemma oct_digit_props:
  assumes "k < 8"
  shows "isoctal (hex_digit k)" and "ucast (hex_digit k - 0x30) = (of_nat k :: wchar)"
    and "letter_escape (hex_digit k) = None" and "hex_digit k \<noteq> 0x78" and "hex_digit k \<noteq> 0"
proof -
  have "\<forall>k \<in> set [0..<8]. isoctal (hex_digit k) \<and> ucast (hex_digit k - 0x30) = (of_nat k :: wchar) \<and>
      letter_escape (hex_digit k) = None \<and> hex_digit k \<noteq> 0x78 \<and> hex_digit k \<noteq> 0"
    by code_simp
  then show "isoctal (hex_digit k)" "ucast (hex_digit k - 0x30) = (of_nat k :: wchar)"
    "letter_escape (hex_digit k) = None" "hex_digit k \<noteq> 0x78" "hex_digit k \<noteq> 0" using assms by auto
qed

lemma cur_simps [simp]: "cur [] = 0" "cur (c # p) = c"
  by (simp_all add: cur_def)

lemma hex_more_digit: "k < 16 \<Longrightarrow> hex_more (d, hex_digit k # p) = (d * 16 + of_nat k, p)"
  by (simp add: hex_more_def hex_digit_props)

lemma hex_more_stop: "\<not> isxdigit (cur p) \<Longrightarrow> hex_more (d, p) = (d, p)"
  by (simp add: hex_more_def)

lemma octal_more_digit: "k < 8 \<Longrightarrow> octal_more (d, hex_digit k # p) = (d * 8 + of_nat k, p)"
  by (simp add: octal_more_def oct_digit_props)

lemma octal_more_stop: "\<not> isoctal (cur p) \<Longrightarrow> octal_more (d, p) = (d, p)"
  by (simp add: octal_more_def)

definition digits_val :: "nat \<Rightarrow> nat list \<Rightarrow> nat" where
  "digits_val b ds = foldl (\<lambda>a d. a * b + d) 0 ds"

lemma hex_escape_digits:
  assumes "\<forall>d \<in> set ds. d < 16" and "1 \<le> length ds" and "length ds \<le> 4"
    and "length ds = 4 \<or> \<not> isxdigit (cur p)"
  shows "hex_escape (map hex_digit ds @ p) = (of_nat (digits_val 16 ds), p)"
proof -
  consider a where "ds = [a]" | a b where "ds = [a, b]" | a b c where "ds = [a, b, c]"
    | a b c d where "ds = [a, b, c, d]"
    using assms(2,3) by (auto simp: Suc_le_length_iff le_Suc_eq numeral_eq_Suc length_Suc_conv)
  then show ?thesis
    using assms(1,4)
    by cases (auto simp: hex_escape_def hex_digit_props hex_more_digit hex_more_stop digits_val_def algebra_simps)
qed

lemma octal_escape_digits:
  assumes "\<forall>d \<in> set ds. d < 8" and "1 \<le> length ds" and "length ds \<le> 3"
    and "length ds = 3 \<or> \<not> isoctal (cur p)"
  shows "octal_escape (map hex_digit ds @ p) = (of_nat (digits_val 8 ds), p)"
proof -
  consider a where "ds = [a]" | a b where "ds = [a, b]" | a b c where "ds = [a, b, c]"
    using assms(2,3) by (auto simp: Suc_le_length_iff le_Suc_eq numeral_eq_Suc length_Suc_conv)
  then show ?thesis
    using assms(1,4)
    by cases (auto simp: octal_escape_def oct_digit_props octal_more_digit octal_more_stop digits_val_def algebra_simps)
qed

text \<open>Dropping leading zeros keeps the value.\<close>

definition strip_zeros :: "nat list \<Rightarrow> nat list" where
  "strip_zeros ds = (case dropWhile ((=) 0) ds of [] \<Rightarrow> [0] | ds \<Rightarrow> ds)"

lemma digits_val_dropWhile: "digits_val b (dropWhile ((=) 0) ds) = digits_val b ds"
  by (induction ds) (auto simp: digits_val_def)

lemma strip_zeros_props:
  assumes "ds \<noteq> []"
  shows "digits_val b (strip_zeros ds) = digits_val b ds" and "1 \<le> length (strip_zeros ds)"
    and "length (strip_zeros ds) \<le> length ds" and "set (strip_zeros ds) \<subseteq> insert 0 (set ds)"
proof -
  have val: "digits_val b (strip_zeros ds) = digits_val b (dropWhile ((=) 0) ds)"
    by (cases "dropWhile ((=) 0) ds") (simp_all add: strip_zeros_def digits_val_def del: dropWhile_eq_Nil_conv)
  then show "digits_val b (strip_zeros ds) = digits_val b ds" by (simp add: digits_val_dropWhile)
  show "1 \<le> length (strip_zeros ds)" by (simp add: strip_zeros_def split: list.split)
  show "length (strip_zeros ds) \<le> length ds"
    using assms length_dropWhile_le [of "(=) 0" ds] by (cases ds) (auto simp: strip_zeros_def split: list.split)
  show "set (strip_zeros ds) \<subseteq> insert 0 (set ds)"
    using set_dropWhileD [of _ "(=) 0" ds] by (auto simp: strip_zeros_def split: list.splits)
qed

lemma hex4_props: "digits_val 16 (hex4 w) = unat w" "\<forall>d \<in> set (hex4 w). d < 16" "length (hex4 w) = 4"
proof -
  have lt: "unat w < 65536" using unsigned_less [of w] by simp
  have "n div 4096 = n div 256 div 16" "n div 256 = n div 16 div 16" for n :: nat
    by (simp_all flip: div_mult2_eq)
  then have "((n div 4096 * 16 + n div 256 mod 16) * 16 + n div 16 mod 16) * 16 + n mod 16 = n" for n :: nat
    by (simp only: div_mult_mod_eq)
  then show "digits_val 16 (hex4 w) = unat w" by (simp add: hex4_def digits_val_def)
  have "unat w div 4096 < 16" using lt by (simp add: less_mult_imp_div_less)
  then show "\<forall>d \<in> set (hex4 w). d < 16" by (simp add: hex4_def)
qed (simp add: hex4_def)

lemma oct3_props:
  assumes "w < 32"
  shows "digits_val 8 (oct3 w) = unat w" "\<forall>d \<in> set (oct3 w). d < 8" "length (oct3 w) = 3"
proof -
  have lt: "unat w < 32" using assms by (simp add: word_less_nat_alt)
  have "n div 64 = n div 8 div 8" for n :: nat by (simp flip: div_mult2_eq)
  then have "(n div 64 * 8 + n div 8 mod 8) * 8 + n mod 8 = n" for n :: nat
    by (simp only: div_mult_mod_eq)
  then show "digits_val 8 (oct3 w) = unat w" by (simp add: oct3_def digits_val_def)
  show "\<forall>d \<in> set (oct3 w). d < 8" using lt by (simp add: oct3_def)
qed (simp add: oct3_def)

lemma fmt_digits:
  "fmt_04x w = map hex_digit (hex4 w)" "fmt_x w = map hex_digit (strip_zeros (hex4 w))"
  "fmt_03o w = map hex_digit (oct3 w)" "fmt_o w = map hex_digit (strip_zeros (oct3 w))"
  by (simp_all add: fmt_04x_def fmt_x_def fmt_03o_def fmt_o_def strip_zeros_def)

lemma hex_escape_fmt:
  "hex_escape (fmt_04x w @ p) = (w, p)"
  "\<not> isxdigit (cur p) \<Longrightarrow> hex_escape (fmt_x w @ p) = (w, p)"
proof -
  note z = strip_zeros_props [of "hex4 w"] and h = hex4_props [of w]
  have ne: "hex4 w \<noteq> []" by (simp add: hex4_def)
  show "hex_escape (fmt_04x w @ p) = (w, p)"
    unfolding fmt_digits using hex_escape_digits [of "hex4 w" p] h by simp
  show "hex_escape (fmt_x w @ p) = (w, p)" if "\<not> isxdigit (cur p)"
    unfolding fmt_digits using hex_escape_digits [of "strip_zeros (hex4 w)" p] z [OF ne] h that by fastforce
qed

lemma octal_escape_fmt:
  assumes "w < 32"
  shows "octal_escape (fmt_03o w @ p) = (w, p)" and "\<not> isoctal (cur p) \<Longrightarrow> octal_escape (fmt_o w @ p) = (w, p)"
proof -
  note z = strip_zeros_props [of "oct3 w"] and h = oct3_props [OF assms]
  have ne: "oct3 w \<noteq> []" by (simp add: oct3_def)
  show "octal_escape (fmt_03o w @ p) = (w, p)"
    unfolding fmt_digits using octal_escape_digits [of "oct3 w" p] h by simp
  show "octal_escape (fmt_o w @ p) = (w, p)" if "\<not> isoctal (cur p)"
    unfolding fmt_digits using octal_escape_digits [of "strip_zeros (oct3 w)" p] z [OF ne] h that by fastforce
qed

section \<open>One character\<close>

text \<open>
  The delimiters the callers use (quotes and brackets) are plain: printable, and neither a
  backslash nor a letter or digit that would continue an escape.
\<close>

definition plain :: "u8 \<Rightarrow> bool" where
  "plain c \<longleftrightarrow> 0x20 \<le> c \<and> c < 0x80 \<and> c \<noteq> 0x5c \<and> letter_escape c = None \<and> c \<noteq> 0x78 \<and> \<not> isxdigit c"

definition delimiters :: "u8 \<times> u8 \<Rightarrow> u8 \<Rightarrow> bool" where
  "delimiters esc e \<longleftrightarrow> plain (fst esc) \<and> plain (snd esc) \<and> (e = fst esc \<or> e = snd esc)"

lemma not_isoctal: "\<not> isxdigit c \<Longrightarrow> \<not> isoctal c"
  by (auto simp: isxdigit_def isdigit_def isoctal_def word_le_nat_alt)

lemma unat_ucast_u8: "unat (ucast (c :: wchar) :: u8) = unat c mod 256"
  by (simp add: unsigned_ucast_eq unsigned_take_bit_eq take_bit_eq_mod unat_mod)

lemma unat_ucast_u16: "unat (ucast (c :: u8) :: wchar) = unat c"
proof -
  have "unat c < 2 ^ LENGTH(8)" by (rule unsigned_less)
  then show ?thesis by (simp add: unsigned_ucast_eq take_bit_nat_eq_self)
qed

lemma ucast_u8_u16 [simp]: "ucast (ucast b :: wchar) = (b :: u8)"
proof -
  have "unat b < 2 ^ LENGTH(8)" by (rule unsigned_less)
  then show ?thesis by (simp add: word_unat_eq_iff unat_ucast_u8 unat_ucast_u16)
qed

lemma ucast_ascii: "c < 128 \<Longrightarrow> ucast (ucast c :: u8) = (c :: wchar)"
  by (simp add: word_unat_eq_iff word_less_nat_alt unat_ucast_u8 unat_ucast_u16)

text \<open>The first byte of what follows is a digit only if the next character is one.\<close>

lemma cur_dump_chars:
  "cur (dump_chars esc s @ e # rest) \<in>
     (case s of [] \<Rightarrow> {e} | c # _ \<Rightarrow> if c \<le> 127 then {0x5c, ucast c} else {0x5c})"
  by (cases s) (auto simp: dump_char_def)

lemma cur_dump_isxdigit:
  assumes "delimiters esc e" and "isxdigit (cur (dump_chars esc s @ e # rest))"
  shows "s \<noteq> [] \<and> hd s < 128 \<and> isxdigit (ucast (hd s))"
proof -
  have "\<not> isxdigit 0x5c" by code_simp
  with assms cur_dump_chars [of esc s e rest] show ?thesis
    by (cases s) (auto simp: delimiters_def plain_def word_le_nat_alt word_less_nat_alt split: if_splits)
qed

lemma isoctal_ucast: "isoctal (ucast c) \<Longrightarrow> c \<le> 127 \<Longrightarrow> 0x30 \<le> c \<and> c \<le> (0x37 :: wchar)"
  by (simp add: isoctal_def word_le_nat_alt unat_ucast_u8)

lemma cur_dump_isoctal:
  assumes "delimiters esc e" and "isoctal (cur (dump_chars esc s @ e # rest))"
  shows "s \<noteq> [] \<and> 0x30 \<le> hd s \<and> hd s \<le> 0x37"
proof -
  have "\<not> isoctal 0x5c" by code_simp
  with assms cur_dump_chars [of esc s e rest] not_isoctal [of e] show ?thesis
    by (cases s) (auto simp: delimiters_def plain_def dest: isoctal_ucast split: if_splits)
qed

lemma escapes_letters:
  assumes "c < 32" and "escapes ! unat c \<noteq> 46"
  shows "letter_escape (escapes ! unat c) = Some c" and "escapes ! unat c \<noteq> 0"
proof -
  have "\<forall>n \<in> set [0..<32]. escapes ! n \<noteq> 46 \<longrightarrow> letter_escape (escapes ! n) = Some (of_nat n) \<and> escapes ! n \<noteq> 0"
    by code_simp
  moreover have "unat c < 32" using assms(1) by (simp add: word_less_nat_alt)
  ultimately show "letter_escape (escapes ! unat c) = Some c" "escapes ! unat c \<noteq> 0" using assms(2) by auto
qed

lemma normal_char_ascii:
  "c < 128 \<Longrightarrow> normal_char cap dest (ucast c # p) = (dest @ [c :: wchar], p)"
  using ucast_ascii [of c]
  by (simp add: normal_char_def word_less_nat_alt unat_ucast_u8)

lemma parse_step_octal:
  assumes "octal_escape q = (c, p)" and "q = map hex_digit ds @ r" and "ds \<noteq> []" and "\<forall>d \<in> set ds. d < 8"
  shows "parse_step cap dest (0x5c # q) = (False, dest @ [c], p)"
proof -
  from assms(2-4) have "cur q = hex_digit (hd ds)" "hd ds < 8" by (cases ds; simp)+
  with assms(1) oct_digit_props [of "hd ds"] show ?thesis by (simp add: parse_step_def)
qed

lemma parse_step_dump:
  assumes del: "delimiters esc e" and p: "p = dump_chars esc s @ e # rest"
  shows "parse_step cap dest (dump_char esc c s @ p) = (False, dest @ [c], p)"
proof -
  have x: "\<not> (s \<noteq> [] \<and> hd s < 128 \<and> isxdigit (ucast (hd s))) \<Longrightarrow> \<not> isxdigit (cur p)"
    using cur_dump_isxdigit [OF del] p by blast
  have o: "\<not> (s \<noteq> [] \<and> 0x30 \<le> hd s \<and> hd s \<le> 0x37) \<Longrightarrow> \<not> isoctal (cur p)"
    using cur_dump_isoctal [OF del] p by blast
  have lx: "letter_escape 0x78 = None" by code_simp
  consider (hex) "c > 127" | (letter) "c < 32" "escapes ! unat c \<noteq> 46" | (octal) "c < 32" "escapes ! unat c = 46"
    | (esc) "32 \<le> c" "c \<le> 127" "c = 0x5c \<or> c = ucast (fst esc) \<or> c = ucast (snd esc)"
    | (plain) "32 \<le> c" "c \<le> 127" "\<not> (c = 0x5c \<or> c = ucast (fst esc) \<or> c = ucast (snd esc))"
    by force
  then show ?thesis
  proof cases
    case hex
    then show ?thesis using x hex_escape_fmt(1) [of c p] hex_escape_fmt(2) [of p c] lx
      by (auto simp: dump_char_def parse_step_def)
  next
    case letter
    then show ?thesis using escapes_letters [OF letter]
      by (auto simp: dump_char_def parse_step_def word_less_nat_alt)
  next
    case octal
    have d: "dump_char esc c s = 0x5c # (if s \<noteq> [] \<and> hd s \<ge> 0x30 \<and> hd s \<le> 0x37 then fmt_03o c else fmt_o c)"
      using octal by (auto simp: dump_char_def word_less_nat_alt)
    note f = octal_escape_fmt [OF octal(1), of p] and props = oct3_props [OF octal(1)]
    have ne: "oct3 c \<noteq> []" by (simp add: oct3_def)
    note z = strip_zeros_props [OF ne]
    have z': "\<forall>d \<in> set (strip_zeros (oct3 c)). d < 8" using z(4) props(2) by (metis insertE subsetD zero_less_numeral)
    have z'': "strip_zeros (oct3 c) \<noteq> []" using z(2) by auto
    show ?thesis
    proof (cases "s \<noteq> [] \<and> hd s \<ge> 0x30 \<and> hd s \<le> 0x37")
      case True
      from parse_step_octal [OF f(1) _ ne props(2), of p cap dest] True d show ?thesis by (simp add: fmt_digits)
    next
      case False
      from parse_step_octal [OF f(2) [OF o [OF False]] _ z'' z', of p cap dest] False d show ?thesis
        by (auto simp: fmt_digits)
    qed
  next
    case esc
    have c: "c < 128" using esc(2) by (simp add: word_le_nat_alt word_less_nat_alt)
    have "letter_escape 0x5c = None \<and> \<not> isoctal 0x5c" by code_simp
    with ucast_u8_u16 have "letter_escape (ucast c) = None" "\<not> isoctal (ucast c)" "ucast c \<noteq> (0x78 :: u8)" "ucast c \<noteq> (0 :: u8)"
      using esc(3) del not_isoctal by (auto simp: delimiters_def plain_def)
    then show ?thesis using esc c normal_char_ascii [OF c, of cap dest p]
      by (auto simp: dump_char_def parse_step_def word_le_nat_alt word_less_nat_alt)
  next
    case plain
    have c: "c < 128" using plain(2) by (simp add: word_le_nat_alt word_less_nat_alt)
    have "ucast c \<noteq> (0x5c :: u8)" using plain(3) ucast_ascii [OF c] by fastforce
    then show ?thesis using plain c normal_char_ascii [OF c, of cap dest p]
      by (auto simp: dump_char_def parse_step_def word_le_nat_alt word_less_nat_alt)
  qed
qed

lemma cur_dump_char:
  assumes "delimiters esc e"
  shows "cur (dump_char esc c s @ p) \<noteq> 0 \<and> cur (dump_char esc c s @ p) \<noteq> e"
proof -
  have e: "e \<noteq> 0x5c" using assms by (auto simp: delimiters_def plain_def)
  have "ucast c \<noteq> (0 :: u8)" if "32 \<le> c" "c \<le> 127"
    using that by (simp add: word_unat_eq_iff unat_ucast_u8 word_le_nat_alt)
  moreover have "ucast c \<noteq> e" if "c \<noteq> ucast (fst esc)" "c \<noteq> ucast (snd esc)" "c \<le> 127"
    using that assms ucast_ascii [of c] by (auto simp: delimiters_def word_le_nat_alt word_less_nat_alt)
  ultimately show ?thesis using e by (auto simp: dump_char_def not_less)
qed

section \<open>The whole string\<close>

lemma parse_loop_dump:
  assumes del: "delimiters esc e"
  shows "length dest + length s \<le> cap
    \<Longrightarrow> parse_loop cap e dest (dump_chars esc s @ e # rest) = (dest @ s, e # rest)"
proof (induction s arbitrary: dest)
  case Nil
  then show ?case by (simp add: parse_loop.simps [of cap e dest "e # rest"])
next
  case (Cons c s)
  let ?p = "dump_chars esc s @ e # rest"
  have "parse_loop cap e dest (dump_char esc c s @ ?p) = parse_loop cap e (dest @ [c]) ?p"
    using Cons.prems cur_dump_char [OF del, of c s ?p] parse_step_dump [OF del refl, of cap dest c s rest]
    by (subst parse_loop.simps) simp
  with Cons show ?case by simp
qed

text \<open>
  C15. Escaped strings round-trip: what \<^verbatim>\<open>dump_strW\<close> writes for any string of 16-bit characters, with
  the delimiters the registry files use, \<^verbatim>\<open>parse_strW\<close> reads back up to the closing delimiter into
  the same characters followed by a terminator, if the buffer has room for it; it reports exactly
  the bytes that were written, delimiter included.
\<close>

theorem parse_dump_strW:
  assumes "delimiters esc e" and "length str < cap"
  shows "parse_strW cap (dump_strW str esc @ e # rest) e =
    Some (str @ [0], length (dump_strW str esc) + 1)"
proof -
  have "e \<noteq> 0" using assms(1) by (auto simp: delimiters_def plain_def)
  with parse_loop_dump [OF assms(1), of "[]" str cap rest] assms(2) show ?thesis
    by (simp add: parse_strW_def dump_strW_chars)
qed

theorem parse_dump_strW_witness:
  "parse_strW 20 (dump_strW [0x41, 0x22, 7, 0x1f, 0x37, 0x20ac, 0x66, 0x5c, 0] (0x22, 0x22) @ [0x22, 0x3d]) 0x22 =
     Some ([0x41, 0x22, 7, 0x1f, 0x37, 0x20ac, 0x66, 0x5c, 0, 0],
       length (dump_strW [0x41, 0x22, 7, 0x1f, 0x37, 0x20ac, 0x66, 0x5c, 0] (0x22, 0x22)) + 1)"
proof -
  have "delimiters (0x22, 0x22) 0x22" by code_simp
  from parse_dump_strW [OF this, of "[0x41, 0x22, 7, 0x1f, 0x37, 0x20ac, 0x66, 0x5c, 0]" 20 "[0x3d]"]
  show ?thesis by simp
qed

section \<open>Buffers\<close>

lemma length_store_utf16: "length dest < cap \<Longrightarrow> length (store_utf16 cap dest res) \<le> cap"
  by (simp add: store_utf16_def Let_def)

lemma length_normal_char_dest: "length dest < cap \<Longrightarrow> length (fst (normal_char cap dest p)) \<le> cap"
  by (auto simp: normal_char_def utf8_char_def Let_def length_store_utf16 split: prod.split option.split)

lemma length_parse_step_dest: "length dest < cap \<Longrightarrow> length (fst (snd (parse_step cap dest p))) \<le> cap"
  using length_normal_char_dest [of dest cap]
  by (simp add: parse_step_def Let_def split: option.split prod.split)

lemma parse_loop_bounds:
  "length dest \<le> cap \<Longrightarrow> length (fst (parse_loop cap e dest p)) \<le> cap \<and> length (snd (parse_loop cap e dest p)) \<le> length p"
proof (induction cap e dest p rule: parse_loop.induct)
  case (1 cap e dest p)
  show ?case
  proof (cases "cur p \<noteq> 0 \<and> cur p \<noteq> e \<and> length dest < cap")
    case True
    obtain stop dest' p' where step: "parse_step cap dest p = (stop, dest', p')" by (metis prod_cases3)
    have len: "length dest' \<le> cap" "length p' < length p"
      using True length_parse_step_dest [of dest cap p] parse_step_less [OF step] step by auto
    have loop: "parse_loop cap e dest p = (if stop then (dest', p') else parse_loop cap e dest' p')"
      using True step by (simp add: parse_loop.simps [of cap e dest p])
    show ?thesis
    proof (cases stop)
      case False
      from "1.IH" [OF True step [symmetric] refl False] len loop False show ?thesis by auto
    qed (use len loop in auto)
  next
    case False
    then have "parse_loop cap e dest p = (dest, p)" by (subst parse_loop.simps) (simp only: if_False)
    with "1.prems" show ?thesis by simp
  qed
qed

text \<open>
  Neither routine leaves its buffer: whatever the input file holds, \<^verbatim>\<open>parse_strW\<close> stores at most
  \<open>cap\<close> characters, terminator included, and never claims more bytes than the input has; and the
  256-byte output buffer of \<^verbatim>\<open>dump_strW\<close> never holds more than 254 bytes, so the terminator of every
  \<^verbatim>\<open>snprintf\<close> fits too.
\<close>

theorem string_buffers_bounded:
  "(case parse_strW cap src e of None \<Rightarrow> True | Some (buf, n) \<Rightarrow> length buf \<le> cap \<and> n \<le> length src) \<and>
   length (fst (parse_loop cap e [] src)) \<le> cap \<and>
   length (snd (dump_loop esc str [] [])) \<le> 254"
proof -
  note b = parse_loop_bounds [of "[]" cap e src]
  have "n \<le> length src \<and> length buf \<le> cap" if *: "parse_strW cap src e = Some (buf, n)" for buf n
  proof -
    obtain dest p where loop: "parse_loop cap e [] src = (dest, p)" by force
    with * have eqs: "length dest < cap" "cur p \<noteq> 0" "buf = dest @ [0]" "n = length src - length p + 1"
      by (auto simp: parse_strW_def split: if_splits)
    from eqs(2) have "p \<noteq> []" by (rule cur_neq_0)
    then show ?thesis using b loop eqs by (cases p) auto
  qed
  then show ?thesis using b dump_loop_buffer [of "[]" esc str "[]"]
    by (auto split: option.split)
qed

end
