(* ===== verification/Atoms.thy ===== *)
theory Atoms
  imports Unicode_Strings
begin

text \<open>
  Atom tables (\<^verbatim>\<open>server/atom.c\<close>): reference-counted strings with 16-bit handles, found by a hash of
  the case-folded name. The array of entry pointers is a partial function on slots; a hash chain,
  linked through \<^verbatim>\<open>next\<close> and \<^verbatim>\<open>prev\<close> in the entries, is the list of the slots of its entries. Reference
  counts are C \<^verbatim>\<open>int\<close>s and wrap.
\<close>

section \<open>Data\<close>

abbreviation MIN_STR_ATOM :: nat where "MIN_STR_ATOM \<equiv> 0xc000"
abbreviation MAXINTATOM :: nat where "MAXINTATOM \<equiv> 0xc000"
abbreviation MAX_ATOMS :: nat where "MAX_ATOMS \<equiv> 0x4000"
abbreviation MAX_ATOM_LEN :: nat where "MAX_ATOM_LEN \<equiv> 255"
abbreviation HASH_SIZE :: u32 where "HASH_SIZE \<equiv> 37"

record atom_entry =
  ae_count :: int
  ae_atom :: nat
  ae_hash :: u32
  ae_str :: "wchar list"

record atom_table =
  at_count :: nat
  atoms :: "nat \<Rightarrow> atom_entry option"
  entries :: "u32 \<Rightarrow> nat list"

section \<open>Operations\<close>

definition create_atom_table :: atom_table where
  "create_atom_table = \<lparr>at_count = 1, atoms = (\<lambda>_. None), entries = (\<lambda>_. [])\<rparr>"

definition get_atom_entry :: "atom_table \<Rightarrow> nat \<Rightarrow> atom_entry result" where
  "get_atom_entry table atom =
     (case (if atom \<ge> MIN_STR_ATOM \<and> atom < MIN_STR_ATOM + at_count table
            then atoms table (atom - MIN_STR_ATOM) else None) of
        None \<Rightarrow> Inl STATUS_INVALID_HANDLE
      | Some entry \<Rightarrow> Inr entry)"

text \<open>The first free slot, or \<open>at_count\<close> when there is none below it; slot 0 is reserved.\<close>

definition free_slot :: "atom_table \<Rightarrow> nat" where
  "free_slot table =
     (case List.find (\<lambda>i. atoms table i = None) [1..<at_count table] of
        Some i \<Rightarrow> i
      | None \<Rightarrow> max 1 (at_count table))"

definition add_atom_entry :: "atom_table \<Rightarrow> atom_entry \<Rightarrow> (atom_table \<times> nat) option" where
  "add_atom_entry table entry =
     (let i = free_slot table
      in if i = MAX_ATOMS then None
         else Some (table\<lparr>at_count := (if i = at_count table then at_count table + 1 else at_count table),
                          atoms := (atoms table)(i := Some (entry\<lparr>ae_atom := i + MIN_STR_ATOM\<rparr>))\<rparr>,
                    i + MIN_STR_ATOM))"

fun int_atom_loop :: "nat \<Rightarrow> wchar list \<Rightarrow> nat" where
  "int_atom_loop ret [] = ret"
| "int_atom_loop ret (c # cs) =
     (if c < 0x30 \<or> c > 0x39 then 0
      else let ret' = ret * 10 + unat c - 0x30
           in if ret' \<ge> MAXINTATOM then 0 else int_atom_loop ret' cs)"

text \<open>Callers pass a nonempty name.\<close>

definition get_int_atom_value :: "wchar list \<Rightarrow> nat" where
  "get_int_atom_value name = (if hd name \<noteq> 0x23 then 0 else int_atom_loop 0 (tl name))"

definition find_atom_entry :: "(nat \<Rightarrow> u16) \<Rightarrow> atom_table \<Rightarrow> wchar list \<Rightarrow> u32 \<Rightarrow> nat option" where
  "find_atom_entry casemap table str hash =
     List.find (\<lambda>i. case atoms table i of None \<Rightarrow> False
                    | Some entry \<Rightarrow> length (ae_str entry) = length str \<and>
                        memicmp_strW casemap (ae_str entry) str (length str) = 0)
       (entries table hash)"

text \<open>The checks that \<^verbatim>\<open>add_atom\<close> and \<^verbatim>\<open>find_atom\<close> start with: an error, or an integer atom, or a string to look up.\<close>

definition check_atom_name :: "wchar list \<Rightarrow> (nat result) option" where
  "check_atom_name str =
     (if length str = 0 then Some (Inl STATUS_OBJECT_NAME_INVALID)
      else if length str > MAX_ATOM_LEN then Some (Inl STATUS_INVALID_PARAMETER)
      else if get_int_atom_value str \<noteq> 0 then Some (Inr (get_int_atom_value str))
      else None)"

definition add_atom :: "(nat \<Rightarrow> u16) \<Rightarrow> bool \<Rightarrow> atom_table \<Rightarrow> wchar list \<Rightarrow> atom_table \<times> nat result" where
  "add_atom casemap mem_ok table str =
     (case check_atom_name str of
        Some res \<Rightarrow> (table, res)
      | None \<Rightarrow>
          (let hash = hash_strW casemap str HASH_SIZE
           in case find_atom_entry casemap table str hash of
                Some i \<Rightarrow>
                  (let entry = the (atoms table i)
                   in (table\<lparr>atoms := (atoms table)(i \<mapsto> entry\<lparr>ae_count := s32 (ae_count entry + 1)\<rparr>)\<rparr>,
                       Inr (ae_atom entry)))
              | None \<Rightarrow>
                  if \<not> mem_ok then (table, Inl STATUS_NO_MEMORY)
                  else (case add_atom_entry table
                               \<lparr>ae_count = 1, ae_atom = 0, ae_hash = hash, ae_str = str\<rparr> of
                          None \<Rightarrow> (table, Inl STATUS_NO_MEMORY)
                        | Some (table', atom) \<Rightarrow>
                            (table'\<lparr>entries := (entries table')
                                (hash := (atom - MIN_STR_ATOM) # entries table' hash)\<rparr>,
                             Inr atom))))"

definition delete_atom :: "atom_table \<Rightarrow> nat \<Rightarrow> atom_table \<times> unit result" where
  "delete_atom table atom =
     (case get_atom_entry table atom of
        Inl err \<Rightarrow> (table, Inl err)
      | Inr entry \<Rightarrow>
          (let i = atom - MIN_STR_ATOM; count = s32 (ae_count entry - 1)
           in if count = 0
              then (table\<lparr>atoms := (atoms table)(i := None),
                          entries := (entries table)(ae_hash entry := remove1 i (entries table (ae_hash entry)))\<rparr>,
                    Inr ())
              else (table\<lparr>atoms := (atoms table)(i \<mapsto> entry\<lparr>ae_count := count\<rparr>)\<rparr>, Inr ())))"

definition find_atom :: "(nat \<Rightarrow> u16) \<Rightarrow> atom_table \<Rightarrow> wchar list \<Rightarrow> nat result" where
  "find_atom casemap table str =
     (case check_atom_name str of
        Some res \<Rightarrow> res
      | None \<Rightarrow>
          (case find_atom_entry casemap table str (hash_strW casemap str HASH_SIZE) of
             None \<Rightarrow> Inl STATUS_OBJECT_NAME_NOT_FOUND
           | Some i \<Rightarrow> Inr (ae_atom (the (atoms table i)))))"

definition grab_atom :: "atom_table \<Rightarrow> nat \<Rightarrow> atom_table \<times> nat result" where
  "grab_atom table atom =
     (if atom \<ge> MIN_STR_ATOM then
        (case get_atom_entry table atom of
           Inl err \<Rightarrow> (table, Inl err)
         | Inr entry \<Rightarrow>
             (table\<lparr>atoms := (atoms table)(atom - MIN_STR_ATOM \<mapsto> entry\<lparr>ae_count := s32 (ae_count entry + 1)\<rparr>)\<rparr>,
              Inr atom))
      else (table, Inr atom))"

definition release_atom :: "atom_table \<Rightarrow> nat \<Rightarrow> atom_table" where
  "release_atom table atom = (if atom \<ge> MIN_STR_ATOM then fst (delete_atom table atom) else table)"

text \<open>
  \<^verbatim>\<open>DECL_HANDLER(get_atom_information)\<close>: the name, cut to the reply size (in characters), the reference count and
  the full length in bytes; a count of -1 stands for an invalid handle.
\<close>

definition get_atom_information :: "atom_table \<Rightarrow> nat \<Rightarrow> nat \<Rightarrow> wchar list \<times> int \<times> nat" where
  "get_atom_information table atom max_chars =
     (case get_atom_entry table atom of
        Inl err \<Rightarrow> ([], - 1, 0)
      | Inr entry \<Rightarrow> (take max_chars (ae_str entry), ae_count entry, 2 * length (ae_str entry)))"

definition get_user_atom_name :: "atom_table \<Rightarrow> nat \<Rightarrow> nat \<Rightarrow> wchar list \<times> nat" where
  "get_user_atom_name table atom max_chars =
     (case get_atom_entry table atom of
        Inl err \<Rightarrow> ([], 0)
      | Inr entry \<Rightarrow> (take max_chars (ae_str entry), 2 * length (ae_str entry)))"

definition add_atom_asciiz :: "(nat \<Rightarrow> u16) \<Rightarrow> bool \<Rightarrow> string \<Rightarrow> atom_table \<Rightarrow> atom_table" where
  "add_atom_asciiz casemap mem_ok name table = fst (add_atom casemap mem_ok table (map of_char name))"

definition global_atom_names :: "string list" where
  "global_atom_names =
     [''StdExit'', ''StdNewDocument'', ''StdOpenDocument'', ''StdEditDocument'', ''StdNewfromTemplate'',
      ''StdCloseDocument'', ''StdShowItem'', ''StdDoVerbItem'', ''System'', ''OLEsystem'',
      ''StdDocumentName'', ''Protocols'', ''Topics'', ''Formats'', ''Status'', ''EditEnvItems'',
      ''True'', ''False'', ''Change'', ''Save'', ''Close'', ''MSDraw'', ''CC32SubclassInfo'']"

definition user_atom_names :: "string list" where
  "user_atom_names =
     [''USER32'', ''ObjectLink'', ''OwnerLink'', ''Native'', ''Binary'', ''FileName'', ''FileNameW'',
      ''NetworkName'', ''DataObject'', ''Embedded Object'', ''Embed Source'', ''Custom Link Source'',
      ''Link Source'', ''Object Descriptor'', ''Link Source Descriptor'', ''OleDraw'', ''PBrush'',
      ''MSDraw'', ''Ole Private Data'', ''Screen Picture'', ''OleClipboardPersistOnFlush'',
      ''MoreOlePrivateData'', ''Button'', ''Edit'', ''Static'', ''ListBox'', ''ScrollBar'', ''ComboBox'']"

text \<open>The names that \<^verbatim>\<open>set_global_atom_table\<close> and \<^verbatim>\<open>set_user_atom_table\<close> put into a table.\<close>

definition add_atom_names :: "(nat \<Rightarrow> u16) \<Rightarrow> bool \<Rightarrow> string list \<Rightarrow> atom_table \<Rightarrow> atom_table" where
  "add_atom_names casemap mem_ok names table = fold (add_atom_asciiz casemap mem_ok) names table"

end
