(* ===== verification/Atom_Correct.thy ===== *)
theory Atom_Correct
  imports Atoms
begin

text \<open>
  The atom table refines a map from case-folded names to handles and reference counts. The invariant
  ties the slots to the hash chains; the abstraction scans the slots, so the lemmas also show that the
  hashed lookup finds what a full scan would find.
\<close>

section \<open>Invariant\<close>

definition atoms_inv :: "(nat \<Rightarrow> u16) \<Rightarrow> atom_table \<Rightarrow> bool" where
  "atoms_inv casemap t \<longleftrightarrow>
     1 \<le> at_count t \<and> at_count t \<le> MAX_ATOMS \<and> atoms t 0 = None \<and> (\<forall>i \<ge> at_count t. atoms t i = None) \<and>
     (\<forall>i e. atoms t i = Some e \<longrightarrow>
        ae_atom e = i + MIN_STR_ATOM \<and> ae_hash e = hash_strW casemap (ae_str e) HASH_SIZE \<and>
        check_atom_name (ae_str e) = None \<and> i \<in> set (entries t (ae_hash e))) \<and>
     (\<forall>h. distinct (entries t h) \<and> (\<forall>i \<in> set (entries t h). \<exists>e. atoms t i = Some e \<and> ae_hash e = h)) \<and>
     (\<forall>i j e e'. atoms t i = Some e \<and> atoms t j = Some e' \<and>
        folded casemap (ae_str e) = folded casemap (ae_str e') \<longrightarrow> i = j)"

text \<open>The entry of a name, found by scanning the slots, and the map it gives.\<close>

definition names_map :: "(nat \<Rightarrow> u16) \<Rightarrow> atom_table \<Rightarrow> wchar list \<rightharpoonup> nat \<times> int" where
  "names_map casemap t f =
     (case List.find (\<lambda>i. case atoms t i of None \<Rightarrow> False | Some e \<Rightarrow> folded casemap (ae_str e) = f) [1..<at_count t] of
        None \<Rightarrow> None
      | Some i \<Rightarrow> map_option (\<lambda>e. (ae_atom e, ae_count e)) (atoms t i))"

lemma atoms_invD:
  assumes "atoms_inv casemap t"
  shows "1 \<le> at_count t" "at_count t \<le> MAX_ATOMS" "atoms t 0 = None" "\<And>i. at_count t \<le> i \<Longrightarrow> atoms t i = None"
    and "\<And>i e. atoms t i = Some e \<Longrightarrow> ae_atom e = i + MIN_STR_ATOM \<and> ae_hash e = hash_strW casemap (ae_str e) HASH_SIZE
      \<and> check_atom_name (ae_str e) = None \<and> i \<in> set (entries t (ae_hash e))"
    and "\<And>h. distinct (entries t h)" and "\<And>h i. i \<in> set (entries t h) \<Longrightarrow> \<exists>e. atoms t i = Some e \<and> ae_hash e = h"
    and "\<And>i j e e'. atoms t i = Some e \<Longrightarrow> atoms t j = Some e' \<Longrightarrow>
      folded casemap (ae_str e) = folded casemap (ae_str e') \<Longrightarrow> i = j"
  using assms unfolding atoms_inv_def by blast+

lemma atoms_inv_slot:
  assumes "atoms_inv casemap t" and "atoms t i = Some e"
  shows "1 \<le> i \<and> i < at_count t"
proof -
  have "i \<noteq> 0" using atoms_invD(3) [OF assms(1)] assms(2) by (metis option.distinct(1))
  moreover have "\<not> at_count t \<le> i" using atoms_invD(4) [OF assms(1), of i] assms(2) by auto
  ultimately show ?thesis by simp
qed

lemma find_unique:
  assumes "\<And>i j. P i \<Longrightarrow> P j \<Longrightarrow> i = j"
  shows "List.find P xs = Some i \<longleftrightarrow> P i \<and> i \<in> set xs"
  using assms by (induction xs) auto

lemma names_map_Some:
  assumes inv: "atoms_inv casemap t"
  shows "names_map casemap t f = Some (a, n) \<longleftrightarrow>
    (\<exists>i e. atoms t i = Some e \<and> folded casemap (ae_str e) = f \<and> a = ae_atom e \<and> n = ae_count e)"
proof -
  let ?P = "\<lambda>i. case atoms t i of None \<Rightarrow> False | Some e \<Rightarrow> folded casemap (ae_str e) = f"
  have uniq: "?P i \<Longrightarrow> ?P j \<Longrightarrow> i = j" for i j
    using atoms_invD(8) [OF inv] by (auto split: option.splits)
  have fu: "List.find ?P xs = Some i \<longleftrightarrow> ?P i \<and> i \<in> set xs" for xs i by (rule find_unique) (rule uniq)
  have "names_map casemap t f = Some (a, n) \<longleftrightarrow>
      (\<exists>i. List.find ?P [1..<at_count t] = Some i \<and>
        map_option (\<lambda>e. (ae_atom e, ae_count e)) (atoms t i) = Some (a, n))"
    unfolding names_map_def by (simp split: option.split)
  also have "\<dots> \<longleftrightarrow> (\<exists>i. (?P i \<and> i \<in> set [1..<at_count t]) \<and>
      map_option (\<lambda>e. (ae_atom e, ae_count e)) (atoms t i) = Some (a, n))"
    unfolding fu ..
  also have "\<dots> \<longleftrightarrow> (\<exists>i e. atoms t i = Some e \<and> folded casemap (ae_str e) = f \<and> a = ae_atom e \<and> n = ae_count e)"
    using atoms_inv_slot [OF inv] by (fastforce split: option.splits)
  finally show ?thesis .
qed

lemma names_map_None:
  "atoms_inv casemap t \<Longrightarrow>
     names_map casemap t f = None \<longleftrightarrow> (\<forall>i e. atoms t i = Some e \<longrightarrow> folded casemap (ae_str e) \<noteq> f)"
  using names_map_Some [of casemap t f] by (metis not_None_eq surj_pair)

text \<open>The hash chain finds the same entry as the scan.\<close>

lemma find_atom_entry_Some:
  assumes inv: "atoms_inv casemap t"
  shows "find_atom_entry casemap t str (hash_strW casemap str HASH_SIZE) = Some i \<longleftrightarrow>
    (\<exists>e. atoms t i = Some e \<and> folded casemap (ae_str e) = folded casemap str)"
proof -
  let ?P = "\<lambda>i. case atoms t i of None \<Rightarrow> False | Some e \<Rightarrow> length (ae_str e) = length str \<and>
    memicmp_strW casemap (ae_str e) str (length str) = 0"
  have P: "?P i \<longleftrightarrow> (\<exists>e. atoms t i = Some e \<and> folded casemap (ae_str e) = folded casemap str)" for i
    using memicmp_strW_eq_0 [of _ str casemap] by (auto split: option.split dest: map_eq_imp_length_eq)
  have uniq: "?P i \<Longrightarrow> ?P j \<Longrightarrow> i = j" for i j using atoms_invD(8) [OF inv] unfolding P by metis
  have fu: "List.find ?P xs = Some i \<longleftrightarrow> ?P i \<and> i \<in> set xs" for xs i by (rule find_unique) (rule uniq)
  have chain: "i \<in> set (entries t (hash_strW casemap str HASH_SIZE))"
    if "atoms t i = Some e" "folded casemap (ae_str e) = folded casemap str" for i e
    using atoms_invD(5) [OF inv that(1)] hash_strW_folded [OF that(2)] by auto
  show ?thesis
    unfolding find_atom_entry_def fu unfolding P using chain by blast
qed

lemma find_atom_entry_None:
  "atoms_inv casemap t \<Longrightarrow>
     find_atom_entry casemap t str (hash_strW casemap str HASH_SIZE) = None \<longleftrightarrow>
       names_map casemap t (folded casemap str) = None"
  using find_atom_entry_Some [of casemap t str] names_map_None [of casemap t] by (metis not_None_eq)

section \<open>Preservation\<close>

lemma create_atom_table_inv: "atoms_inv casemap create_atom_table"
  by (simp add: atoms_inv_def create_atom_table_def)

text \<open>Changing a reference count.\<close>

abbreviation set_count :: "atom_table \<Rightarrow> nat \<Rightarrow> atom_entry \<Rightarrow> int \<Rightarrow> atom_table" where
  "set_count t i e n \<equiv> t\<lparr>atoms := (atoms t)(i \<mapsto> e\<lparr>ae_count := n\<rparr>)\<rparr>"

lemma set_count_inv:
  assumes inv: "atoms_inv casemap t" and e: "atoms t i = Some e"
  shows "atoms_inv casemap (set_count t i e n)"
proof -
  have same: "\<exists>e0. atoms t j = Some e0 \<and> ae_atom e' = ae_atom e0 \<and> ae_hash e' = ae_hash e0 \<and> ae_str e' = ae_str e0"
    if "atoms (set_count t i e n) j = Some e'" for j e' using that e by (auto split: if_splits)
  have dom: "atoms (set_count t i e n) j = None \<longleftrightarrow> atoms t j = None" for j using e by simp
  note D = atoms_invD [OF inv]
  show ?thesis
    unfolding atoms_inv_def
  proof (intro conjI allI impI)
    fix h
    show "\<forall>j \<in> set (entries (set_count t i e n) h). \<exists>e'. atoms (set_count t i e n) j = Some e' \<and> ae_hash e' = h"
      using D(7) [of _ h] e by fastforce
  next
    fix j e'
    assume "atoms (set_count t i e n) j = Some e'"
    from same [OF this] obtain e0 where e0: "atoms t j = Some e0" and eq: "ae_atom e' = ae_atom e0"
      "ae_hash e' = ae_hash e0" "ae_str e' = ae_str e0" by blast
    from D(5) [OF e0] eq show "ae_atom e' = j + MIN_STR_ATOM" "ae_hash e' = hash_strW casemap (ae_str e') HASH_SIZE"
      "check_atom_name (ae_str e') = None" "j \<in> set (entries (set_count t i e n) (ae_hash e'))" by auto
  next
    fix j k e' e''
    assume *: "atoms (set_count t i e n) j = Some e' \<and> atoms (set_count t i e n) k = Some e'' \<and>
      folded casemap (ae_str e') = folded casemap (ae_str e'')"
    with same [of j e'] same [of k e''] D(8) show "j = k" by metis
  qed (use D(1-4,6) atoms_inv_slot [OF inv e] in auto)
qed

lemma ex_entry_upd:
  assumes "m i = Some e" and "\<not> Q e" and "\<And>e'. v = Some e' \<Longrightarrow> \<not> Q e'"
  shows "(\<exists>j e'. (m(i := v)) j = Some e' \<and> Q e') \<longleftrightarrow> (\<exists>j e'. m j = Some e' \<and> Q e')"
  using assms by (metis fun_upd_apply option.inject)

lemma set_count_map:
  assumes inv: "atoms_inv casemap t" and e: "atoms t i = Some e"
  shows "names_map casemap (set_count t i e n) =
    (names_map casemap t)(folded casemap (ae_str e) \<mapsto> (ae_atom e, n))"
proof
  fix f
  note S = names_map_Some [OF set_count_inv [OF inv e]]
  show "names_map casemap (set_count t i e n) f =
      ((names_map casemap t)(folded casemap (ae_str e) \<mapsto> (ae_atom e, n))) f"
  proof (cases "f = folded casemap (ae_str e)")
    case True
    then have "names_map casemap (set_count t i e n) f = Some (ae_atom e, n)" unfolding S using e by auto
    with True show ?thesis by simp
  next
    case False
    have "names_map casemap (set_count t i e n) f = Some (a, m) \<longleftrightarrow> names_map casemap t f = Some (a, m)" for a m
      unfolding S names_map_Some [OF inv] using False
        ex_entry_upd [of "atoms t" i e "\<lambda>e'. folded casemap (ae_str e') = f \<and> a = ae_atom e' \<and> m = ae_count e'" "Some (e\<lparr>ae_count := n\<rparr>)", OF e]
      by auto
    with False show ?thesis by (metis fun_upd_apply not_None_eq surj_pair)
  qed
qed

text \<open>Removing an entry.\<close>

abbreviation drop_entry :: "atom_table \<Rightarrow> nat \<Rightarrow> atom_entry \<Rightarrow> atom_table" where
  "drop_entry t i e \<equiv> t\<lparr>atoms := (atoms t)(i := None),
     entries := (entries t)(ae_hash e := remove1 i (entries t (ae_hash e)))\<rparr>"

lemma drop_entry_inv:
  assumes inv: "atoms_inv casemap t" and e: "atoms t i = Some e"
  shows "atoms_inv casemap (drop_entry t i e)"
proof -
  note D = atoms_invD [OF inv]
  let ?t = "drop_entry t i e"
  have old: "atoms t j = Some e' \<and> j \<noteq> i" if "atoms ?t j = Some e'" for j e' using that by (auto split: if_splits)
  show ?thesis
    unfolding atoms_inv_def
  proof (intro conjI allI impI)
    fix h
    show "distinct (entries ?t h)" using D(6) by simp
    show "\<forall>j \<in> set (entries ?t h). \<exists>e'. atoms ?t j = Some e' \<and> ae_hash e' = h"
    proof
      fix j assume "j \<in> set (entries ?t h)"
      then have "j \<in> set (entries t h)" "j = i \<longrightarrow> h \<noteq> ae_hash e" using D(6) by (auto split: if_splits)
      with D(7) [of j h] e show "\<exists>e'. atoms ?t j = Some e' \<and> ae_hash e' = h" by auto
    qed
  next
    fix j e' assume "atoms ?t j = Some e'"
    then have j: "atoms t j = Some e'" "j \<noteq> i" by (blast dest: old)+
    from D(5) [OF j(1)] show "ae_atom e' = j + MIN_STR_ATOM" "ae_hash e' = hash_strW casemap (ae_str e') HASH_SIZE"
      "check_atom_name (ae_str e') = None" by simp_all
    from D(5) [OF j(1)] have "j \<in> set (entries t (ae_hash e'))" by blast
    with j(2) show "j \<in> set (entries ?t (ae_hash e'))" by (auto simp: in_set_remove1)
  next
    fix j k e' e''
    assume "atoms ?t j = Some e' \<and> atoms ?t k = Some e'' \<and> folded casemap (ae_str e') = folded casemap (ae_str e'')"
    with old [of j e'] old [of k e''] D(8) show "j = k" by metis
  qed (use D(1-4) in auto)
qed

lemma drop_entry_map:
  assumes inv: "atoms_inv casemap t" and e: "atoms t i = Some e"
  shows "names_map casemap (drop_entry t i e) = (names_map casemap t)(folded casemap (ae_str e) := None)"
proof
  fix f
  note inv' = drop_entry_inv [OF inv e]
  show "names_map casemap (drop_entry t i e) f = ((names_map casemap t)(folded casemap (ae_str e) := None)) f"
  proof (cases "f = folded casemap (ae_str e)")
    case True
    have "names_map casemap (drop_entry t i e) f = None"
      unfolding names_map_None [OF inv'] using atoms_invD(8) [OF inv] e True by (auto split: if_splits)
    with True show ?thesis by simp
  next
    case False
    have "names_map casemap (drop_entry t i e) f = Some (a, m) \<longleftrightarrow> names_map casemap t f = Some (a, m)" for a m
      unfolding names_map_Some [OF inv'] names_map_Some [OF inv] using False
        ex_entry_upd [of "atoms t" i e "\<lambda>e'. folded casemap (ae_str e') = f \<and> a = ae_atom e' \<and> m = ae_count e'" None, OF e]
      by auto
    with False show ?thesis by (metis fun_upd_apply not_None_eq surj_pair)
  qed
qed

text \<open>Adding an entry.\<close>

lemma free_slot_props:
  assumes inv: "atoms_inv casemap t"
  shows "atoms t (free_slot t) = None" and "1 \<le> free_slot t" and "free_slot t \<le> at_count t"
    and "free_slot t = at_count t \<Longrightarrow> \<forall>i \<in> {1..<at_count t}. atoms t i \<noteq> None"
proof -
  note D = atoms_invD [OF inv]
  have "atoms t (free_slot t) = None \<and> 1 \<le> free_slot t \<and> free_slot t \<le> at_count t \<and>
      (free_slot t = at_count t \<longrightarrow> (\<forall>i \<in> {1..<at_count t}. atoms t i \<noteq> None))"
  proof (cases "List.find (\<lambda>i. atoms t i = None) [1..<at_count t]")
    case None
    then have "free_slot t = at_count t" using D(1) by (simp add: free_slot_def)
    moreover have "\<forall>i \<in> {1..<at_count t}. atoms t i \<noteq> None" using None by (simp add: find_None_iff)
    ultimately show ?thesis using D(1,4) by simp
  next
    case (Some i)
    moreover from Some have "free_slot t = i" by (simp add: free_slot_def)
    ultimately have "free_slot t = i" "atoms t i = None" "i \<in> set [1..<at_count t]"
      by (auto simp: find_Some_iff)
    then show ?thesis by simp
  qed
  then show "atoms t (free_slot t) = None" "1 \<le> free_slot t" "free_slot t \<le> at_count t"
    "free_slot t = at_count t \<Longrightarrow> \<forall>i \<in> {1..<at_count t}. atoms t i \<noteq> None" by auto
qed

definition new_entry :: "(nat \<Rightarrow> u16) \<Rightarrow> atom_table \<Rightarrow> wchar list \<Rightarrow> atom_table" where
  "new_entry casemap t str =
     (let i = free_slot t; h = hash_strW casemap str HASH_SIZE
      in t\<lparr>at_count := (if i = at_count t then at_count t + 1 else at_count t),
           atoms := (atoms t)(i \<mapsto> \<lparr>ae_count = 1, ae_atom = i + MIN_STR_ATOM, ae_hash = h, ae_str = str\<rparr>),
           entries := (entries t)(h := i # entries t h)\<rparr>)"

lemma new_entry_inv:
  assumes inv: "atoms_inv casemap t" and room: "free_slot t \<noteq> MAX_ATOMS"
    and name: "check_atom_name str = None" and fresh: "names_map casemap t (folded casemap str) = None"
  shows "atoms_inv casemap (new_entry casemap t str)"
proof -
  note D = atoms_invD [OF inv] and F = free_slot_props [OF inv]
  let ?t = "new_entry casemap t str" and ?i = "free_slot t" and ?h = "hash_strW casemap str HASH_SIZE"
  let ?e = "\<lparr>ae_count = 1, ae_atom = ?i + MIN_STR_ATOM, ae_hash = ?h, ae_str = str\<rparr>"
  have t: "atoms ?t = (atoms t)(?i \<mapsto> ?e)" "entries ?t = (entries t)(?h := ?i # entries t ?h)"
    "at_count ?t = (if ?i = at_count t then at_count t + 1 else at_count t)" by (simp_all add: new_entry_def Let_def)
  have notin: "?i \<notin> set (entries t h)" for h using D(7) [of ?i h] F(1) by auto
  have old: "j = ?i \<and> e' = ?e \<or> j \<noteq> ?i \<and> atoms t j = Some e'" if "atoms ?t j = Some e'" for j e'
    using that unfolding t by (auto split: if_splits)
  have new: "folded casemap (ae_str e') \<noteq> folded casemap str" if "atoms t j = Some e'" for j e'
    using fresh that unfolding names_map_None [OF inv] by blast
  show ?thesis
    unfolding atoms_inv_def
  proof (intro conjI allI impI)
    show "1 \<le> at_count ?t" "at_count ?t \<le> MAX_ATOMS" using D(1,2) room F(3) unfolding t by auto
    show "atoms ?t 0 = None" using D(3) F(2) unfolding t by simp
  next
    fix j assume "at_count ?t \<le> j"
    then show "atoms ?t j = None" using D(4) [of j] F(3) unfolding t by (auto split: if_splits)
  next
    fix h
    show "distinct (entries ?t h)" using D(6) notin unfolding t by simp
    show "\<forall>j \<in> set (entries ?t h). \<exists>e'. atoms ?t j = Some e' \<and> ae_hash e' = h"
      using D(7) [of _ h] notin [of h] unfolding t by (auto; metis)
  next
    fix j e' assume "atoms ?t j = Some e'"
    from old [OF this] have "j = ?i \<and> e' = ?e \<or> atoms t j = Some e'" by blast
    then have "ae_atom e' = j + MIN_STR_ATOM \<and> ae_hash e' = hash_strW casemap (ae_str e') HASH_SIZE \<and>
        check_atom_name (ae_str e') = None \<and> (j = ?i \<and> ae_hash e' = ?h \<or> j \<in> set (entries t (ae_hash e')))"
      using D(5) [of j e'] name by auto
    then show "ae_atom e' = j + MIN_STR_ATOM" "ae_hash e' = hash_strW casemap (ae_str e') HASH_SIZE"
      "check_atom_name (ae_str e') = None" "j \<in> set (entries ?t (ae_hash e'))" unfolding t by auto
  next
    fix j k e' e''
    assume *: "atoms ?t j = Some e' \<and> atoms ?t k = Some e'' \<and> folded casemap (ae_str e') = folded casemap (ae_str e'')"
    then show "j = k" using old [of j e'] old [of k e''] new [of j e'] new [of k e''] D(8) [of j e' k e''] by auto
  qed
qed

lemma new_entry_map:
  assumes inv: "atoms_inv casemap t" and room: "free_slot t \<noteq> MAX_ATOMS"
    and name: "check_atom_name str = None" and fresh: "names_map casemap t (folded casemap str) = None"
  shows "names_map casemap (new_entry casemap t str) =
    (names_map casemap t)(folded casemap str \<mapsto> (free_slot t + MIN_STR_ATOM, 1))"
proof
  fix f
  note S = names_map_Some [OF new_entry_inv [OF assms]]
  have t: "atoms (new_entry casemap t str) = (atoms t)(free_slot t \<mapsto>
      \<lparr>ae_count = 1, ae_atom = free_slot t + MIN_STR_ATOM, ae_hash = hash_strW casemap str HASH_SIZE, ae_str = str\<rparr>)"
    by (simp add: new_entry_def Let_def)
  have "names_map casemap (new_entry casemap t str) f = Some (a, n) \<longleftrightarrow>
      (if f = folded casemap str then (a, n) = (free_slot t + MIN_STR_ATOM, 1) else names_map casemap t f = Some (a, n))" for a n
    unfolding S names_map_Some [OF inv] t
    using fresh [unfolded names_map_None [OF inv]] free_slot_props(1) [OF inv] by (auto split: if_splits; metis option.distinct(1))
  then show "names_map casemap (new_entry casemap t str) f =
      ((names_map casemap t)(folded casemap str \<mapsto> (free_slot t + MIN_STR_ATOM, 1))) f"
    by (metis fun_upd_apply not_None_eq surj_pair)
qed

section \<open>The operations on the map of names\<close>

lemma add_atom_cases:
  assumes inv: "atoms_inv casemap t" and name: "check_atom_name str = None"
  shows "add_atom casemap mem_ok t str =
    (case find_atom_entry casemap t str (hash_strW casemap str HASH_SIZE) of
       Some i \<Rightarrow> (let e = the (atoms t i) in (set_count t i e (s32 (ae_count e + 1)), Inr (ae_atom e)))
     | None \<Rightarrow> if mem_ok \<and> free_slot t \<noteq> MAX_ATOMS then (new_entry casemap t str, Inr (free_slot t + MIN_STR_ATOM))
              else (t, Inl STATUS_NO_MEMORY))"
  using name by (simp add: add_atom_def Let_def add_atom_entry_def new_entry_def split: option.split)

text \<open>
  The specification: what a request for a well-formed string name does to the map of names. A new
  name gets an unused handle in the range of string atoms; adding fails only for lack of memory or
  when every handle is in use.
\<close>

definition add_spec ::
    "bool \<Rightarrow> (wchar list \<rightharpoonup> nat \<times> int) \<Rightarrow> wchar list \<Rightarrow> (wchar list \<rightharpoonup> nat \<times> int) \<Rightarrow> nat result \<Rightarrow> bool" where
  "add_spec mem_ok m f m' res \<longleftrightarrow>
     (case m f of
        Some (a, n) \<Rightarrow> res = Inr a \<and> m' = m(f \<mapsto> (a, s32 (n + 1)))
      | None \<Rightarrow>
          (case res of
             Inr a \<Rightarrow> a \<notin> fst ` ran m \<and> MIN_STR_ATOM < a \<and> a < MIN_STR_ATOM + MAX_ATOMS \<and> m' = m(f \<mapsto> (a, 1))
           | Inl err \<Rightarrow> err = STATUS_NO_MEMORY \<and> m' = m \<and>
               (mem_ok \<longrightarrow> fst ` ran m = {MIN_STR_ATOM<..<MIN_STR_ATOM + MAX_ATOMS})))"

lemma names_map_handles:
  assumes inv: "atoms_inv casemap t"
  shows "fst ` ran (names_map casemap t) = (\<lambda>i. i + MIN_STR_ATOM) ` {i. atoms t i \<noteq> None}"
proof
  show "fst ` ran (names_map casemap t) \<subseteq> (\<lambda>i. i + MIN_STR_ATOM) ` {i. atoms t i \<noteq> None}"
  proof
    fix a assume "a \<in> fst ` ran (names_map casemap t)"
    then obtain f n where "names_map casemap t f = Some (a, n)" by (auto simp: ran_def)
    then obtain i e where "atoms t i = Some e" "a = ae_atom e" unfolding names_map_Some [OF inv] by blast
    with atoms_invD(5) [OF inv] show "a \<in> (\<lambda>i. i + MIN_STR_ATOM) ` {i. atoms t i \<noteq> None}" by blast
  qed
  show "(\<lambda>i. i + MIN_STR_ATOM) ` {i. atoms t i \<noteq> None} \<subseteq> fst ` ran (names_map casemap t)"
  proof
    fix a assume "a \<in> (\<lambda>i. i + MIN_STR_ATOM) ` {i. atoms t i \<noteq> None}"
    then obtain i e where i: "atoms t i = Some e" "a = i + MIN_STR_ATOM" by auto
    with atoms_invD(5) [OF inv] have "a = ae_atom e" by simp
    with i have "names_map casemap t (folded casemap (ae_str e)) = Some (a, ae_count e)"
      unfolding names_map_Some [OF inv] by blast
    then show "a \<in> fst ` ran (names_map casemap t)" by (force simp: ran_def)
  qed
qed

lemma add_atom_refines_spec:
  assumes inv: "atoms_inv casemap t" and name: "check_atom_name str = None"
    and res: "add_atom casemap mem_ok t str = (t', res)"
  shows "atoms_inv casemap t' \<and> add_spec mem_ok (names_map casemap t) (folded casemap str) (names_map casemap t') res"
proof (cases "find_atom_entry casemap t str (hash_strW casemap str HASH_SIZE)")
  case (Some i)
  then obtain e where e: "atoms t i = Some e" "folded casemap (ae_str e) = folded casemap str"
    unfolding find_atom_entry_Some [OF inv] by blast
  then have "names_map casemap t (folded casemap str) = Some (ae_atom e, ae_count e)"
    unfolding names_map_Some [OF inv] by blast
  moreover have "t' = set_count t i e (s32 (ae_count e + 1))" "res = Inr (ae_atom e)"
    using res Some e unfolding add_atom_cases [OF inv name] by (auto simp: Let_def)
  ultimately show ?thesis
    using set_count_inv [OF inv e(1)] set_count_map [OF inv e(1)] e(2) by (simp add: add_spec_def)
next
  case None
  then have fresh: "names_map casemap t (folded casemap str) = None" by (simp add: find_atom_entry_None [OF inv])
  note F = free_slot_props [OF inv] and D = atoms_invD [OF inv]
  show ?thesis
  proof (cases "mem_ok \<and> free_slot t \<noteq> MAX_ATOMS")
    case True
    then have t': "t' = new_entry casemap t str" "res = Inr (free_slot t + MIN_STR_ATOM)"
      using res None unfolding add_atom_cases [OF inv name] by auto
    have "free_slot t + MIN_STR_ATOM \<notin> fst ` ran (names_map casemap t)"
      unfolding names_map_handles [OF inv] using F(1) by auto
    moreover have "free_slot t < MAX_ATOMS" using True F(3) D(2) by simp
    ultimately show ?thesis
      using True fresh t' F(2) new_entry_inv [OF inv _ name fresh] new_entry_map [OF inv _ name fresh]
      by (simp add: add_spec_def)
  next
    case False
    then have t': "t' = t" "res = Inl STATUS_NO_MEMORY" using res None unfolding add_atom_cases [OF inv name] by auto
    have "fst ` ran (names_map casemap t) = {MIN_STR_ATOM<..<MIN_STR_ATOM + MAX_ATOMS}" if mem_ok
    proof -
      have "free_slot t = at_count t" "at_count t = MAX_ATOMS" using that False F(3) D(2) by auto
      then have "{i. atoms t i \<noteq> None} = {1..<MAX_ATOMS}"
        using F(4) atoms_inv_slot [OF inv] by (auto; force)
      then have "fst ` ran (names_map casemap t) = (\<lambda>i. i + MIN_STR_ATOM) ` {1..<MAX_ATOMS}"
        by (simp add: names_map_handles [OF inv])
      also have "\<dots> = {MIN_STR_ATOM<..<MIN_STR_ATOM + MAX_ATOMS}"
        by (simp add: image_add_atLeastLessThan' atLeastSucLessThan_greaterThanLessThan [symmetric])
      finally show ?thesis .
    qed
    with t' fresh inv show ?thesis by (simp add: add_spec_def)
  qed
qed

lemma get_atom_entry_Inr:
  assumes inv: "atoms_inv casemap t"
  shows "get_atom_entry t a = Inr e \<longleftrightarrow> a \<ge> MIN_STR_ATOM \<and> atoms t (a - MIN_STR_ATOM) = Some e"
proof -
  have "a < MIN_STR_ATOM + at_count t" if "a \<ge> MIN_STR_ATOM" "atoms t (a - MIN_STR_ATOM) = Some e"
    using atoms_inv_slot [OF inv that(2)] that(1) by linarith
  then show ?thesis unfolding get_atom_entry_def by (auto split: option.splits if_splits)
qed

lemma get_atom_entry_Inl: "get_atom_entry t a = Inl err \<Longrightarrow> err = STATUS_INVALID_HANDLE"
  by (auto simp: get_atom_entry_def split: option.splits)

lemma get_atom_entry_names:
  assumes inv: "atoms_inv casemap t"
  shows "(\<exists>e. get_atom_entry t a = Inr e \<and> folded casemap (ae_str e) = f \<and> ae_count e = n) \<longleftrightarrow>
    names_map casemap t f = Some (a, n)"
proof
  assume "\<exists>e. get_atom_entry t a = Inr e \<and> folded casemap (ae_str e) = f \<and> ae_count e = n"
  then obtain e where e: "get_atom_entry t a = Inr e" "folded casemap (ae_str e) = f" "ae_count e = n" by blast
  then have "a \<ge> MIN_STR_ATOM" "atoms t (a - MIN_STR_ATOM) = Some e" by (simp_all add: get_atom_entry_Inr [OF inv])
  with atoms_invD(5) [OF inv] have "ae_atom e = a" "atoms t (a - MIN_STR_ATOM) = Some e" by fastforce+
  with e show "names_map casemap t f = Some (a, n)" unfolding names_map_Some [OF inv] by blast
next
  assume "names_map casemap t f = Some (a, n)"
  then obtain i e where e: "atoms t i = Some e" "folded casemap (ae_str e) = f" "a = ae_atom e" "n = ae_count e"
    unfolding names_map_Some [OF inv] by blast
  with atoms_invD(5) [OF inv e(1)] have "a = i + MIN_STR_ATOM" by simp
  then have "get_atom_entry t a = Inr e" using e(1) by (simp add: get_atom_entry_Inr [OF inv])
  with e show "\<exists>e. get_atom_entry t a = Inr e \<and> folded casemap (ae_str e) = f \<and> ae_count e = n" by blast
qed

definition delete_spec ::
    "(wchar list \<rightharpoonup> nat \<times> int) \<Rightarrow> nat \<Rightarrow> (wchar list \<rightharpoonup> nat \<times> int) \<Rightarrow> unit result \<Rightarrow> bool" where
  "delete_spec m a m' res \<longleftrightarrow>
     (if a \<in> fst ` ran m
      then res = Inr () \<and>
        (\<exists>f n. m f = Some (a, n) \<and> m' = (if s32 (n - 1) = 0 then m(f := None) else m(f \<mapsto> (a, s32 (n - 1)))))
      else res = Inl STATUS_INVALID_HANDLE \<and> m' = m)"

lemma delete_atom_refines_spec:
  assumes inv: "atoms_inv casemap t" and res: "delete_atom t a = (t', res)"
  shows "atoms_inv casemap t' \<and> delete_spec (names_map casemap t) a (names_map casemap t') res"
proof (cases "get_atom_entry t a")
  case (Inl err)
  then have "a \<notin> fst ` ran (names_map casemap t)"
    using get_atom_entry_names [OF inv, of a] by (force simp: ran_def)
  moreover have "err = STATUS_INVALID_HANDLE" using Inl by (rule get_atom_entry_Inl)
  ultimately show ?thesis using Inl res inv by (auto simp: delete_atom_def delete_spec_def)
next
  case (Inr e)
  let ?f = "folded casemap (ae_str e)" and ?i = "a - MIN_STR_ATOM"
  from Inr have i: "a \<ge> MIN_STR_ATOM" "atoms t ?i = Some e" by (simp_all add: get_atom_entry_Inr [OF inv])
  have m: "names_map casemap t ?f = Some (a, ae_count e)" using get_atom_entry_names [OF inv] Inr by blast
  have a: "ae_atom e = a" using atoms_invD(5) [OF inv i(2)] i(1) by simp
  have mem: "a \<in> fst ` ran (names_map casemap t)" using m by (force simp: ran_def)
  have t': "res = Inr ()" "t' = (if s32 (ae_count e - 1) = 0 then drop_entry t ?i e else set_count t ?i e (s32 (ae_count e - 1)))"
    using res Inr by (auto simp: delete_atom_def Let_def split: if_splits)
  have "names_map casemap t' = (if s32 (ae_count e - 1) = 0 then (names_map casemap t)(?f := None)
      else (names_map casemap t)(?f \<mapsto> (a, s32 (ae_count e - 1))))"
    unfolding t'(2) using drop_entry_map [OF inv i(2)] set_count_map [OF inv i(2)] a by simp
  moreover have "atoms_inv casemap t'"
    unfolding t'(2) using drop_entry_inv [OF inv i(2)] set_count_inv [OF inv i(2)] by simp
  ultimately show ?thesis using t'(1) m mem by (auto simp: delete_spec_def)
qed

lemma find_atom_refines_spec:
  assumes inv: "atoms_inv casemap t" and name: "check_atom_name str = None"
  shows "find_atom casemap t str =
    (case names_map casemap t (folded casemap str) of None \<Rightarrow> Inl STATUS_OBJECT_NAME_NOT_FOUND | Some (a, n) \<Rightarrow> Inr a)"
proof (cases "find_atom_entry casemap t str (hash_strW casemap str HASH_SIZE)")
  case None
  moreover from this have "names_map casemap t (folded casemap str) = None" by (simp add: find_atom_entry_None [OF inv])
  ultimately show ?thesis using name by (simp add: find_atom_def)
next
  case (Some i)
  then obtain e where e: "atoms t i = Some e" "folded casemap (ae_str e) = folded casemap str"
    unfolding find_atom_entry_Some [OF inv] by blast
  then have "names_map casemap t (folded casemap str) = Some (ae_atom e, ae_count e)"
    unfolding names_map_Some [OF inv] by blast
  with Some e name show ?thesis by (simp add: find_atom_def)
qed

lemma grab_atom_refines:
  assumes inv: "atoms_inv casemap t"
  shows "atoms_inv casemap (fst (grab_atom t a))"
proof (cases "get_atom_entry t a")
  case (Inr e)
  then have "atoms t (a - MIN_STR_ATOM) = Some e" by (simp add: get_atom_entry_Inr [OF inv])
  from set_count_inv [OF inv this] Inr inv show ?thesis by (simp add: grab_atom_def)
qed (use inv in \<open>simp add: grab_atom_def\<close>)

lemma add_atom_inv: "atoms_inv casemap t \<Longrightarrow> atoms_inv casemap (fst (add_atom casemap mem_ok t str))"
  using add_atom_refines_spec [of casemap t str mem_ok]
  by (cases "check_atom_name str"; cases "add_atom casemap mem_ok t str") (auto simp: add_atom_def)

lemma delete_atom_inv: "atoms_inv casemap t \<Longrightarrow> atoms_inv casemap (fst (delete_atom t a))"
  using delete_atom_refines_spec [of casemap t a] by (cases "delete_atom t a") auto

section \<open>Properties\<close>

text \<open>The requests that change a table.\<close>

datatype atom_request = AddAtom bool "wchar list" | DeleteAtom nat | GrabAtom nat | ReleaseAtom nat

fun atom_step :: "(nat \<Rightarrow> u16) \<Rightarrow> atom_request \<Rightarrow> atom_table \<Rightarrow> atom_table" where
  "atom_step casemap (AddAtom mem_ok str) t = fst (add_atom casemap mem_ok t str)"
| "atom_step casemap (DeleteAtom a) t = fst (delete_atom t a)"
| "atom_step casemap (GrabAtom a) t = fst (grab_atom t a)"
| "atom_step casemap (ReleaseAtom a) t = release_atom t a"

text \<open>
  C18. Whatever sequence of requests is served from a new atom table, with any case table and any
  memory failures, the table stays well-formed: slots and hash chains describe the same entries,
  every handle is its slot number plus 0xc000, no two entries have the same name up to case.
\<close>

theorem atom_table_invariant:
  "atoms_inv casemap (fold (atom_step casemap) reqs create_atom_table)"
proof -
  have "atoms_inv casemap t \<Longrightarrow> atoms_inv casemap (fold (atom_step casemap) reqs t)" for t
  proof (induction reqs arbitrary: t)
    case (Cons r reqs)
    have "atoms_inv casemap (atom_step casemap r t)"
      using Cons.prems add_atom_inv delete_atom_inv grab_atom_refines by (cases r) (auto simp: release_atom_def)
    with Cons.IH show ?case by simp
  qed simp
  with create_atom_table_inv show ?thesis by blast
qed

text \<open>
  C16. \<^verbatim>\<open>add_atom\<close> refines its specification on the map of names: a known name, in any spelling, gives
  its handle and one more reference; a new name gets an unused handle above 0xc000 with one
  reference; the request fails only without memory or when all 0x3fff handles are in use.
\<close>

theorem add_atom_refines:
  assumes "atoms_inv casemap t" and "check_atom_name str = None" and "add_atom casemap mem_ok t str = (t', res)"
  shows "atoms_inv casemap t' \<and> add_spec mem_ok (names_map casemap t) (folded casemap str) (names_map casemap t') res"
  using assms by (rule add_atom_refines_spec)

text \<open>The case table that folds nothing, a name, and a table that holds it.\<close>

definition ex_name :: "wchar list" where
  "ex_name = [0x41, 0x62]"

definition ex_table :: atom_table where
  "ex_table = fst (add_atom (\<lambda>_. 0) True create_atom_table ex_name)"

lemma ex_name_valid: "check_atom_name ex_name = None"
  by code_simp

lemma ex_table_inv: "atoms_inv (\<lambda>_. 0) ex_table"
  unfolding ex_table_def by (rule add_atom_inv) (rule create_atom_table_inv)

theorem add_atom_refines_witness:
  "add_spec True (names_map (\<lambda>_. 0) ex_table) (folded (\<lambda>_. 0) ex_name)
     (names_map (\<lambda>_. 0) (fst (add_atom (\<lambda>_. 0) True ex_table ex_name)))
     (snd (add_atom (\<lambda>_. 0) True ex_table ex_name))"
  using add_atom_refines [OF ex_table_inv ex_name_valid surjective_pairing, of True] by blast

text \<open>
  C17. \<^verbatim>\<open>delete_atom\<close> refines its specification: a handle in use loses one reference, its name is
  removed exactly when that was the last one, and no other name is affected; any other handle is
  refused with STATUS_INVALID_HANDLE and nothing changes.
\<close>

theorem delete_atom_refines:
  assumes "atoms_inv casemap t" and "delete_atom t a = (t', res)"
  shows "atoms_inv casemap t' \<and> delete_spec (names_map casemap t) a (names_map casemap t') res"
  using assms by (rule delete_atom_refines_spec)

theorem delete_atom_refines_witness:
  "atoms_inv (\<lambda>_. 0) (fst (delete_atom ex_table 0xc001)) \<and>
   delete_spec (names_map (\<lambda>_. 0) ex_table) 0xc001
     (names_map (\<lambda>_. 0) (fst (delete_atom ex_table 0xc001))) (snd (delete_atom ex_table 0xc001))"
  by (rule delete_atom_refines [OF ex_table_inv surjective_pairing])

text \<open>
  C19. \<^verbatim>\<open>find_atom\<close> through the hash chains agrees with a scan of the whole table for the case-folded
  name.
\<close>

theorem find_atom_scan:
  assumes "atoms_inv casemap t" and "check_atom_name str = None"
  shows "find_atom casemap t str =
    (case names_map casemap t (folded casemap str) of None \<Rightarrow> Inl STATUS_OBJECT_NAME_NOT_FOUND | Some (a, n) \<Rightarrow> Inr a)"
  using assms by (rule find_atom_refines_spec)

theorem find_atom_scan_witness:
  "find_atom (\<lambda>_. 0) ex_table ex_name =
     (case names_map (\<lambda>_. 0) ex_table (folded (\<lambda>_. 0) ex_name) of
        None \<Rightarrow> Inl STATUS_OBJECT_NAME_NOT_FOUND | Some (a, n) \<Rightarrow> Inr a)"
  by (rule find_atom_scan [OF ex_table_inv ex_name_valid])

end
