(* ===== verification/Objects.thy ===== *)
theory Objects
  imports Wine_Prelude "HOL-Library.Multiset"
begin

text \<open>
  The reference-counted objects of \<^verbatim>\<open>server/object.c\<close>. An object is named by its index in the list of
  all objects ever allocated; a freed object keeps its place with a reference count of zero. \<open>holds\<close>
  lists the references an object owns and drops when it is destroyed: its parent in the namespace
  (dropped by \<^verbatim>\<open>unlink_named_object\<close>) and those that the \<^verbatim>\<open>destroy\<close> operation of its type releases.

  A failed \<^verbatim>\<open>assert\<close>, a write outside an array and a use of a NULL pointer all set \<open>failed\<close>. The
  counts are natural numbers: the assertion in \<^verbatim>\<open>grab_object\<close> stops the server before they overflow.
\<close>

type_synonym oid = nat
type_synonym pid = nat
type_synonym handle = u32

section \<open>State\<close>

text \<open>The operations structure of an object tells its type; the counters of a type (\<^verbatim>\<open>struct type_descr\<close>).\<close>

type_synonym otype = nat

record type_counts =
  tc_obj_count :: int
  tc_obj_max :: int
  tc_handle_count :: int
  tc_handle_max :: int

record obj =
  refcount :: nat
  handle_count :: nat
  is_permanent :: bool
  otype :: otype
  holds :: "oid list"

record handle_entry =
  he_ptr :: "oid option"
  he_access :: u32

text \<open>
  A handle table (\<^verbatim>\<open>struct handle_table\<close> of \<^verbatim>\<open>server/handle.c\<close>). \<open>ht_entries\<close> is the array; beyond
  \<open>ht_last\<close> its contents are never read.
\<close>

record handle_table =
  ht_count :: nat
  ht_last :: int
  ht_free :: nat
  ht_entries :: "nat \<Rightarrow> handle_entry"

record server =
  objs :: "obj list"
  types :: "otype \<Rightarrow> type_counts"
  tables :: "handle_table option list"
  global_table :: "handle_table option"
  failed :: bool

definition fail :: "server \<Rightarrow> server" where
  "fail s = s\<lparr>failed := True\<rparr>"

abbreviation upd_obj :: "oid \<Rightarrow> (obj \<Rightarrow> obj) \<Rightarrow> server \<Rightarrow> server" where
  "upd_obj ob f s \<equiv> s\<lparr>objs := (objs s)[ob := f (objs s ! ob)]\<rparr>"

section \<open>Operations\<close>

definition alloc_object :: "bool \<Rightarrow> otype \<Rightarrow> oid list \<Rightarrow> server \<Rightarrow> server \<times> oid result" where
  "alloc_object mem_ok ty refs s =
     (if \<not> mem_ok then (s, Inl STATUS_NO_MEMORY)
      else let tc = types s ty; n = tc_obj_count tc + 1
           in (s\<lparr>objs := objs s @ [\<lparr>refcount = 1, handle_count = 0, is_permanent = False,
                                       otype = ty, holds = refs\<rparr>],
                 types := (types s)(ty := tc\<lparr>tc_obj_count := n, tc_obj_max := max (tc_obj_max tc) n\<rparr>)\<rparr>,
               Inr (length (objs s))))"

definition make_object_permanent :: "oid \<Rightarrow> server \<Rightarrow> server" where
  "make_object_permanent ob s = upd_obj ob (\<lambda>x. x\<lparr>is_permanent := True\<rparr>) s"

definition make_object_temporary :: "oid \<Rightarrow> server \<Rightarrow> server" where
  "make_object_temporary ob s = upd_obj ob (\<lambda>x. x\<lparr>is_permanent := False\<rparr>) s"

definition grab_object :: "oid \<Rightarrow> server \<Rightarrow> server" where
  "grab_object ob s = upd_obj ob (\<lambda>x. x\<lparr>refcount := refcount x + 1\<rparr>) s"

text \<open>\<^verbatim>\<open>free_object\<close>; the object is gone, and so is what it held.\<close>

definition free_object :: "oid \<Rightarrow> server \<Rightarrow> server" where
  "free_object ob s =
     (let ty = otype (objs s ! ob); tc = types s ty
      in (upd_obj ob (\<lambda>x. x\<lparr>holds := []\<rparr>) s)
           \<lparr>types := (types s)(ty := tc\<lparr>tc_obj_count := tc_obj_count tc - 1\<rparr>)\<rparr>)"

text \<open>
  \<^verbatim>\<open>release_object\<close> calls itself through the destroy operation when the last reference goes. The
  recursion is a list of references still to be dropped: those of a destroyed object come before the
  rest, in their order. The asserts are the conditions under which it fails.
\<close>

definition total_refs :: "server \<Rightarrow> nat" where
  "total_refs s = sum_list (map refcount (objs s))"

lemma sum_list_update_nat:
  "i < length xs \<Longrightarrow> sum_list (xs[i := v]) + xs ! i = sum_list xs + (v :: nat)"
  by (induction xs arbitrary: i) (auto split: nat.split)

lemma total_refs_upd:
  "ob < length (objs s) \<Longrightarrow> total_refs (upd_obj ob f s) + refcount (objs s ! ob) = total_refs s + refcount (f (objs s ! ob))"
  using sum_list_update_nat [of ob "map refcount (objs s)"] by (simp add: total_refs_def map_update)

lemma total_refs_free: "ob < length (objs s) \<Longrightarrow> total_refs (free_object ob s) = total_refs s"
  using total_refs_upd [of ob s "\<lambda>x. x\<lparr>holds := []\<rparr>"] by (simp add: free_object_def Let_def total_refs_def)

lemma total_refs_dec:
  "ob < length (objs s) \<Longrightarrow> refcount (objs s ! ob) \<noteq> 0 \<Longrightarrow>
     total_refs (upd_obj ob (\<lambda>x. x\<lparr>refcount := refcount x - 1\<rparr>) s) < total_refs s"
  using total_refs_upd [of ob s "\<lambda>x. x\<lparr>refcount := refcount x - 1\<rparr>"] by simp

function release_list :: "oid list \<Rightarrow> server \<Rightarrow> server" where
  "release_list [] s = s"
| "release_list (ob # obs) s =
     (if ob < length (objs s) \<and> refcount (objs s ! ob) \<noteq> 0 then
        let s1 = upd_obj ob (\<lambda>x. x\<lparr>refcount := refcount x - 1\<rparr>) s
        in if refcount (objs s1 ! ob) = 0 then
             if handle_count (objs s1 ! ob) = 0
             then release_list (holds (objs s1 ! ob) @ obs) (free_object ob s1)
             else fail s1
           else release_list obs s1
      else fail s)"
  by pat_completeness auto
termination
proof (relation "measures [\<lambda>(_, s). total_refs s, \<lambda>(obs, _). length obs]", goal_cases)
  case (2 ob obs s s1)
  then show ?case using total_refs_dec [of ob s] total_refs_free [of ob s1] by simp
next
  case (3 ob obs s s1)
  then show ?case using total_refs_dec [of ob s] by simp
qed simp

declare release_list.simps(2) [simp del]

definition release_object :: "oid \<Rightarrow> server \<Rightarrow> server" where
  "release_object ob s = release_list [ob] s"

definition map_access :: "u32 \<Rightarrow> u32 \<times> u32 \<times> u32 \<times> u32 \<Rightarrow> u32" where
  "map_access access mapping =
     (case mapping of (rd, wr, ex, al) \<Rightarrow>
        let a1 = (if access AND 0x80000000 \<noteq> 0 then access OR rd else access);
            a2 = (if a1 AND 0x40000000 \<noteq> 0 then a1 OR wr else a1);
            a3 = (if a2 AND 0x20000000 \<noteq> 0 then a2 OR ex else a2);
            a4 = (if a3 AND 0x10000000 \<noteq> 0 then a3 OR al else a3)
        in a4 AND NOT 0xf0000000)"

section \<open>Accounting\<close>

text \<open>
  The references that exist: from handle entries, from the objects that hold others, and a multiset
  of further references \<open>P\<close> held elsewhere (by a request being served, by a thread). \<open>H\<close> are entries of a
  handle table that is being built or torn down and belongs to no process.
\<close>

definition table_refs :: "handle_table \<Rightarrow> oid multiset" where
  "table_refs t = mset (List.map_filter (\<lambda>i. he_ptr (ht_entries t i)) [0..<nat (ht_last t + 1)])"

definition opt_refs :: "handle_table option \<Rightarrow> oid multiset" where
  "opt_refs t = (case t of None \<Rightarrow> {#} | Some t \<Rightarrow> table_refs t)"

definition handle_refs :: "server \<Rightarrow> oid multiset" where
  "handle_refs s = sum_list (map opt_refs (tables s)) + opt_refs (global_table s)"

definition hold_refs :: "server \<Rightarrow> oid multiset" where
  "hold_refs s = mset (concat (map holds (objs s)))"

definition accounted :: "server \<Rightarrow> oid multiset \<Rightarrow> oid multiset \<Rightarrow> bool" where
  "accounted s H P \<longleftrightarrow>
     (\<forall>ob. ob \<in># handle_refs s + H + hold_refs s + P \<longrightarrow> ob < length (objs s)) \<and>
     (\<forall>ob < length (objs s). refcount (objs s ! ob) = count (handle_refs s + H + hold_refs s + P) ob \<and>
        handle_count (objs s ! ob) = count (handle_refs s + H) ob \<and>
        (refcount (objs s ! ob) = 0 \<longrightarrow> holds (objs s ! ob) = []))"

lemma accountedD:
  assumes "accounted s H P"
  shows "ob \<in># handle_refs s + H + hold_refs s + P \<Longrightarrow> ob < length (objs s)"
    and "ob < length (objs s) \<Longrightarrow> refcount (objs s ! ob) = count (handle_refs s + H + hold_refs s + P) ob"
    and "ob < length (objs s) \<Longrightarrow> handle_count (objs s ! ob) = count (handle_refs s + H) ob"
    and "ob < length (objs s) \<Longrightarrow> refcount (objs s ! ob) = 0 \<Longrightarrow> holds (objs s ! ob) = []"
  using assms by (auto simp: accounted_def)

lemma handle_refs_objs [simp]: "handle_refs (s\<lparr>objs := x\<rparr>) = handle_refs s" "handle_refs (s\<lparr>types := y\<rparr>) = handle_refs s"
  by (simp_all add: handle_refs_def)

lemma hold_refs_types [simp]: "hold_refs (s\<lparr>types := y\<rparr>) = hold_refs s"
  by (simp add: hold_refs_def)

lemma mset_concat_update:
  "i < length xss \<Longrightarrow> mset (concat (xss[i := ys])) + mset (xss ! i) = mset (concat xss) + mset ys"
  by (induction xss arbitrary: i) (auto split: nat.split simp: ac_simps)

lemma hold_refs_upd:
  "ob < length (objs s) \<Longrightarrow>
     hold_refs (upd_obj ob f s) + mset (holds (objs s ! ob)) = hold_refs s + mset (holds (f (objs s ! ob)))"
  using mset_concat_update [of ob "map holds (objs s)"] by (simp add: hold_refs_def map_update)

text \<open>A count update that matches a change of the references keeps the accounts.\<close>

lemma accounted_update:
  assumes acc: "accounted s H P" and ob: "ob < length (objs s)"
    and cnt: "refcount (f (objs s ! ob)) = count (handle_refs s + H' + hold_refs s + P') ob"
      "handle_count (f (objs s ! ob)) = count (handle_refs s + H') ob"
    and pos: "refcount (f (objs s ! ob)) \<noteq> 0 \<or> holds (objs s ! ob) = []" and ho: "holds (f (objs s ! ob)) = holds (objs s ! ob)"
    and other: "\<And>x. x \<noteq> ob \<Longrightarrow> count H' x = count H x" "\<And>x. x \<noteq> ob \<Longrightarrow> count P' x = count P x"
  shows "accounted (upd_obj ob f s) H' P'"
proof -
  have hr: "hold_refs (upd_obj ob f s) = hold_refs s" using hold_refs_upd [OF ob, of f] ho by simp
  have mem: "x < length (objs s)" if "x \<in># handle_refs s + H' + hold_refs s + P'" for x
  proof (cases "x = ob")
    case False
    then have "x \<in># handle_refs s + H + hold_refs s + P"
      using that other [OF False] by (auto simp: count_greater_zero_iff [symmetric] simp del: count_greater_zero_iff)
    then show ?thesis using accountedD(1) [OF acc] by simp
  qed (use ob in simp)
  show ?thesis
    unfolding accounted_def hr
  proof (intro conjI allI impI)
    fix x assume "x < length (objs (upd_obj ob f s))"
    then have x: "x < length (objs s)" by simp
    show "refcount (objs (upd_obj ob f s) ! x) = count (handle_refs (upd_obj ob f s) + H' + hold_refs s + P') x"
      using accountedD(2) [OF acc x] cnt other [of x] ob by (cases "x = ob") simp_all
    show "handle_count (objs (upd_obj ob f s) ! x) = count (handle_refs (upd_obj ob f s) + H') x"
      using accountedD(3) [OF acc x] cnt other [of x] ob by (cases "x = ob") simp_all
    show "holds (objs (upd_obj ob f s) ! x) = []" if "refcount (objs (upd_obj ob f s) ! x) = 0"
      using accountedD(4) [OF acc x] that ob pos ho by (cases "x = ob") simp_all
  qed (use mem in simp)
qed

lemma grab_object_accounted:
  assumes "accounted s H P" and "ob < length (objs s)"
  shows "accounted (grab_object ob s) H (add_mset ob P)"
  unfolding grab_object_def
  using assms accountedD(2,3) [OF assms] by (intro accounted_update [OF assms]) auto

lemma alloc_object_accounted:
  assumes acc: "accounted s H P" and res: "alloc_object mem_ok ty refs s = (s', Inr ob)"
    and sub: "mset refs \<subseteq># P"
  shows "accounted s' H (add_mset ob (P - mset refs)) \<and> ob < length (objs s')"
proof -
  let ?o = "\<lparr>refcount = 1, handle_count = 0, is_permanent = False, otype = ty, holds = refs\<rparr>"
  have s': "objs s' = objs s @ [?o]" "tables s' = tables s" "global_table s' = global_table s" "ob = length (objs s)"
    using res by (auto simp: alloc_object_def Let_def split: if_splits)
  have hr: "handle_refs s' = handle_refs s" using s' by (simp add: handle_refs_def)
  have ho: "hold_refs s' = hold_refs s + mset refs" using s' by (simp add: hold_refs_def)
  have all: "handle_refs s' + H + hold_refs s' + add_mset ob (P - mset refs) = add_mset ob (handle_refs s + H + hold_refs s + P)"
    unfolding hr ho using sub by (simp add: subset_mset.add_diff_inverse add.assoc)
  have new: "ob \<notin># handle_refs s + H + hold_refs s + P" using accountedD(1) [OF acc, of ob] s'(4) by auto
  show ?thesis
    unfolding accounted_def all unfolding hr
  proof (intro conjI allI impI)
    fix x assume "x < length (objs s')"
    then have x: "x < length (objs s) \<or> x = ob" using s' by (auto simp: less_Suc_eq)
    have old: "objs s' ! x = (if x < length (objs s) then objs s ! x else ?o)" using x s' by (auto simp: nth_append)
    show "refcount (objs s' ! x) = count (add_mset ob (handle_refs s + H + hold_refs s + P)) x"
      using accountedD(2) [OF acc, of x] x old s'(4) new by (auto simp: not_in_iff)
    show "handle_count (objs s' ! x) = count (handle_refs s + H) x"
      using accountedD(3) [OF acc, of x] x old s'(4) new by (auto simp: not_in_iff)
    show "holds (objs s' ! x) = []" if "refcount (objs s' ! x) = 0"
      using accountedD(4) [OF acc, of x] x old s'(4) that by auto
  next
    fix x assume "x \<in># add_mset ob (handle_refs s + H + hold_refs s + P)"
    then show "x < length (objs s')" using accountedD(1) [OF acc, of x] s' by auto
  next
    show "ob < length (objs s')" using s' by simp
  qed
qed

lemma release_dec_accounted:
  assumes acc: "accounted s H (add_mset ob P)" and nz: "refcount (objs s ! ob) \<noteq> 1 \<or> holds (objs s ! ob) = []"
  shows "accounted (upd_obj ob (\<lambda>x. x\<lparr>refcount := refcount x - 1\<rparr>) s) H P"
proof -
  have ob: "ob < length (objs s)" using accountedD(1) [OF acc, of ob] by simp
  show ?thesis
    using accountedD(2,3) [OF acc ob] nz by (intro accounted_update [OF acc ob]) auto
qed

text \<open>Destroying an object hands the references it held over to the caller.\<close>

lemma release_free_accounted:
  assumes acc: "accounted s H (add_mset ob P)" and one: "refcount (objs s ! ob) = 1"
  shows "accounted (free_object ob (upd_obj ob (\<lambda>x. x\<lparr>refcount := refcount x - 1\<rparr>) s)) H (mset (holds (objs s ! ob)) + P)"
    and "handle_count (objs s ! ob) = 0"
proof -
  let ?s = "free_object ob (upd_obj ob (\<lambda>x. x\<lparr>refcount := refcount x - 1\<rparr>) s)"
  let ?all = "handle_refs s + H + hold_refs s + P"
  have ob: "ob < length (objs s)" using accountedD(1) [OF acc, of ob] by simp
  have none: "count ?all ob = 0" using accountedD(2) [OF acc ob] one by simp
  show hc: "handle_count (objs s ! ob) = 0" using accountedD(3) [OF acc ob] none by simp
  have objs: "objs ?s = (objs s)[ob := (objs s ! ob)\<lparr>refcount := 0, holds := []\<rparr>]"
    using ob one by (simp add: free_object_def Let_def)
  have hr: "handle_refs ?s = handle_refs s" by (simp add: free_object_def Let_def)
  have "hold_refs ?s + mset (holds (objs s ! ob)) = hold_refs s"
    using hold_refs_upd [OF ob, of "\<lambda>x. x\<lparr>refcount := 0, holds := []\<rparr>"] unfolding hold_refs_def objs by simp
  then have all: "handle_refs ?s + H + hold_refs ?s + (mset (holds (objs s ! ob)) + P) = ?all"
    unfolding hr by (metis add.assoc)
  show "accounted ?s H (mset (holds (objs s ! ob)) + P)"
    unfolding accounted_def all unfolding hr
  proof (intro conjI allI impI)
    fix x assume "x \<in># ?all"
    then show "x < length (objs ?s)" using accountedD(1) [OF acc, of x] objs by simp
  next
    fix x assume "x < length (objs ?s)"
    then have x: "x < length (objs s)" using objs by simp
    show "refcount (objs ?s ! x) = count ?all x"
      using accountedD(2) [OF acc x] none ob unfolding objs by (cases "x = ob") simp_all
    show "handle_count (objs ?s ! x) = count (handle_refs s + H) x"
      using accountedD(3) [OF acc x] hc ob unfolding objs by (cases "x = ob") simp_all
    show "holds (objs ?s ! x) = []" if "refcount (objs ?s ! x) = 0"
      using accountedD(4) [OF acc x] that ob unfolding objs by (cases "x = ob") simp_all
  qed
qed

lemma release_list_accounted:
  "accounted s H (mset obs + P) \<Longrightarrow>
     accounted (release_list obs s) H P \<and> failed (release_list obs s) = failed s \<and>
     tables (release_list obs s) = tables s \<and> global_table (release_list obs s) = global_table s \<and>
     length (objs (release_list obs s)) = length (objs s)"
proof (induction obs s arbitrary: P rule: release_list.induct)
  case (2 ob obs s)
  let ?s1 = "upd_obj ob (\<lambda>x. x\<lparr>refcount := refcount x - 1\<rparr>) s"
  have acc: "accounted s H (add_mset ob (mset obs + P))" using "2.prems" by simp
  have ob: "ob < length (objs s)" using accountedD(1) [OF acc, of ob] by simp
  have rc: "refcount (objs s ! ob) \<noteq> 0" using accountedD(2) [OF acc ob] by simp
  have valid: "ob < length (objs s) \<and> refcount (objs s ! ob) \<noteq> 0" using ob rc by simp
  show ?case
  proof (cases "refcount (objs s ! ob) = 1")
    case True
    note fr = release_free_accounted [OF acc True]
    have zero: "refcount (objs ?s1 ! ob) = 0" "handle_count (objs ?s1 ! ob) = 0" using True ob fr(2) by simp_all
    have step: "release_list (ob # obs) s = release_list (holds (objs ?s1 ! ob) @ obs) (free_object ob ?s1)"
      using valid zero by (simp add: release_list.simps(2) Let_def)
    have "accounted (free_object ob ?s1) H (mset (holds (objs ?s1 ! ob) @ obs) + P)"
      using fr(1) ob by (simp add: add.assoc)
    from "2.IH"(1) [OF valid refl zero this] show ?thesis unfolding step by (simp add: free_object_def Let_def)
  next
    case False
    then have nz: "refcount (objs ?s1 ! ob) \<noteq> 0" using ob rc by simp
    have step: "release_list (ob # obs) s = release_list obs ?s1"
      using valid nz by (simp add: release_list.simps(2) Let_def)
    have "accounted ?s1 H (mset obs + P)" using release_dec_accounted [OF acc] False by simp
    from "2.IH"(2) [OF valid refl nz this] show ?thesis unfolding step by simp
  qed
qed simp

lemma release_object_accounted:
  assumes "accounted s H (add_mset ob P)"
  shows "accounted (release_object ob s) H P" and "failed (release_object ob s) = failed s"
    and "tables (release_object ob s) = tables s" and "global_table (release_object ob s) = global_table s"
    and "length (objs (release_object ob s)) = length (objs s)"
  using release_list_accounted [of s H "[ob]" P] assms by (simp_all add: release_object_def)

text \<open>Releasing references never changes the type of an object or whether it is permanent.\<close>

definition obj_frame :: "server \<Rightarrow> (bool \<times> otype) list" where
  "obj_frame s = map (\<lambda>x. (is_permanent x, otype x)) (objs s)"

lemma obj_frame_upd:
  assumes "\<And>x. is_permanent (f x) = is_permanent x" and "\<And>x. otype (f x) = otype x"
  shows "obj_frame (upd_obj ob f s) = obj_frame s"
proof (cases "ob < length (objs s)")
  case True
  then have "map (\<lambda>x. (is_permanent x, otype x)) (objs s) ! ob = (is_permanent (f (objs s ! ob)), otype (f (objs s ! ob)))"
    using assms by simp
  then show ?thesis by (simp add: obj_frame_def map_update list_update_same_conv True)
qed (simp add: obj_frame_def list_update_beyond)

lemma obj_frame_simps [simp]:
  "obj_frame (s\<lparr>types := y\<rparr>) = obj_frame s" "obj_frame (s\<lparr>failed := b\<rparr>) = obj_frame s"
  "obj_frame (s\<lparr>tables := ts\<rparr>) = obj_frame s" "obj_frame (s\<lparr>global_table := g\<rparr>) = obj_frame s"
  "obj_frame (fail s) = obj_frame s"
  by (simp_all add: obj_frame_def fail_def)

lemma obj_frame_free [simp]: "obj_frame (free_object ob s) = obj_frame s"
  by (simp add: free_object_def Let_def obj_frame_upd)

lemma obj_frame_grab [simp]: "obj_frame (grab_object ob s) = obj_frame s"
  by (simp add: grab_object_def obj_frame_upd)

lemma obj_frame_release_list: "obj_frame (release_list obs s) = obj_frame s"
proof (induction obs s rule: release_list.induct)
  case (2 ob obs s)
  then show ?case by (simp add: release_list.simps(2) Let_def obj_frame_upd)
qed simp

lemma obj_frame_release [simp]: "obj_frame (release_object ob s) = obj_frame s"
  by (simp add: release_object_def obj_frame_release_list)

lemma release_list_failed: "failed s \<Longrightarrow> failed (release_list obs s)"
proof (induction obs s rule: release_list.induct)
  case (2 ob obs s)
  then show ?case by (simp add: release_list.simps(2) Let_def fail_def free_object_def)
qed simp

lemma release_object_failed: "failed s \<Longrightarrow> failed (release_object ob s)"
  by (simp add: release_object_def release_list_failed)

end
