(* ===== verification/Handles.thy ===== *)
theory Handles
  imports Objects
begin

text \<open>
  Handle tables (\<^verbatim>\<open>server/handle.c\<close>): each process has a growing array of entries, a handle is four
  times the index plus one, and global handles live in a table of their own under obfuscated values.
  What the code reaches through function pointers or in other parts of the server is collected in
  \<open>handle_env\<close>: the access mapping and the close veto of an object's type, the access check against
  the security descriptor, the process that a process object stands for with its token, and the
  objects behind the pseudo-handles of the current thread. The memory of a table is allocated with
  it: whether an allocation succeeds is an argument. A table is an object of its own, of which the
  process holds the only reference; it is part of the process here.
\<close>

section \<open>Environment\<close>

record handle_env =
  map_access_op :: "oid \<Rightarrow> u32 \<Rightarrow> u32"
  close_handle_op :: "oid \<Rightarrow> pid \<Rightarrow> handle \<Rightarrow> bool"
  check_access_op :: "oid option \<Rightarrow> oid \<Rightarrow> u32 \<Rightarrow> u32 result"
  process_ops :: otype
  process_of :: "oid \<Rightarrow> pid"
  process_token :: "pid \<Rightarrow> oid"
  cur_process :: pid
  cur_process_obj :: oid
  cur_thread_obj :: oid
  cur_process_token :: oid
  cur_thread_token :: "oid option"
  cur_imp_token :: "oid option"

abbreviation RESERVED_SHIFT :: nat where "RESERVED_SHIFT \<equiv> 26"
abbreviation RESERVED_INHERIT :: u32 where "RESERVED_INHERIT \<equiv> 0x04000000"
abbreviation RESERVED_CLOSE_PROTECT :: u32 where "RESERVED_CLOSE_PROTECT \<equiv> 0x08000000"
abbreviation RESERVED_ALL :: u32 where "RESERVED_ALL \<equiv> 0x0c000000"
abbreviation MIN_HANDLE_ENTRIES :: nat where "MIN_HANDLE_ENTRIES \<equiv> 32"
abbreviation MAX_HANDLE_ENTRIES :: nat where "MAX_HANDLE_ENTRIES \<equiv> 0x00ffffff"
abbreviation HANDLE_OBFUSCATOR :: u32 where "HANDLE_OBFUSCATOR \<equiv> 0x544a4def"
abbreviation OBJ_INHERIT :: u32 where "OBJ_INHERIT \<equiv> 0x2"
abbreviation MAXIMUM_ALLOWED :: u32 where "MAXIMUM_ALLOWED \<equiv> 0x02000000"
abbreviation GENERIC_ALL :: u32 where "GENERIC_ALL \<equiv> 0x10000000"
abbreviation DUPLICATE_CLOSE_SOURCE :: u32 where "DUPLICATE_CLOSE_SOURCE \<equiv> 0x1"
abbreviation DUPLICATE_SAME_ACCESS :: u32 where "DUPLICATE_SAME_ACCESS \<equiv> 0x2"
abbreviation DUPLICATE_SAME_ATTRIBUTES :: u32 where "DUPLICATE_SAME_ATTRIBUTES \<equiv> 0x4"
abbreviation DUPLICATE_MAKE_GLOBAL :: u32 where "DUPLICATE_MAKE_GLOBAL \<equiv> 0x80000000"

section \<open>Handle values\<close>

definition index_to_handle :: "nat \<Rightarrow> handle" where
  "index_to_handle index = push_bit 2 (word_of_nat (index + 1))"

definition handle_to_index :: "handle \<Rightarrow> int" where
  "handle_to_index handle = uint (drop_bit 2 handle) - 1"

definition handle_is_global :: "handle \<Rightarrow> bool" where
  "handle_is_global handle \<longleftrightarrow> handle XOR HANDLE_OBFUSCATOR \<le> 0x03fffffc"

definition handle_local_to_global :: "handle \<Rightarrow> handle" where
  "handle_local_to_global handle = (if handle = 0 then 0 else handle XOR HANDLE_OBFUSCATOR)"

definition handle_global_to_local :: "handle \<Rightarrow> handle" where
  "handle_global_to_local handle = handle XOR HANDLE_OBFUSCATOR"

section \<open>Tables\<close>

datatype table_sel = Local pid | Global

definition table_of :: "server \<Rightarrow> table_sel \<Rightarrow> handle_table option" where
  "table_of s sel =
     (case sel of Local p \<Rightarrow> if p < length (tables s) then tables s ! p else None
                | Global \<Rightarrow> global_table s)"

definition set_table :: "table_sel \<Rightarrow> handle_table \<Rightarrow> server \<Rightarrow> server" where
  "set_table sel t s =
     (case sel of Local p \<Rightarrow> s\<lparr>tables := (tables s)[p := Some t]\<rparr>
                | Global \<Rightarrow> s\<lparr>global_table := Some t\<rparr>)"

definition grab_object_for_handle :: "oid \<Rightarrow> server \<Rightarrow> server" where
  "grab_object_for_handle ob s =
     (let ty = otype (objs s ! ob); tc = types s ty; n = tc_handle_count tc + 1;
          s1 = (upd_obj ob (\<lambda>x. x\<lparr>handle_count := handle_count x + 1\<rparr>) s)
                 \<lparr>types := (types s)(ty := tc\<lparr>tc_handle_count := n, tc_handle_max := max (tc_handle_max tc) n\<rparr>)\<rparr>
      in grab_object ob s1)"

definition release_object_from_handle :: "oid \<Rightarrow> server \<Rightarrow> server" where
  "release_object_from_handle ob s =
     (if handle_count (objs s ! ob) = 0 then fail s
      else let ty = otype (objs s ! ob); tc = types s ty
           in release_object ob
                ((upd_obj ob (\<lambda>x. x\<lparr>handle_count := handle_count x - 1\<rparr>) s)
                   \<lparr>types := (types s)(ty := tc\<lparr>tc_handle_count := tc_handle_count tc - 1\<rparr>)\<rparr>))"

text \<open>\<open>junk\<close> is what the fresh memory happens to hold.\<close>

definition alloc_handle_table :: "bool \<Rightarrow> (nat \<Rightarrow> handle_entry) \<Rightarrow> nat \<Rightarrow> handle_table result" where
  "alloc_handle_table mem_ok junk n =
     (if mem_ok
      then Inr \<lparr>ht_count = (if n < MIN_HANDLE_ENTRIES then MIN_HANDLE_ENTRIES else n),
                ht_last = - 1, ht_free = 0, ht_entries = junk\<rparr>
      else Inl STATUS_NO_MEMORY)"

definition grow_handle_table :: "bool \<Rightarrow> handle_table \<Rightarrow> handle_table result" where
  "grow_handle_table mem_ok table =
     (let n = min (ht_count table * 2) MAX_HANDLE_ENTRIES
      in if n = ht_count table \<or> \<not> mem_ok then Inl STATUS_INSUFFICIENT_RESOURCES
         else Inr (table\<lparr>ht_count := n\<rparr>))"

definition first_free :: "handle_table \<Rightarrow> nat" where
  "first_free table =
     (case List.find (\<lambda>i. he_ptr (ht_entries table i) = None) [ht_free table..<nat (ht_last table + 1)] of
        Some i \<Rightarrow> i
      | None \<Rightarrow> max (ht_free table) (nat (ht_last table + 1)))"

text \<open>
  The entry that \<^verbatim>\<open>alloc_entry\<close> fills in and the table after it; growing the table may fail.
\<close>

definition alloc_slot :: "bool \<Rightarrow> handle_table \<Rightarrow> (handle_table \<times> nat) result" where
  "alloc_slot mem_ok table =
     (let i = first_free table
      in if int i \<le> ht_last table then Inr (table\<lparr>ht_free := i + 1\<rparr>, i)
         else case (if i \<ge> ht_count table then grow_handle_table mem_ok table else Inr table) of
                Inl err \<Rightarrow> Inl err
              | Inr table' \<Rightarrow> Inr (table'\<lparr>ht_last := int i, ht_free := i + 1\<rparr>, i))"

definition set_entry :: "nat \<Rightarrow> handle_entry \<Rightarrow> handle_table \<Rightarrow> handle_table" where
  "set_entry i e table = table\<lparr>ht_entries := (ht_entries table)(i := e)\<rparr>"

definition alloc_entry :: "bool \<Rightarrow> table_sel \<Rightarrow> oid \<Rightarrow> u32 \<Rightarrow> server \<Rightarrow> server \<times> handle result" where
  "alloc_entry mem_ok sel ob access s =
     (case alloc_slot mem_ok (the (table_of s sel)) of
        Inl err \<Rightarrow> (s, Inl err)
      | Inr (table, i) \<Rightarrow>
          (set_table sel (set_entry i \<lparr>he_ptr = Some ob, he_access = access\<rparr> table)
             (grab_object_for_handle ob s),
           Inr (index_to_handle i)))"

definition alloc_handle_entry :: "bool \<Rightarrow> pid \<Rightarrow> oid \<Rightarrow> u32 \<Rightarrow> u32 \<Rightarrow> server \<Rightarrow> server \<times> handle result" where
  "alloc_handle_entry mem_ok p ob access attr s =
     (if access AND RESERVED_ALL \<noteq> 0 then (fail s, Inl STATUS_INVALID_PARAMETER)
      else let access' = (if attr AND OBJ_INHERIT \<noteq> 0 then access OR RESERVED_INHERIT else access)
           in if table_of s (Local p) = None then (s, Inl STATUS_PROCESS_IS_TERMINATING)
              else alloc_entry mem_ok (Local p) ob access' s)"

definition alloc_handle_no_access_check ::
    "handle_env \<Rightarrow> bool \<Rightarrow> pid \<Rightarrow> oid \<Rightarrow> u32 \<Rightarrow> u32 \<Rightarrow> server \<Rightarrow> server \<times> handle result" where
  "alloc_handle_no_access_check env mem_ok p ob access attr s =
     (let access1 = (if access AND MAXIMUM_ALLOWED \<noteq> 0 then GENERIC_ALL else access);
          access2 = map_access_op env ob access1 AND NOT RESERVED_ALL
      in alloc_handle_entry mem_ok p ob access2 attr s)"

definition alloc_handle ::
    "handle_env \<Rightarrow> bool \<Rightarrow> pid \<Rightarrow> oid \<Rightarrow> u32 \<Rightarrow> u32 \<Rightarrow> server \<Rightarrow> server \<times> handle result" where
  "alloc_handle env mem_ok p ob access attr s =
     (let access1 = map_access_op env ob access AND NOT RESERVED_ALL
      in if access1 = 0 then (s, Inl STATUS_ACCESS_DENIED)
         else case check_access_op env None ob access1 of
                Inl err \<Rightarrow> (s, Inl err)
              | Inr access2 \<Rightarrow> alloc_handle_entry mem_ok p ob access2 attr s)"

definition alloc_global_handle_no_access_check ::
    "bool \<Rightarrow> bool \<Rightarrow> (nat \<Rightarrow> handle_entry) \<Rightarrow> oid \<Rightarrow> u32 \<Rightarrow> server \<Rightarrow> server \<times> handle result" where
  "alloc_global_handle_no_access_check table_ok mem_ok junk ob access s =
     (case (case global_table s of
              Some t \<Rightarrow> Inr s
            | None \<Rightarrow> (case alloc_handle_table table_ok junk 0 of
                         Inl err \<Rightarrow> Inl err
                       | Inr t \<Rightarrow> Inr (s\<lparr>global_table := Some t\<rparr>))) of
        Inl err \<Rightarrow> (s, Inl err)
      | Inr s1 \<Rightarrow>
          (case alloc_entry mem_ok Global ob access s1 of
             (s2, Inl err) \<Rightarrow> (s2, Inl err)
           | (s2, Inr h) \<Rightarrow> (s2, Inr (handle_local_to_global h))))"

definition alloc_global_handle ::
    "handle_env \<Rightarrow> bool \<Rightarrow> bool \<Rightarrow> (nat \<Rightarrow> handle_entry) \<Rightarrow> oid \<Rightarrow> u32 \<Rightarrow> server \<Rightarrow> server \<times> handle result" where
  "alloc_global_handle env table_ok mem_ok junk ob access s =
     (if access \<noteq> 0 then
        case check_access_op env None ob access of
          Inl err \<Rightarrow> (s, Inl err)
        | Inr access' \<Rightarrow> alloc_global_handle_no_access_check table_ok mem_ok junk ob access' s
      else alloc_global_handle_no_access_check table_ok mem_ok junk ob access s)"

text \<open>The entry of a handle: its table, its index and its contents.\<close>

definition get_handle :: "server \<Rightarrow> pid \<Rightarrow> handle \<Rightarrow> (table_sel \<times> nat \<times> handle_entry) option" where
  "get_handle s p handle =
     (let sel = (if handle_is_global handle then Global else Local p);
          index = handle_to_index (if handle_is_global handle then handle_global_to_local handle else handle)
      in case table_of s sel of
           None \<Rightarrow> None
         | Some table \<Rightarrow>
             if index < 0 then None
             else if index > ht_last table then None
             else let entry = ht_entries table (nat index)
                  in if he_ptr entry = None then None else Some (sel, nat index, entry))"

fun shrink_last :: "(nat \<Rightarrow> handle_entry) \<Rightarrow> nat \<Rightarrow> int" where
  "shrink_last ents 0 = - 1"
| "shrink_last ents (Suc n) = (if he_ptr (ents n) \<noteq> None then int n else shrink_last ents n)"

definition shrink_handle_table :: "bool \<Rightarrow> handle_table \<Rightarrow> handle_table" where
  "shrink_handle_table mem_ok table =
     (let last = shrink_last (ht_entries table) (nat (ht_last table + 1));
          table1 = table\<lparr>ht_last := last\<rparr>; n = ht_count table
      in if last \<ge> int (n div 4) then table1
         else if n < MIN_HANDLE_ENTRIES * 2 then table1
         else if \<not> mem_ok then table1
         else table1\<lparr>ht_count := n div 2\<rparr>)"

section \<open>Inheritance\<close>

text \<open>The table of the new process is built before it is attached to the process.\<close>

definition inherit_handle :: "pid \<Rightarrow> handle \<Rightarrow> handle_table \<times> server \<Rightarrow> handle_table \<times> server" where
  "inherit_handle parent handle = (\<lambda>(table, s).
     case get_handle s parent handle of
       None \<Rightarrow> (table, s)
     | Some (_, _, src) \<Rightarrow>
         if he_access src AND RESERVED_INHERIT = 0 then (table, s)
         else let index = handle_to_index handle
              in if index < 0 \<or> index \<ge> int (ht_count table) then (table, fail s)
                 else if he_ptr (ht_entries table (nat index)) \<noteq> None then (table, s)
                 else ((set_entry (nat index) src table)\<lparr>ht_last := max (ht_last table) index\<rparr>,
                       grab_object_for_handle (the (he_ptr src)) s))"

definition null_entry :: handle_entry where
  "null_entry = \<lparr>he_ptr = None, he_access = 0\<rparr>"

definition copy_entry :: "nat \<Rightarrow> handle_table \<times> server \<Rightarrow> handle_table \<times> server" where
  "copy_entry i = (\<lambda>(table, s).
     let e = ht_entries table i
     in case he_ptr e of
          None \<Rightarrow> (table, s)
        | Some ob \<Rightarrow>
            if he_access e AND RESERVED_INHERIT \<noteq> 0 then (table, grab_object_for_handle ob s)
            else (set_entry i (e\<lparr>he_ptr := None\<rparr>) table, s))"

definition copy_handle_table ::
    "bool \<Rightarrow> bool \<Rightarrow> (nat \<Rightarrow> handle_entry) \<Rightarrow> pid \<Rightarrow> handle list option \<Rightarrow> handle list \<Rightarrow> server \<Rightarrow>
       server \<times> handle_table result" where
  "copy_handle_table mem_ok shrink_ok junk parent handles std_handles s =
     (case table_of s (Local parent) of
        None \<Rightarrow> (fail s, Inl STATUS_INVALID_PARAMETER)
      | Some parent_table \<Rightarrow>
          (case alloc_handle_table mem_ok junk (ht_count parent_table) of
             Inl err \<Rightarrow> (s, Inl err)
           | Inr table \<Rightarrow>
               let (table', s') =
                 (case handles of
                    Some hs \<Rightarrow>
                      fold (inherit_handle parent) (hs @ take 3 std_handles)
                        (table\<lparr>ht_entries := (\<lambda>i. if i < ht_count parent_table then null_entry else ht_entries table i)\<rparr>, s)
                  | None \<Rightarrow>
                      fold copy_entry [0..<nat (ht_last parent_table + 1)]
                        (table\<lparr>ht_last := ht_last parent_table,
                               ht_entries := (\<lambda>i. if int i \<le> ht_last parent_table
                                                then ht_entries parent_table i else ht_entries table i)\<rparr>, s))
               in (s', Inr (shrink_handle_table shrink_ok table'))))"

text \<open>
  The handle table of a new process (the part of \<^verbatim>\<open>create_process\<close> that sets \<^verbatim>\<open>process->handles\<close>). The new
  process gets the next index.
\<close>

definition create_process_handles ::
    "bool \<Rightarrow> bool \<Rightarrow> (nat \<Rightarrow> handle_entry) \<Rightarrow> pid option \<Rightarrow> bool \<Rightarrow> handle list option \<Rightarrow> handle list \<Rightarrow> server \<Rightarrow>
       server \<times> pid result" where
  "create_process_handles mem_ok shrink_ok junk parent inherit handles std_handles s =
     (case (case parent of
              None \<Rightarrow> (s, alloc_handle_table mem_ok junk 0)
            | Some p \<Rightarrow>
                if inherit then copy_handle_table mem_ok shrink_ok junk p handles std_handles s
                else (s, alloc_handle_table mem_ok junk 0)) of
        (s1, Inl err) \<Rightarrow> (s1, Inl err)
      | (s1, Inr table) \<Rightarrow> (s1\<lparr>tables := tables s1 @ [Some table]\<rparr>, Inr (length (tables s1))))"

section \<open>Closing\<close>

text \<open>
  The index is computed from the handle as it was passed. The \<^verbatim>\<open>close_handle\<close> operation of the
  object's type may veto; what it does to other parts of the server is outside of this component.
\<close>

definition close_handle :: "handle_env \<Rightarrow> bool \<Rightarrow> pid \<Rightarrow> handle \<Rightarrow> server \<Rightarrow> server \<times> status" where
  "close_handle env mem_ok p handle s =
     (let index = handle_to_index handle
      in case get_handle s p handle of
           None \<Rightarrow> (s, STATUS_INVALID_HANDLE)
         | Some (sel, _, entry) \<Rightarrow>
             if he_access entry AND RESERVED_CLOSE_PROTECT \<noteq> 0 then (s, STATUS_HANDLE_NOT_CLOSABLE)
             else let ob = the (he_ptr entry)
                  in if \<not> close_handle_op env ob p handle then (s, STATUS_HANDLE_NOT_CLOSABLE)
                     else let table = the (table_of s sel)
                          in if index < 0 \<or> index \<ge> int (ht_count table) then (fail s, STATUS_SUCCESS)
                             else let i = nat index;
                                      table1 = set_entry i ((ht_entries table i)\<lparr>he_ptr := None\<rparr>) table;
                                      table2 = (if i < ht_free table1 then table1\<lparr>ht_free := i\<rparr> else table1);
                                      table3 = (if index = ht_last table2 then shrink_handle_table mem_ok table2 else table2)
                                  in (release_object_from_handle ob (set_table sel table3 s), STATUS_SUCCESS))"

definition handle_table_destroy :: "handle_table \<Rightarrow> server \<Rightarrow> server" where
  "handle_table_destroy table s =
     fold (\<lambda>i s. case he_ptr (ht_entries table i) of None \<Rightarrow> s | Some ob \<Rightarrow> release_object_from_handle ob s)
       [0..<nat (ht_last table + 1)] s"

definition close_process_handles :: "pid \<Rightarrow> server \<Rightarrow> server" where
  "close_process_handles p s =
     (case table_of s (Local p) of
        None \<Rightarrow> s
      | Some table \<Rightarrow> handle_table_destroy table (s\<lparr>tables := (tables s)[p := None]\<rparr>))"

section \<open>Lookup\<close>

definition get_magic_handle :: "handle_env \<Rightarrow> handle \<Rightarrow> oid option" where
  "get_magic_handle env handle =
     (if handle = 0xfffffffa then cur_imp_token env
      else if handle = 0xfffffffb then cur_thread_token env
      else if handle = 0xfffffffc then Some (cur_process_token env)
      else if handle = 0xfffffffe then Some (cur_thread_obj env)
      else if handle = 0x7fffffff \<or> handle = 0xffffffff then Some (cur_process_obj env)
      else None)"

definition get_handle_obj ::
    "handle_env \<Rightarrow> pid \<Rightarrow> handle \<Rightarrow> u32 \<Rightarrow> otype option \<Rightarrow> server \<Rightarrow> server \<times> oid result" where
  "get_handle_obj env p handle access ops s =
     (case get_magic_handle env handle of
        None \<Rightarrow>
          (case get_handle s p handle of
             None \<Rightarrow> (s, Inl STATUS_INVALID_HANDLE)
           | Some (_, _, entry) \<Rightarrow>
               let ob = the (he_ptr entry)
               in if ops \<noteq> None \<and> ops \<noteq> Some (otype (objs s ! ob)) then (s, Inl STATUS_OBJECT_TYPE_MISMATCH)
                  else if he_access entry AND access \<noteq> access then (s, Inl STATUS_ACCESS_DENIED)
                  else (grab_object ob s, Inr ob))
      | Some ob \<Rightarrow>
          if ops \<noteq> None \<and> ops \<noteq> Some (otype (objs s ! ob)) then (s, Inl STATUS_OBJECT_TYPE_MISMATCH)
          else (grab_object ob s, Inr ob))"

definition get_handle_access :: "handle_env \<Rightarrow> pid \<Rightarrow> handle \<Rightarrow> server \<Rightarrow> u32" where
  "get_handle_access env p handle s =
     (if get_magic_handle env handle \<noteq> None then NOT RESERVED_ALL
      else case get_handle s p handle of
             None \<Rightarrow> 0
           | Some (_, _, entry) \<Rightarrow> he_access entry AND NOT RESERVED_ALL)"

definition find_inherited_handle :: "pid \<Rightarrow> otype \<Rightarrow> server \<Rightarrow> handle" where
  "find_inherited_handle p ops s =
     (case table_of s (Local p) of
        None \<Rightarrow> 0
      | Some table \<Rightarrow>
          (case List.find (\<lambda>i. case he_ptr (ht_entries table i) of
                               None \<Rightarrow> False
                             | Some ob \<Rightarrow> otype (objs s ! ob) = ops \<and>
                                          he_access (ht_entries table i) AND RESERVED_INHERIT \<noteq> 0)
                  [0..<nat (ht_last table + 1)] of
             None \<Rightarrow> 0
           | Some i \<Rightarrow> index_to_handle i))"

definition get_obj_handle_count :: "pid \<Rightarrow> oid \<Rightarrow> server \<Rightarrow> nat" where
  "get_obj_handle_count p ob s =
     (case table_of s (Local p) of
        None \<Rightarrow> 0
      | Some table \<Rightarrow>
          fold (\<lambda>i n. if he_ptr (ht_entries table i) = Some ob then n + 1 else n) [0..<nat (ht_last table + 1)] 0)"

definition get_handle_table_count :: "pid \<Rightarrow> server \<Rightarrow> nat" where
  "get_handle_table_count p s = (case table_of s (Local p) of None \<Rightarrow> 0 | Some table \<Rightarrow> ht_count table)"

section \<open>Flags and duplication\<close>

definition set_access :: "table_sel \<Rightarrow> nat \<Rightarrow> u32 \<Rightarrow> server \<Rightarrow> server" where
  "set_access sel i access s =
     (let table = the (table_of s sel)
      in set_table sel (set_entry i ((ht_entries table i)\<lparr>he_access := access\<rparr>) table) s)"

text \<open>The status set, and the value returned. A NULL process is \<open>None\<close>.\<close>

definition set_handle_flags ::
    "handle_env \<Rightarrow> pid option \<Rightarrow> handle \<Rightarrow> u32 \<Rightarrow> u32 \<Rightarrow> server \<Rightarrow> server \<times> status \<times> int" where
  "set_handle_flags env process handle msk flags s =
     (if get_magic_handle env handle \<noteq> None
      then (s, if msk \<noteq> 0 then STATUS_ACCESS_DENIED else STATUS_SUCCESS, 0)
      else case process of
             None \<Rightarrow> (fail s, STATUS_SUCCESS, 0)
           | Some p \<Rightarrow>
               (case get_handle s p handle of
                  None \<Rightarrow> (s, STATUS_INVALID_HANDLE, - 1)
                | Some (sel, i, entry) \<Rightarrow>
                    let msk' = push_bit RESERVED_SHIFT msk AND RESERVED_ALL;
                        flags' = push_bit RESERVED_SHIFT flags AND msk'
                    in (set_access sel i (he_access entry AND NOT msk' OR flags') s, STATUS_SUCCESS,
                        uint (drop_bit RESERVED_SHIFT (he_access entry AND RESERVED_ALL)))))"

text \<open>Whether the global table and an entry can be allocated.\<close>

record dup_mem =
  dm_table :: bool
  dm_entry :: bool
  dm_junk :: "nat \<Rightarrow> handle_entry"

definition dup_check :: "handle_env \<Rightarrow> pid option \<Rightarrow> oid \<Rightarrow> u32 \<Rightarrow> server \<Rightarrow> server \<times> u32 result" where
  "dup_check env dst ob access s =
     (case (case cur_thread_token env of
              None \<Rightarrow> Inr access
            | Some tok \<Rightarrow> check_access_op env (Some tok) ob access) of
        Inl err \<Rightarrow> (s, Inl err)
      | Inr access1 \<Rightarrow>
          (case dst of
             None \<Rightarrow> (fail s, Inl STATUS_ACCESS_DENIED)
           | Some q \<Rightarrow> (s, check_access_op env (Some (process_token env q)) ob access1)))"

definition dup_alloc ::
    "handle_env \<Rightarrow> dup_mem \<Rightarrow> pid \<Rightarrow> handle \<Rightarrow> pid option \<Rightarrow> u32 \<Rightarrow> u32 \<Rightarrow> u32 \<Rightarrow> u32 \<Rightarrow> oid \<Rightarrow> server \<Rightarrow>
       server \<times> handle result" where
  "dup_alloc env mems src src_handle dst access src_access attr options ob s =
     (if access AND NOT src_access \<noteq> 0 then
        (case dup_check env dst ob access s of
           (s1, Inl err) \<Rightarrow> (s1, Inl err)
         | (s1, Inr access1) \<Rightarrow>
             if options AND DUPLICATE_MAKE_GLOBAL \<noteq> 0
             then alloc_global_handle env (dm_table mems) (dm_entry mems) (dm_junk mems) ob access1 s1
             else alloc_handle_no_access_check env (dm_entry mems) (the dst) ob access1 attr s1)
      else if options AND DUPLICATE_MAKE_GLOBAL \<noteq> 0
      then alloc_global_handle_no_access_check (dm_table mems) (dm_entry mems) (dm_junk mems) ob access s
      else case get_handle s src src_handle of
             Some (sel, i, entry) \<Rightarrow>
               if options AND DUPLICATE_CLOSE_SOURCE \<noteq> 0 \<and> dst = Some src \<and>
                  he_access entry AND RESERVED_CLOSE_PROTECT = 0
               then (set_access sel i (if attr AND OBJ_INHERIT \<noteq> 0 then access OR RESERVED_INHERIT else access) s,
                     Inr src_handle)
               else alloc_handle_entry (dm_entry mems) (the dst) ob access attr s
           | None \<Rightarrow> alloc_handle_entry (dm_entry mems) (the dst) ob access attr s)"

definition duplicate_handle ::
    "handle_env \<Rightarrow> dup_mem \<Rightarrow> pid \<Rightarrow> handle \<Rightarrow> pid option \<Rightarrow> u32 \<Rightarrow> u32 \<Rightarrow> u32 \<Rightarrow> server \<Rightarrow> server \<times> handle result" where
  "duplicate_handle env mems src src_handle dst access attr options s =
     (case get_handle_obj env src src_handle 0 None s of
        (s1, Inl err) \<Rightarrow> (s1, Inl err)
      | (s1, Inr ob) \<Rightarrow>
          let full = (case get_handle s1 src src_handle of
                        Some (_, _, entry) \<Rightarrow> he_access entry
                      | None \<Rightarrow> map_access_op env ob GENERIC_ALL);
              src_flags = drop_bit RESERVED_SHIFT (full AND RESERVED_ALL);
              src_access = full AND NOT RESERVED_ALL;
              access1 = (if options AND DUPLICATE_SAME_ACCESS \<noteq> 0 then src_access
                         else map_access_op env ob access AND NOT RESERVED_ALL);
              (s2, res) = dup_alloc env mems src src_handle dst access1 src_access attr options ob s1;
              s3 = (case res of
                      Inl err \<Rightarrow> s2
                    | Inr h \<Rightarrow> if options AND DUPLICATE_SAME_ATTRIBUTES \<noteq> 0
                               then fst (set_handle_flags env dst h (NOT 0) src_flags s2) else s2)
          in (release_object ob s3, res))"

section \<open>Requests\<close>

definition req_close_handle :: "handle_env \<Rightarrow> bool \<Rightarrow> handle \<Rightarrow> server \<Rightarrow> server \<times> status" where
  "req_close_handle env mem_ok handle s = close_handle env mem_ok (cur_process env) handle s"

definition req_set_handle_info :: "handle_env \<Rightarrow> handle \<Rightarrow> u32 \<Rightarrow> u32 \<Rightarrow> server \<Rightarrow> server \<times> status \<times> int" where
  "req_set_handle_info env handle msk flags s = set_handle_flags env (Some (cur_process env)) handle msk flags s"

abbreviation PROCESS_DUP_HANDLE :: u32 where "PROCESS_DUP_HANDLE \<equiv> 0x40"
abbreviation DELETE :: u32 where "DELETE \<equiv> 0x10000"
abbreviation OBJ_PROTECT_CLOSE :: u32 where "OBJ_PROTECT_CLOSE \<equiv> 0x1"

definition get_process_from_handle :: "handle_env \<Rightarrow> handle \<Rightarrow> u32 \<Rightarrow> server \<Rightarrow> server \<times> oid result" where
  "get_process_from_handle env handle access s =
     get_handle_obj env (cur_process env) handle access (Some (process_ops env)) s"

text \<open>The reply is the new handle (zero when there is none) and the status last set.\<close>

definition req_dup_handle ::
    "handle_env \<Rightarrow> dup_mem \<Rightarrow> bool \<Rightarrow> handle \<Rightarrow> handle \<Rightarrow> handle \<Rightarrow> u32 \<Rightarrow> u32 \<Rightarrow> u32 \<Rightarrow> server \<Rightarrow>
       server \<times> handle result" where
  "req_dup_handle env mems close_ok src_process src_handle dst_process access attr options s =
     (case get_process_from_handle env src_process PROCESS_DUP_HANDLE s of
        (s1, Inl err) \<Rightarrow> (s1, Inl err)
      | (s1, Inr src) \<Rightarrow>
          let (s2, dst, res) =
            (if options AND DUPLICATE_MAKE_GLOBAL \<noteq> 0 then
               (case duplicate_handle env mems (process_of env src) src_handle None access attr options s1 of
                  (s2, res) \<Rightarrow> (s2, None, res))
             else case get_process_from_handle env dst_process PROCESS_DUP_HANDLE s1 of
                    (s2, Inl err) \<Rightarrow> (s2, None, Inl err)
                  | (s2, Inr dst) \<Rightarrow>
                      (case duplicate_handle env mems (process_of env src) src_handle (Some (process_of env dst))
                              access attr options s2 of
                         (s3, res) \<Rightarrow> (release_object dst s3, Some dst, res)));
              s3 = (if options AND DUPLICATE_CLOSE_SOURCE \<noteq> 0 \<and> (dst \<noteq> Some src \<or> res \<noteq> Inr src_handle)
                    then fst (close_handle env close_ok (process_of env src) src_handle s2) else s2)
          in (release_object src s3, res))"

text \<open>Access, reference count and handle count, the reference of the request itself included.\<close>

definition req_get_object_info :: "handle_env \<Rightarrow> handle \<Rightarrow> server \<Rightarrow> server \<times> (u32 \<times> nat \<times> nat) result" where
  "req_get_object_info env handle s =
     (case get_handle_obj env (cur_process env) handle 0 None s of
        (s1, Inl err) \<Rightarrow> (s1, Inl err)
      | (s1, Inr ob) \<Rightarrow>
          (release_object ob s1,
           Inr (get_handle_access env (cur_process env) handle s1,
                refcount (objs s1 ! ob), handle_count (objs s1 ! ob))))"

definition req_set_object_permanence :: "handle_env \<Rightarrow> handle \<Rightarrow> bool \<Rightarrow> server \<Rightarrow> server \<times> status" where
  "req_set_object_permanence env handle permanent s =
     (case get_handle_obj env (cur_process env) handle (if permanent then 0 else DELETE) None s of
        (s1, Inl err) \<Rightarrow> (s1, err)
      | (s1, Inr ob) \<Rightarrow>
          let s2 = (if permanent \<and> \<not> is_permanent (objs s1 ! ob) then make_object_permanent ob (grab_object ob s1)
                    else if \<not> permanent \<and> is_permanent (objs s1 ! ob) then release_object ob (make_object_temporary ob s1)
                    else s1)
          in (release_object ob s2, STATUS_SUCCESS))"

definition req_compare_objects :: "handle_env \<Rightarrow> handle \<Rightarrow> handle \<Rightarrow> server \<Rightarrow> server \<times> status" where
  "req_compare_objects env first second s =
     (case get_handle_obj env (cur_process env) first 0 None s of
        (s1, Inl err) \<Rightarrow> (s1, err)
      | (s1, Inr obj1) \<Rightarrow>
          (case get_handle_obj env (cur_process env) second 0 None s1 of
             (s2, Inl err) \<Rightarrow> (release_object obj1 s2, err)
           | (s2, Inr obj2) \<Rightarrow>
               (release_object obj1 (release_object obj2 s2),
                if obj1 \<noteq> obj2 then STATUS_NOT_SAME_OBJECT else STATUS_SUCCESS)))"

section \<open>Enumeration\<close>

record handle_info =
  hi_owner :: pid
  hi_handle :: handle
  hi_access :: u32
  hi_type :: otype
  hi_attributes :: u32

text \<open>
  The callback runs twice: first counting, then filling the buffer of that size. \<open>Inr (n, out)\<close> is the
  second pass with \<open>n\<close> slots left, \<open>Inl n\<close> the first.
\<close>

definition enum_entry ::
    "server \<Rightarrow> pid \<Rightarrow> handle_table \<Rightarrow> nat \<Rightarrow> (nat + nat \<times> handle_info list) option \<Rightarrow>
       (nat + nat \<times> handle_info list) option" where
  "enum_entry s p table i info =
     (case (he_ptr (ht_entries table i), info) of
        (None, _) \<Rightarrow> info
      | (_, None) \<Rightarrow> None
      | (Some ob, Some (Inl n)) \<Rightarrow> Some (Inl (n + 1))
      | (Some ob, Some (Inr (n, out))) \<Rightarrow>
          let access = he_access (ht_entries table i);
              attrs = (if access AND RESERVED_INHERIT \<noteq> 0 then OBJ_INHERIT else 0) OR
                      (if access AND RESERVED_CLOSE_PROTECT \<noteq> 0 then OBJ_PROTECT_CLOSE else 0)
          in if n = 0 then None
             else Some (Inr (n - 1, out @ [\<lparr>hi_owner = p, hi_handle = index_to_handle i,
                                             hi_access = access AND NOT RESERVED_ALL,
                                             hi_type = otype (objs s ! ob), hi_attributes = attrs\<rparr>])))"

definition enum_handles ::
    "server \<Rightarrow> pid \<Rightarrow> (nat + nat \<times> handle_info list) option \<Rightarrow> (nat + nat \<times> handle_info list) option" where
  "enum_handles s p info =
     (case table_of s (Local p) of
        None \<Rightarrow> info
      | Some table \<Rightarrow> fold (enum_entry s p table) [0..<nat (ht_last table + 1)] info)"

text \<open>
  \<open>procs\<close> are the processes in the order of the process list. The result is the count replied, and the
  data or the error; \<open>None\<close> is a failed assertion. An entry takes 20 bytes of the reply.
\<close>

definition req_get_system_handles ::
    "bool \<Rightarrow> nat \<Rightarrow> pid list \<Rightarrow> server \<Rightarrow> (nat \<times> handle_info list result) option" where
  "req_get_system_handles mem_ok reply_max procs s =
     (case fold (enum_handles s) procs (Some (Inl 0)) of
        Some (Inl n) \<Rightarrow>
          if reply_max div 20 < n then Some (n, Inl STATUS_BUFFER_TOO_SMALL)
          else if \<not> mem_ok then Some (n, Inl STATUS_NO_MEMORY)
          else (case fold (enum_handles s) procs (Some (Inr (n, []))) of
                  Some (Inr (_, out)) \<Rightarrow> Some (n, Inr out)
                | _ \<Rightarrow> None)
      | _ \<Rightarrow> None)"

end
