(* ===== verification/Handle_Correct.thy ===== *)
theory Handle_Correct
  imports Handles
begin

text \<open>
  What the handle tables guarantee. \<open>table_ok\<close> is the shape of a table: all entries below \<open>free\<close> are in
  use, the last entry is in use and fits in the allocated array. Together with the exact accounting of
  references it makes up \<open>handle_inv\<close>, which every operation on handles of a process keeps, so no
  assertion of the handle code fails, no entry outside an array is touched and no object is used
  after it was freed.
\<close>

section \<open>Handle values\<close>

lemma uint_drop_bit: "uint (drop_bit n (h :: u32)) = uint h div 2 ^ n"
  unfolding unsigned_drop_bit_eq unfolding drop_bit_eq_div using uint_lt2p [of h] by (simp add: take_bit_int_eq_self)

lemma uint_push_bit_2: "uint (w :: u32) < 2 ^ 30 \<Longrightarrow> uint (push_bit 2 w) = 4 * uint w"
  unfolding unsigned_push_bit_eq unfolding push_bit_eq_mult by (simp add: take_bit_int_eq_self)

lemma drop_bit_small:
  assumes "uint (h :: u32) < 0x04000000"
  shows "drop_bit 26 h = 0"
proof -
  have "uint (drop_bit 26 h) = 0" using assms by (simp add: uint_drop_bit)
  then show ?thesis by (simp only: unsigned_eq_0_iff)
qed

lemma xor_eq_0D:
  assumes "(a :: u32) XOR b = 0"
  shows "a = b"
proof -
  have "a = a XOR (b XOR b)" by simp
  also have "\<dots> = (a XOR b) XOR b" by (simp only: xor.assoc)
  finally show ?thesis using assms by simp
qed

lemma handle_is_global_high:
  assumes "handle_is_global h"
  shows "drop_bit 26 h = 0x15"
proof -
  have "h XOR HANDLE_OBFUSCATOR \<le> 0x03fffffc" using assms by (simp add: handle_is_global_def)
  then have "uint (h XOR HANDLE_OBFUSCATOR) < 0x04000000" by (simp add: word_le_def)
  then have "drop_bit 26 (h XOR HANDLE_OBFUSCATOR) = 0" by (rule drop_bit_small)
  then have "drop_bit 26 h XOR drop_bit 26 HANDLE_OBFUSCATOR = 0" by (simp only: drop_bit_xor)
  then have "drop_bit 26 h = drop_bit 26 HANDLE_OBFUSCATOR" by (rule xor_eq_0D)
  then show ?thesis by simp
qed

lemma handle_global_index:
  assumes "handle_is_global h"
  shows "int MAX_HANDLE_ENTRIES \<le> handle_to_index h"
proof -
  have "uint (drop_bit 26 h) = 0x15" using handle_is_global_high [OF assms] by simp
  then have "uint h div 2 ^ 26 = 0x15" by (simp add: uint_drop_bit)
  then show ?thesis by (simp add: handle_to_index_def uint_drop_bit)
qed

lemma index_to_handle_inverse:
  assumes "i < MAX_HANDLE_ENTRIES"
  shows "handle_to_index (index_to_handle i) = int i" and "\<not> handle_is_global (index_to_handle i)"
    and "index_to_handle i \<noteq> 0"
proof -
  let ?w = "word_of_nat (i + 1) :: u32"
  have w: "uint ?w = int (i + 1)"
    unfolding unsigned_of_nat using assms by (simp add: take_bit_nat_eq_self del: of_nat_add add: take_bit_of_nat [symmetric])
  have u: "uint (index_to_handle i) = 4 * int (i + 1)"
    unfolding index_to_handle_def by (subst uint_push_bit_2) (use assms w in \<open>simp_all del: of_nat_add\<close>)
  show "handle_to_index (index_to_handle i) = int i"
    unfolding handle_to_index_def using u by (simp add: uint_drop_bit)
  show "index_to_handle i \<noteq> 0" using u by (auto simp del: of_nat_add)
  show "\<not> handle_is_global (index_to_handle i)"
    using handle_is_global_high [of "index_to_handle i"] drop_bit_small [of "index_to_handle i"] u assms by auto
qed

section \<open>Tables\<close>

abbreviation used :: "handle_table \<Rightarrow> nat \<Rightarrow> bool" where
  "used t i \<equiv> he_ptr (ht_entries t i) \<noteq> None"

definition table_ok :: "handle_table \<Rightarrow> bool" where
  "table_ok t \<longleftrightarrow>
     MIN_HANDLE_ENTRIES \<le> ht_count t \<and> ht_count t \<le> MAX_HANDLE_ENTRIES \<and>
     - 1 \<le> ht_last t \<and> ht_last t < int (ht_count t) \<and> int (ht_free t) \<le> ht_last t + 1 \<and>
     (\<forall>i < ht_free t. used t i) \<and> (0 \<le> ht_last t \<longrightarrow> used t (nat (ht_last t)))"

definition entry_refs :: "handle_entry \<Rightarrow> oid multiset" where
  "entry_refs e = (case he_ptr e of None \<Rightarrow> {#} | Some ob \<Rightarrow> {#ob#})"

lemma table_refs_sum: "table_refs t = (\<Sum>i<nat (ht_last t + 1). entry_refs (ht_entries t i))"
proof -
  have "mset (List.map_filter (\<lambda>i. he_ptr (ht_entries t i)) [0..<n]) = (\<Sum>i<n. entry_refs (ht_entries t i))" for n
    by (induction n) (simp_all add: map_filter_def entry_refs_def split: option.split)
  then show ?thesis by (simp add: table_refs_def)
qed

lemma table_refs_set_entry:
  assumes "int i \<le> ht_last t"
  shows "table_refs (set_entry i e t) + entry_refs (ht_entries t i) = table_refs t + entry_refs e"
proof -
  let ?I = "{..<nat (ht_last t + 1)}"
  have i: "i \<in> ?I" using assms by simp
  have "(\<Sum>j\<in>?I - {i}. entry_refs (((ht_entries t)(i := e)) j)) = (\<Sum>j\<in>?I - {i}. entry_refs (ht_entries t j))"
    by (intro sum.cong) auto
  then show ?thesis
    using i by (simp add: table_refs_sum set_entry_def sum.remove [of ?I i])
qed

lemma table_refs_append:
  assumes "ht_last t' = int i" and "int i = ht_last t + 1" and "ht_entries t' = ht_entries t"
  shows "table_refs (set_entry i e t') = table_refs t + entry_refs e"
proof -
  have "{..<nat (ht_last t' + 1)} = insert i {..<nat (ht_last t + 1)}" "i \<notin> {..<nat (ht_last t + 1)}"
    using assms by auto
  moreover have "(\<Sum>j<nat (ht_last t + 1). entry_refs (((ht_entries t)(i := e)) j)) = (\<Sum>j<nat (ht_last t + 1). entry_refs (ht_entries t j))"
    using assms(2) by (intro sum.cong) auto
  ultimately show ?thesis using assms(3) by (simp add: table_refs_sum set_entry_def)
qed

lemma shrink_last_bounds:
  "- 1 \<le> shrink_last ents n" "shrink_last ents n < int n"
  "0 \<le> shrink_last ents n \<Longrightarrow> he_ptr (ents (nat (shrink_last ents n))) \<noteq> None"
  "shrink_last ents n < int i \<Longrightarrow> i < n \<Longrightarrow> he_ptr (ents i) = None"
  by (induction n) (auto simp: less_Suc_eq split: if_splits)

lemma shrink_handle_table_simps [simp]:
  "ht_last (shrink_handle_table mem_ok t) = shrink_last (ht_entries t) (nat (ht_last t + 1))"
  "ht_entries (shrink_handle_table mem_ok t) = ht_entries t"
  "ht_free (shrink_handle_table mem_ok t) = ht_free t"
  by (simp_all add: shrink_handle_table_def Let_def)

lemma table_refs_shrink: "table_refs (shrink_handle_table mem_ok t) = table_refs t"
proof -
  let ?n = "nat (ht_last t + 1)"
  let ?l = "shrink_last (ht_entries t) ?n"
  have "(\<Sum>i<?n. entry_refs (ht_entries t i)) = (\<Sum>i<nat (?l + 1). entry_refs (ht_entries t i))"
  proof (rule sum.mono_neutral_right)
    show "{..<nat (?l + 1)} \<subseteq> {..<?n}" using shrink_last_bounds(2) [of "ht_entries t" ?n] by (auto split: if_splits)
    show "\<forall>i\<in>{..<?n} - {..<nat (?l + 1)}. entry_refs (ht_entries t i) = {#}"
      using shrink_last_bounds(4) [of "ht_entries t" ?n] by (auto simp: entry_refs_def)
  qed simp
  then show ?thesis by (simp add: table_refs_sum)
qed

text \<open>Shrinking restores the shape of a table whose last entries may be free.\<close>

lemma table_ok_shrink:
  assumes cnt: "MIN_HANDLE_ENTRIES \<le> ht_count t" "ht_count t \<le> MAX_HANDLE_ENTRIES"
    and last: "- 1 \<le> ht_last t" "ht_last t < int (ht_count t)" "int (ht_free t) \<le> ht_last t + 1"
    and free: "\<And>i. i < ht_free t \<Longrightarrow> used t i"
  shows "table_ok (shrink_handle_table mem_ok t)"
proof -
  let ?n = "nat (ht_last t + 1)"
  let ?l = "shrink_last (ht_entries t) ?n"
  note b = shrink_last_bounds [of "ht_entries t" ?n]
  have fr: "int (ht_free t) \<le> ?l + 1"
  proof (rule ccontr)
    assume "\<not> ?thesis"
    then have "?l < int (ht_free t - 1)" "ht_free t - 1 < ?n" "ht_free t - 1 < ht_free t" using last b(1) by auto
    then show False using b(4) [of "ht_free t - 1"] free [of "ht_free t - 1"] by simp
  qed
  have cn: "ht_count (shrink_handle_table mem_ok t) = ht_count t \<or>
      ht_count (shrink_handle_table mem_ok t) = ht_count t div 2 \<and> ?l < int (ht_count t div 4) \<and> MIN_HANDLE_ENTRIES * 2 \<le> ht_count t"
    by (auto simp: shrink_handle_table_def Let_def)
  then have "MIN_HANDLE_ENTRIES \<le> ht_count (shrink_handle_table mem_ok t) \<and> ht_count (shrink_handle_table mem_ok t) \<le> MAX_HANDLE_ENTRIES
      \<and> ?l < int (ht_count (shrink_handle_table mem_ok t))"
    using cnt last b(2) by auto
  then show ?thesis using b(1,3) fr free by (auto simp: table_ok_def)
qed

lemma first_free_spec:
  assumes "table_ok t"
  shows "int (first_free t) \<le> ht_last t + 1"
    and "\<And>j. j < first_free t \<Longrightarrow> used t j"
    and "int (first_free t) \<le> ht_last t \<Longrightarrow> \<not> used t (first_free t)"
proof -
  let ?P = "\<lambda>i. he_ptr (ht_entries t i) = None" and ?xs = "[ht_free t..<nat (ht_last t + 1)]"
  have ok: "int (ht_free t) \<le> ht_last t + 1" "\<And>j. j < ht_free t \<Longrightarrow> used t j" using assms by (auto simp: table_ok_def)
  have *: "int (first_free t) \<le> ht_last t + 1 \<and> (\<forall>j < first_free t. used t j) \<and>
      (int (first_free t) \<le> ht_last t \<longrightarrow> \<not> used t (first_free t))"
  proof (cases "List.find ?P ?xs")
    case None
    then have all: "used t j" if "ht_free t \<le> j" "j < nat (ht_last t + 1)" for j
      using that by (auto simp: find_None_iff)
    have "first_free t = nat (ht_last t + 1)" using None ok(1) by (simp add: first_free_def max_def)
    then show ?thesis using all ok by (auto simp: not_less [symmetric])
  next
    case (Some i)
    then obtain k where k: "k < length ?xs" "?P (?xs ! k)" "i = ?xs ! k" "\<forall>j<k. \<not> ?P (?xs ! j)"
      by (auto simp: find_Some_iff)
    have i: "i = ht_free t + k" using k by simp
    have "used t j" if "j < i" for j
    proof (cases "j < ht_free t")
      case False
      then have "?xs ! (j - ht_free t) = j" "j - ht_free t < k" using that i k(1) by auto
      then show ?thesis using k(4) by (metis)
    qed (use ok(2) in simp)
    then show ?thesis using Some k i by (auto simp: first_free_def)
  qed
  show "int (first_free t) \<le> ht_last t + 1" "\<And>j. j < first_free t \<Longrightarrow> used t j"
    "int (first_free t) \<le> ht_last t \<Longrightarrow> \<not> used t (first_free t)" using * by blast+
qed

lemma alloc_slot_spec:
  assumes ok: "table_ok t" and res: "alloc_slot mem_ok t = Inr (t', i)" and e: "he_ptr e \<noteq> None"
  shows "table_ok (set_entry i e t')" and "table_refs (set_entry i e t') = table_refs t + entry_refs e"
    and "i < MAX_HANDLE_ENTRIES" and "int i \<le> ht_last t \<Longrightarrow> \<not> used t i" and "ht_entries t' = ht_entries t"
    and "ht_last t' = max (ht_last t) (int i)" and "int i \<le> ht_last t + 1"
proof -
  note ff = first_free_spec [OF ok]
  have i: "i = first_free t"
    using res by (auto simp: alloc_slot_def Let_def split: if_splits sum.splits)
  show le: "int i \<le> ht_last t + 1" "int i \<le> ht_last t \<Longrightarrow> \<not> used t i" using i ff by auto
  have cases: "int i \<le> ht_last t \<and> t' = t\<lparr>ht_free := i + 1\<rparr> \<or>
     int i = ht_last t + 1 \<and> (\<exists>n. i < n \<and> ht_count t \<le> n \<and> n \<le> MAX_HANDLE_ENTRIES \<and> t' = t\<lparr>ht_count := n, ht_last := int i, ht_free := i + 1\<rparr>)"
  proof (cases "int i \<le> ht_last t")
    case False
    have "\<exists>n. i < n \<and> ht_count t \<le> n \<and> n \<le> MAX_HANDLE_ENTRIES \<and> t' = t\<lparr>ht_count := n, ht_last := int i, ht_free := i + 1\<rparr>"
    proof (cases "i < ht_count t")
      case True
      then show ?thesis using res False i ok
        by (intro exI [of _ "ht_count t"]) (auto simp: alloc_slot_def Let_def table_ok_def)
    next
      case ge: False
      then have "i = ht_count t" using le(1) ok by (auto simp: table_ok_def)
      then show ?thesis using res False ge i ok
        by (intro exI [of _ "min (ht_count t * 2) MAX_HANDLE_ENTRIES"])
          (auto simp: alloc_slot_def Let_def table_ok_def grow_handle_table_def min_def split: if_splits)
    qed
    then show ?thesis using False le(1) by auto
  qed (use res i in \<open>auto simp: alloc_slot_def Let_def\<close>)
  then show "ht_entries t' = ht_entries t" "ht_last t' = max (ht_last t) (int i)" by auto
  show "table_ok (set_entry i e t')"
    using cases ok e ff(2) i by (auto simp: table_ok_def set_entry_def less_Suc_eq)
  show "i < MAX_HANDLE_ENTRIES" using cases ok by (auto simp: table_ok_def)
  show "table_refs (set_entry i e t') = table_refs t + entry_refs e"
    using cases
  proof (elim disjE conjE exE)
    assume a: "int i \<le> ht_last t" "t' = t\<lparr>ht_free := i + 1\<rparr>"
    then have "table_refs (set_entry i e t') = table_refs (set_entry i e t)" by (simp add: table_refs_sum set_entry_def)
    moreover have "entry_refs (ht_entries t i) = {#}" using le(2) a(1) by (simp add: entry_refs_def)
    ultimately show ?thesis using table_refs_set_entry [OF a(1), of e] by simp
  qed (auto intro: table_refs_append)
qed

section \<open>Accounting of handles\<close>

lemma table_of_set_table [simp]:
  "table_of s sel = Some t \<Longrightarrow> table_of (set_table sel t' s) sel = Some t'"
  by (auto simp: table_of_def set_table_def split: table_sel.splits if_splits)

lemma table_of_set_table_other:
  "sel' \<noteq> sel \<Longrightarrow> table_of (set_table sel t' s) sel' = table_of s sel'"
  by (cases sel; cases sel') (simp_all add: table_of_def set_table_def)

lemma set_table_simps [simp]:
  "objs (set_table sel t s) = objs s" "types (set_table sel t s) = types s" "failed (set_table sel t s) = failed s"
  "length (tables (set_table sel t s)) = length (tables s)"
  by (simp_all add: set_table_def split: table_sel.split)

lemma hold_refs_set_table [simp]: "hold_refs (set_table sel t s) = hold_refs s"
  by (simp add: hold_refs_def)

lemma sum_list_update_mset:
  "i < length xs \<Longrightarrow> sum_list (xs[i := v]) + xs ! i = sum_list xs + (v :: 'a multiset)"
  by (induction xs arbitrary: i) (auto split: nat.split simp: ac_simps)

lemma handle_refs_set_table:
  assumes "table_of s sel = Some t"
  shows "handle_refs (set_table sel t' s) + table_refs t = handle_refs s + table_refs t'"
proof (cases sel)
  case (Local p)
  then have p: "p < length (tables s)" "tables s ! p = Some t" using assms by (auto simp: table_of_def split: if_splits)
  then show ?thesis
    using sum_list_update_mset [of p "map opt_refs (tables s)" "table_refs t'"] Local
    by (simp add: handle_refs_def set_table_def map_update opt_refs_def ac_simps)
next
  case Global
  then show ?thesis using assms by (simp add: handle_refs_def set_table_def table_of_def opt_refs_def ac_simps)
qed

text \<open>Only the references count: a table may change as long as the sum stays the same.\<close>

lemma accounted_cong:
  assumes "accounted s H P" and "objs s' = objs s" and "handle_refs s' + H' = handle_refs s + H"
  shows "accounted s' H' P"
proof -
  have "hold_refs s' = hold_refs s" using assms(2) by (simp add: hold_refs_def)
  then show ?thesis using assms by (simp add: accounted_def add.assoc [symmetric])
qed

lemma accounted_set_table:
  assumes "accounted s H P" and "table_of s sel = Some t" and "table_refs t' + H' = table_refs t + H"
  shows "accounted (set_table sel t' s) H' P"
proof (rule accounted_cong [OF assms(1)])
  have "handle_refs (set_table sel t' s) + H' + table_refs t = handle_refs s + table_refs t' + H'"
    using handle_refs_set_table [OF assms(2), of t'] by (simp add: ac_simps)
  also have "\<dots> = handle_refs s + H + table_refs t" using assms(3) by (simp add: ac_simps)
  finally show "handle_refs (set_table sel t' s) + H' = handle_refs s + H" by simp
qed simp

lemma accounted_types: "accounted (s\<lparr>types := y\<rparr>) H P = accounted s H P"
  by (simp add: accounted_def)

lemma grab_object_for_handle_accounted:
  assumes acc: "accounted s H P" and ob: "ob < length (objs s)"
  shows "accounted (grab_object_for_handle ob s) (add_mset ob H) P"
proof -
  let ?f = "\<lambda>x. x\<lparr>handle_count := handle_count x + 1, refcount := refcount x + 1\<rparr>"
  have "accounted (upd_obj ob ?f s) (add_mset ob H) P"
    using accountedD(2,3) [OF acc ob] by (intro accounted_update [OF acc ob]) auto
  moreover have "grab_object_for_handle ob s = (upd_obj ob ?f s)\<lparr>types := types (grab_object_for_handle ob s)\<rparr>"
    using ob by (simp add: grab_object_for_handle_def grab_object_def Let_def)
  ultimately show ?thesis by (metis accounted_types)
qed

lemma grab_object_for_handle_simps [simp]:
  "tables (grab_object_for_handle ob s) = tables s" "global_table (grab_object_for_handle ob s) = global_table s"
  "failed (grab_object_for_handle ob s) = failed s" "length (objs (grab_object_for_handle ob s)) = length (objs s)"
  by (simp_all add: grab_object_for_handle_def grab_object_def Let_def)

lemma release_object_from_handle_accounted:
  assumes acc: "accounted s (add_mset ob H) P"
  shows "accounted (release_object_from_handle ob s) H P"
    and "failed (release_object_from_handle ob s) = failed s"
    and "tables (release_object_from_handle ob s) = tables s"
    and "global_table (release_object_from_handle ob s) = global_table s"
    and "length (objs (release_object_from_handle ob s)) = length (objs s)"
proof -
  let ?f = "\<lambda>x. x\<lparr>handle_count := handle_count x - 1\<rparr>"
  let ?ty = "otype (objs s ! ob)"
  let ?s1 = "(upd_obj ob ?f s)\<lparr>types := (types s)(?ty := (types s ?ty)\<lparr>tc_handle_count := tc_handle_count (types s ?ty) - 1\<rparr>)\<rparr>"
  have ob: "ob < length (objs s)" using accountedD(1) [OF acc, of ob] by simp
  have hc: "handle_count (objs s ! ob) \<noteq> 0" using accountedD(3) [OF acc ob] by simp
  have "accounted (upd_obj ob ?f s) H (add_mset ob P)"
    using accountedD(2,3) [OF acc ob] by (intro accounted_update [OF acc ob]) auto
  then have a1: "accounted ?s1 H (add_mset ob P)" by (simp only: accounted_types)
  have eq: "release_object_from_handle ob s = release_object ob ?s1"
    using hc by (simp add: release_object_from_handle_def Let_def)
  show "accounted (release_object_from_handle ob s) H P" "failed (release_object_from_handle ob s) = failed s"
    "tables (release_object_from_handle ob s) = tables s" "global_table (release_object_from_handle ob s) = global_table s"
    "length (objs (release_object_from_handle ob s)) = length (objs s)"
    unfolding eq using release_object_accounted [OF a1] by simp_all
qed

section \<open>Handles as a map\<close>

text \<open>What a client can see of all tables: a partial map from a table and an index to the entry.\<close>

definition handles :: "server \<Rightarrow> (table_sel \<times> nat) \<rightharpoonup> handle_entry" where
  "handles s = (\<lambda>(sel, i).
     case table_of s sel of
       None \<Rightarrow> None
     | Some t \<Rightarrow> if int i \<le> ht_last t \<and> used t i then Some (ht_entries t i) else None)"

definition tables_ok :: "server \<Rightarrow> bool" where
  "tables_ok s \<longleftrightarrow> (\<forall>sel t. table_of s sel = Some t \<longrightarrow> table_ok t)"

definition handle_inv :: "server \<Rightarrow> oid multiset \<Rightarrow> bool" where
  "handle_inv s P \<longleftrightarrow> tables_ok s \<and> accounted s {#} P \<and> \<not> failed s"

lemma handle_invD:
  assumes "handle_inv s P"
  shows "table_of s sel = Some t \<Longrightarrow> table_ok t" and "accounted s {#} P" and "\<not> failed s" and "tables_ok s"
  using assms by (auto simp: handle_inv_def tables_ok_def)

lemma table_of_cong: "tables s' = tables s \<Longrightarrow> global_table s' = global_table s \<Longrightarrow> table_of s' = table_of s"
  by (rule ext) (simp add: table_of_def split: table_sel.split)

lemma handles_cong: "table_of s' = table_of s \<Longrightarrow> handles s' = handles s"
  by (simp add: handles_def)

lemma table_of_grab [simp]: "table_of (grab_object ob s) = table_of s" "table_of (grab_object_for_handle ob s) = table_of s"
  by (rule table_of_cong; simp add: grab_object_def)+

lemma failed_grab [simp]: "failed (grab_object ob s) = failed s"
  by (simp add: grab_object_def)

lemma handles_grab [simp]: "handles (grab_object ob s) = handles s" "handles (grab_object_for_handle ob s) = handles s"
  by (simp_all add: handles_def)

lemma tables_ok_set_table:
  assumes "tables_ok s" and "table_of s sel = Some t" and "table_ok t'"
  shows "tables_ok (set_table sel t' s)"
  unfolding tables_ok_def
proof (intro allI impI)
  fix sel' u assume "table_of (set_table sel t' s) sel' = Some u"
  then show "table_ok u"
    using assms by (cases "sel' = sel") (auto simp: table_of_set_table_other tables_ok_def)
qed

lemma handle_inv_set_table:
  assumes "tables_ok s" and "accounted s H P" and "\<not> failed s"
    and "table_of s sel = Some t" and "table_ok t'" and "table_refs t' = table_refs t + H"
  shows "handle_inv (set_table sel t' s) P"
  unfolding handle_inv_def
proof (intro conjI)
  show "tables_ok (set_table sel t' s)" by (rule tables_ok_set_table [OF assms(1,4,5)])
  show "accounted (set_table sel t' s) {#} P" using accounted_set_table [OF assms(2,4), of t' "{#}"] assms(6) by simp
qed (use assms(3) in simp)

lemma handles_set_table:
  assumes "table_of s sel = Some t"
  shows "handles (set_table sel t' s) (sel', j) =
    (if sel' = sel then if int j \<le> ht_last t' \<and> used t' j then Some (ht_entries t' j) else None else handles s (sel', j))"
  using assms by (simp add: handles_def table_of_set_table_other)

lemma alloc_entry_spec:
  assumes inv: "handle_inv s P" and t: "table_of s sel = Some t" and ob: "ob < length (objs s)"
  shows "handle_inv (fst (alloc_entry mem_ok sel ob access s)) P"
    and "alloc_entry mem_ok sel ob access s = (s', Inl err) \<Longrightarrow> s' = s \<and> err = STATUS_INSUFFICIENT_RESOURCES"
    and "alloc_entry mem_ok sel ob access s = (s', Inr h) \<Longrightarrow>
      \<exists>i < MAX_HANDLE_ENTRIES. h = index_to_handle i \<and> handles s (sel, i) = None \<and>
        handles s' = (handles s)((sel, i) \<mapsto> \<lparr>he_ptr = Some ob, he_access = access\<rparr>)"
proof -
  let ?e = "\<lparr>he_ptr = Some ob, he_access = access\<rparr>"
  note ok = handle_invD(1) [OF inv t]
  have fin: "handle_inv (set_table sel (set_entry i ?e t') (grab_object_for_handle ob s)) P" if "alloc_slot mem_ok t = Inr (t', i)" for t' i
  proof (rule handle_inv_set_table)
    show "accounted (grab_object_for_handle ob s) {#ob#} P"
      using grab_object_for_handle_accounted [OF handle_invD(2) [OF inv] ob] by simp
    show "table_of (grab_object_for_handle ob s) sel = Some t" using t by simp
    show "table_ok (set_entry i ?e t')" "table_refs (set_entry i ?e t') = table_refs t + {#ob#}"
      using alloc_slot_spec(1,2) [OF ok that, of ?e] by (simp_all add: entry_refs_def)
  qed (use handle_invD(3,4) [OF inv] in \<open>simp_all add: tables_ok_def\<close>)
  show "handle_inv (fst (alloc_entry mem_ok sel ob access s)) P"
    using fin inv t by (simp add: alloc_entry_def split: sum.split prod.split)
  show "s' = s \<and> err = STATUS_INSUFFICIENT_RESOURCES" if "alloc_entry mem_ok sel ob access s = (s', Inl err)"
    using that t by (auto simp: alloc_entry_def alloc_slot_def grow_handle_table_def Let_def split: sum.splits if_splits prod.splits)
  show "\<exists>i < MAX_HANDLE_ENTRIES. h = index_to_handle i \<and> handles s (sel, i) = None \<and> handles s' = (handles s)((sel, i) \<mapsto> ?e)"
    if res: "alloc_entry mem_ok sel ob access s = (s', Inr h)"
  proof -
    obtain t' i where sl: "alloc_slot mem_ok t = Inr (t', i)" and h: "h = index_to_handle i"
        and s': "s' = set_table sel (set_entry i ?e t') (grab_object_for_handle ob s)"
      using res t by (cases "alloc_slot mem_ok t") (auto simp: alloc_entry_def)
    note sp = alloc_slot_spec [OF ok sl, of ?e, simplified]
    have "handles s (sel, i) = None" using sp(4) t by (auto simp: handles_def)
    moreover have "handles s' = (handles s)((sel, i) \<mapsto> ?e)"
    proof (rule ext, safe)
      fix sel' j
      have g: "table_of (grab_object_for_handle ob s) sel = Some t" using t by simp
      show "handles s' (sel', j) = ((handles s)((sel, i) \<mapsto> ?e)) (sel', j)"
        unfolding s' handles_set_table [OF g] using sp(5,6,7) t
        by (auto simp: set_entry_def handles_def)
    qed
    ultimately show ?thesis using sp(3) h by auto
  qed
qed

section \<open>Closing handles\<close>

lemma get_handle_iff:
  "get_handle s p h = Some (sel, i, e) \<longleftrightarrow>
     sel = (if handle_is_global h then Global else Local p) \<and>
     handle_to_index (if handle_is_global h then handle_global_to_local h else h) = int i \<and>
     handles s (sel, i) = Some e"
proof -
  define sel' where "sel' = (if handle_is_global h then Global else Local p)"
  define index where "index = handle_to_index (if handle_is_global h then handle_global_to_local h else h)"
  show ?thesis
    unfolding get_handle_def handles_def Let_def sel'_def [symmetric] index_def [symmetric]
    by (cases "table_of s sel'") auto
qed

lemma handles_SomeD:
  assumes "handles s (sel, i) = Some e"
  obtains t where "table_of s sel = Some t" "int i \<le> ht_last t" "ht_entries t i = e" "he_ptr e \<noteq> None"
  using assms by (auto simp: handles_def split: option.splits if_splits)

text \<open>The table that \<open>close_handle\<close> leaves behind.\<close>

definition close_entry :: "bool \<Rightarrow> nat \<Rightarrow> handle_table \<Rightarrow> handle_table" where
  "close_entry mem_ok i table =
     (let table1 = set_entry i ((ht_entries table i)\<lparr>he_ptr := None\<rparr>) table;
          table2 = (if i < ht_free table1 then table1\<lparr>ht_free := i\<rparr> else table1)
      in if int i = ht_last table2 then shrink_handle_table mem_ok table2 else table2)"

lemma close_entry_spec:
  assumes ok: "table_ok t" and i: "int i \<le> ht_last t"
  shows "table_ok (close_entry mem_ok i t)"
    and "table_refs (close_entry mem_ok i t) + entry_refs (ht_entries t i) = table_refs t"
    and "int j \<le> ht_last (close_entry mem_ok i t) \<and> used (close_entry mem_ok i t) j \<longleftrightarrow> j \<noteq> i \<and> int j \<le> ht_last t \<and> used t j"
    and "j \<noteq> i \<Longrightarrow> ht_entries (close_entry mem_ok i t) j = ht_entries t j"
proof -
  let ?t1 = "set_entry i ((ht_entries t i)\<lparr>he_ptr := None\<rparr>) t"
  define t2 where "t2 = (if i < ht_free ?t1 then ?t1\<lparr>ht_free := i\<rparr> else ?t1)"
  have ce: "close_entry mem_ok i t = (if int i = ht_last t then shrink_handle_table mem_ok t2 else t2)"
    by (simp add: close_entry_def Let_def t2_def set_entry_def)
  have t2: "ht_last t2 = ht_last t" "ht_count t2 = ht_count t" "ht_free t2 = min i (ht_free t)"
      "ht_entries t2 = (ht_entries t)(i := (ht_entries t i)\<lparr>he_ptr := None\<rparr>)"
    by (simp_all add: t2_def set_entry_def)
  have free: "used t2 j" if "j < ht_free t2" for j using that ok t2 by (auto simp: table_ok_def)
  show "table_ok (close_entry mem_ok i t)"
  proof (cases "int i = ht_last t")
    case True
    have "table_ok (shrink_handle_table mem_ok t2)"
    proof (rule table_ok_shrink)
      show "used t2 j" if "j < ht_free t2" for j using that by (rule free)
    qed (use ok t2(1-3) in \<open>simp_all add: table_ok_def min_def\<close>)
    then show ?thesis unfolding ce using True by simp
  next
    case False
    then have "nat (ht_last t) \<noteq> i" using i by auto
    then show ?thesis unfolding ce using ok t2 free False by (auto simp: table_ok_def)
  qed
  have "table_refs t2 = table_refs ?t1" using t2 by (simp add: table_refs_sum set_entry_def)
  moreover have "entry_refs ((ht_entries t i)\<lparr>he_ptr := None\<rparr>) = {#}" by (simp add: entry_refs_def)
  ultimately have r: "table_refs t2 + entry_refs (ht_entries t i) = table_refs t"
    using table_refs_set_entry [OF i, of "(ht_entries t i)\<lparr>he_ptr := None\<rparr>"] by simp
  then show "table_refs (close_entry mem_ok i t) + entry_refs (ht_entries t i) = table_refs t"
    unfolding ce by (simp add: table_refs_shrink)
  show "ht_entries (close_entry mem_ok i t) j = ht_entries t j" if "j \<noteq> i" using that t2 unfolding ce by simp
  have sh: "int j \<le> shrink_last (ht_entries t2) (nat (ht_last t2 + 1)) \<and> used t2 j \<longleftrightarrow> int j \<le> ht_last t2 \<and> used t2 j" for j
  proof (cases "int j \<le> shrink_last (ht_entries t2) (nat (ht_last t2 + 1))")
    case True
    then show ?thesis using shrink_last_bounds(2) [of "ht_entries t2" "nat (ht_last t2 + 1)"] i t2(1) by simp
  next
    case False
    then show ?thesis using shrink_last_bounds(4) [of "ht_entries t2" "nat (ht_last t2 + 1)" j] i t2(1) by auto
  qed
  then show "int j \<le> ht_last (close_entry mem_ok i t) \<and> used (close_entry mem_ok i t) j \<longleftrightarrow> j \<noteq> i \<and> int j \<le> ht_last t \<and> used t j"
    unfolding ce using t2 by auto
qed

lemma close_handle_unfold:
  assumes "get_handle s p h = Some (sel, i, e)" and "he_access e AND RESERVED_CLOSE_PROTECT = 0"
    and "close_handle_op env (the (he_ptr e)) p h" and "\<not> handle_is_global h" and "table_of s sel = Some t"
    and "int i < int (ht_count t)"
  shows "close_handle env mem_ok p h s =
    (release_object_from_handle (the (he_ptr e)) (set_table sel (close_entry mem_ok i t) s), STATUS_SUCCESS)"
proof -
  have "handle_to_index h = int i" using assms(1,4) by (simp add: get_handle_iff)
  then show ?thesis using assms by (simp add: close_handle_def close_entry_def Let_def)
qed

lemma close_handle_cases:
  obtains (refused) "close_handle env mem_ok p h s = (s, snd (close_handle env mem_ok p h s))"
      "snd (close_handle env mem_ok p h s) \<noteq> STATUS_SUCCESS"
  | (closes) sel i e where "get_handle s p h = Some (sel, i, e)" "he_access e AND RESERVED_CLOSE_PROTECT = 0"
      "close_handle_op env (the (he_ptr e)) p h"
proof (cases "get_handle s p h")
  case None
  then show ?thesis by (intro refused) (simp_all add: close_handle_def)
next
  case (Some r)
  obtain sel i e where r: "get_handle s p h = Some (sel, i, e)" using Some by (cases r) auto
  show ?thesis
  proof (cases "he_access e AND RESERVED_CLOSE_PROTECT = 0 \<and> close_handle_op env (the (he_ptr e)) p h")
    case True
    then show ?thesis using closes r by blast
  next
    case False
    then show ?thesis using r by (intro refused) (auto simp: close_handle_def Let_def)
  qed
qed

lemma handle_inv_release_from_handle:
  assumes tabs: "tables_ok s" and acc: "accounted s {#ob#} P" and nf: "\<not> failed s"
  shows "handle_inv (release_object_from_handle ob s) P" and "handles (release_object_from_handle ob s) = handles s"
proof -
  note rel = release_object_from_handle_accounted [OF acc]
  have tb: "table_of (release_object_from_handle ob s) = table_of s" using rel(3,4) by (rule table_of_cong)
  show "handle_inv (release_object_from_handle ob s) P"
    using rel(1,2) tabs nf by (simp add: handle_inv_def tables_ok_def tb)
  show "handles (release_object_from_handle ob s) = handles s" using tb by (rule handles_cong)
qed

lemma close_handle_local:
  assumes inv: "handle_inv s P" and loc: "\<not> handle_is_global h"
  shows "handle_inv (fst (close_handle env mem_ok p h s)) P"
    and "close_handle env mem_ok p h s = (s', st) \<Longrightarrow>
      st \<noteq> STATUS_SUCCESS \<and> s' = s \<or>
      st = STATUS_SUCCESS \<and> (\<exists>i e. get_handle s p h = Some (Local p, i, e) \<and> handles s' = (handles s)((Local p, i) := None))"
proof -
  have "handle_inv (fst (close_handle env mem_ok p h s)) P \<and>
     (snd (close_handle env mem_ok p h s) \<noteq> STATUS_SUCCESS \<and> fst (close_handle env mem_ok p h s) = s \<or>
      snd (close_handle env mem_ok p h s) = STATUS_SUCCESS \<and>
        (\<exists>i e. get_handle s p h = Some (Local p, i, e) \<and> handles (fst (close_handle env mem_ok p h s)) = (handles s)((Local p, i) := None)))"
  proof (cases rule: close_handle_cases [of env mem_ok p h s])
    case refused
    then show ?thesis using inv by (metis fst_conv)
  next
    case (closes sel i e)
    then have sel: "sel = Local p" "handles s (sel, i) = Some e" using loc by (auto simp: get_handle_iff)
    obtain t where t: "table_of s sel = Some t" "int i \<le> ht_last t" "ht_entries t i = e" "he_ptr e \<noteq> None"
      using sel(2) by (rule handles_SomeD)
    then obtain ob where ob: "he_ptr e = Some ob" by auto
    note ok = handle_invD(1) [OF inv t(1)]
    note ce = close_entry_spec [OF ok t(2), where mem_ok = mem_ok]
    let ?s1 = "set_table sel (close_entry mem_ok i t) s"
    have cl: "close_handle env mem_ok p h s = (release_object_from_handle ob ?s1, STATUS_SUCCESS)"
      using close_handle_unfold [OF closes loc t(1)] ok t(2) ob by (simp add: table_ok_def)
    have "table_refs (close_entry mem_ok i t) + {#ob#} = table_refs t + {#}"
      using ce(2) t(3) ob by (simp add: entry_refs_def)
    then have acc: "accounted ?s1 {#ob#} P" by (rule accounted_set_table [OF handle_invD(2) [OF inv] t(1)])
    have nf: "\<not> failed ?s1" using handle_invD(3) [OF inv] by simp
    note rel = handle_inv_release_from_handle [OF tables_ok_set_table [OF handle_invD(4) [OF inv] t(1) ce(1)] acc nf]
    have "handles (release_object_from_handle ob ?s1) = (handles s)((sel, i) := None)"
      unfolding rel(2)
    proof (rule ext, safe)
      fix sel' j
      show "handles ?s1 (sel', j) = ((handles s)((sel, i) := None)) (sel', j)"
        unfolding handles_set_table [OF t(1)] ce(3) using ce(4) t(1) by (auto simp: handles_def)
    qed
    then show ?thesis unfolding cl using rel(1) closes(1) sel(1) by auto
  qed
  then show "handle_inv (fst (close_handle env mem_ok p h s)) P"
    "close_handle env mem_ok p h s = (s', st) \<Longrightarrow>
      st \<noteq> STATUS_SUCCESS \<and> s' = s \<or>
      st = STATUS_SUCCESS \<and> (\<exists>i e. get_handle s p h = Some (Local p, i, e) \<and> handles s' = (handles s)((Local p, i) := None))"
    by auto
qed

section \<open>Looking up handles\<close>

lemma handle_inv_grab:
  assumes "handle_inv s P" and "ob < length (objs s)"
  shows "handle_inv (grab_object ob s) (add_mset ob P)"
  using assms grab_object_accounted [OF handle_invD(2) [OF assms(1)] assms(2)]
  by (simp add: handle_inv_def tables_ok_def)

lemma handle_inv_release:
  assumes "handle_inv s (add_mset ob P)"
  shows "handle_inv (release_object ob s) P" and "handles (release_object ob s) = handles s"
    and "table_of (release_object ob s) = table_of s"
proof -
  note rel = release_object_accounted [OF handle_invD(2) [OF assms]]
  show tb: "table_of (release_object ob s) = table_of s" using rel(3,4) by (rule table_of_cong)
  show "handle_inv (release_object ob s) P"
    using rel(1,2) assms by (simp add: handle_inv_def tables_ok_def tb)
  show "handles (release_object ob s) = handles s" using tb by (rule handles_cong)
qed

lemma table_refs_member:
  assumes "int i \<le> ht_last t" and "he_ptr (ht_entries t i) = Some ob"
  shows "ob \<in># table_refs t"
proof -
  have "entry_refs (ht_entries t i) \<subseteq># table_refs t"
    using table_refs_set_entry [OF assms(1), of null_entry] by (simp add: entry_refs_def null_entry_def) (metis mset_subset_eq_add_right)
  then show ?thesis using assms(2) by (simp add: entry_refs_def)
qed

lemma handles_live:
  assumes "handles s (sel, i) = Some e" and "he_ptr e = Some ob"
  shows "ob \<in># handle_refs s"
proof -
  obtain t where t: "table_of s sel = Some t" "int i \<le> ht_last t" "ht_entries t i = e"
    using assms(1) by (rule handles_SomeD)
  then have "ob \<in># table_refs t" using table_refs_member assms(2) by auto
  moreover have "table_refs t \<subseteq># handle_refs s"
    using handle_refs_set_table [OF t(1), of "t\<lparr>ht_last := - 1\<rparr>"] by (simp add: table_refs_sum) (metis mset_subset_eq_add_right)
  ultimately show ?thesis by (rule mset_subset_eqD [rotated])
qed

definition magic_live :: "handle_env \<Rightarrow> oid multiset \<Rightarrow> bool" where
  "magic_live env P \<longleftrightarrow>
     cur_process_obj env \<in># P \<and> cur_thread_obj env \<in># P \<and> cur_process_token env \<in># P \<and>
     (case cur_thread_token env of None \<Rightarrow> True | Some tok \<Rightarrow> tok \<in># P) \<and>
     (case cur_imp_token env of None \<Rightarrow> True | Some tok \<Rightarrow> tok \<in># P)"

lemma magic_liveD: "magic_live env P \<Longrightarrow> get_magic_handle env h = Some ob \<Longrightarrow> ob \<in># P"
  by (auto simp: magic_live_def get_magic_handle_def split: if_splits option.splits)

lemma magic_live_add [simp]: "magic_live env P \<Longrightarrow> magic_live env (add_mset ob P)"
  by (auto simp: magic_live_def split: option.splits)

text \<open>An object that a handle yields is alive, and the caller owns a reference to it afterwards.\<close>

lemma get_handle_obj_spec:
  assumes inv: "handle_inv s P" and magic: "magic_live env P"
  shows "get_handle_obj env p h access ops s = (s', Inl err) \<Longrightarrow> s' = s"
    and "get_handle_obj env p h access ops s = (s', Inr ob) \<Longrightarrow>
      s' = grab_object ob s \<and> ob < length (objs s) \<and> 0 < refcount (objs s ! ob) \<and> handle_inv s' (add_mset ob P)"
proof -
  show "s' = s" if "get_handle_obj env p h access ops s = (s', Inl err)"
    using that by (auto simp: get_handle_obj_def Let_def split: option.splits if_splits)
  assume res: "get_handle_obj env p h access ops s = (s', Inr ob)"
  have s': "s' = grab_object ob s"
    using res by (auto simp: get_handle_obj_def Let_def split: option.splits if_splits)
  have ob: "ob \<in># handle_refs s + P"
  proof (cases "get_magic_handle env h")
    case (Some x)
    then show ?thesis using res magic_liveD [OF magic, of h] by (auto simp: get_handle_obj_def split: if_splits)
  next
    case None
    then obtain sel i e where e: "get_handle s p h = Some (sel, i, e)" "the (he_ptr e) = ob"
      using res by (auto simp: get_handle_obj_def Let_def split: option.splits if_splits)
    then have e': "handles s (sel, i) = Some e" by (auto simp: get_handle_iff)
    then have "he_ptr e = Some ob" using e(2) by (metis handles_SomeD option.collapse)
    then show ?thesis using handles_live [OF e'] by simp
  qed
  note acc = handle_invD(2) [OF inv]
  have len: "ob < length (objs s)" using accountedD(1) [OF acc, of ob] ob by auto
  have "0 < refcount (objs s ! ob)" using accountedD(2) [OF acc len] ob by (auto simp: count_greater_zero_iff [symmetric] simp del: count_greater_zero_iff)
  then show "s' = grab_object ob s \<and> ob < length (objs s) \<and> 0 < refcount (objs s ! ob) \<and> handle_inv s' (add_mset ob P)"
    using s' len handle_inv_grab [OF inv len] by simp
qed

end
