(* ===== verification/Handle_Requests.thy ===== *)
theory Handle_Requests
  imports Handle_Correct
begin

text \<open>
  The requests on handles as a whole: duplication, inheritance, the end of a process, and sequences of
  requests, as steps of the server that keep its invariant.
\<close>

section \<open>Frames\<close>

lemma obj_frame_set_table [simp]: "obj_frame (set_table sel t s) = obj_frame s"
  by (simp add: obj_frame_def)

lemma obj_frame_grab_for_handle [simp]: "obj_frame (grab_object_for_handle ob s) = obj_frame s"
  by (simp add: grab_object_for_handle_def Let_def obj_frame_upd)

lemma obj_frame_release_from_handle [simp]: "obj_frame (release_object_from_handle ob s) = obj_frame s"
  by (simp add: release_object_from_handle_def Let_def obj_frame_upd)

lemma obj_frame_alloc_entry [simp]: "obj_frame (fst (alloc_entry mem_ok sel ob access s)) = obj_frame s"
  by (simp add: alloc_entry_def split: sum.split prod.split)

lemma obj_frame_alloc_handle_entry [simp]: "obj_frame (fst (alloc_handle_entry mem_ok p ob access attr s)) = obj_frame s"
  by (simp add: alloc_handle_entry_def Let_def)

lemma obj_frame_close_handle [simp]: "obj_frame (fst (close_handle env mem_ok p h s)) = obj_frame s"
  by (simp add: close_handle_def Let_def split: option.split prod.split)

lemma obj_frame_get_handle_obj:
  "get_handle_obj env p h access ops s = (s', r) \<Longrightarrow> obj_frame s' = obj_frame s"
  by (auto simp: get_handle_obj_def Let_def split: option.splits if_splits)

section \<open>Allocation and flags\<close>

lemma alloc_handle_entry_inv:
  assumes inv: "handle_inv s P" and ob: "ob < length (objs s)" and acc: "access AND RESERVED_ALL = 0"
  shows "handle_inv (fst (alloc_handle_entry mem_ok p ob access attr s)) P"
proof (cases "table_of s (Local p)")
  case None
  then show ?thesis using inv acc by (simp add: alloc_handle_entry_def Let_def)
next
  case (Some t)
  then show ?thesis using alloc_entry_spec(1) [OF inv Some ob] acc by (simp add: alloc_handle_entry_def Let_def)
qed

lemma and_not_and: "(x AND NOT m) AND m = (0 :: u32)"
  by (simp add: and.assoc)

lemma alloc_handle_no_access_check_inv:
  assumes "handle_inv s P" and "ob < length (objs s)"
  shows "handle_inv (fst (alloc_handle_no_access_check env mem_ok p ob access attr s)) P"
  unfolding alloc_handle_no_access_check_def Let_def
  using assms and_not_and by (intro alloc_handle_entry_inv)

lemma set_access_inv:
  assumes inv: "handle_inv s P" and e: "handles s (sel, i) = Some e"
  shows "handle_inv (set_access sel i access s) P"
    and "handles (set_access sel i access s) = (handles s)((sel, i) \<mapsto> e\<lparr>he_access := access\<rparr>)"
proof -
  obtain t where t: "table_of s sel = Some t" "int i \<le> ht_last t" "ht_entries t i = e" "he_ptr e \<noteq> None"
    using e by (rule handles_SomeD)
  let ?t = "set_entry i (e\<lparr>he_access := access\<rparr>) t"
  have sa: "set_access sel i access s = set_table sel ?t s" using t by (simp add: set_access_def Let_def)
  have used: "used ?t j = used t j" for j using t(3) by (simp add: set_entry_def)
  have "table_ok ?t" using handle_invD(1) [OF inv t(1)] used by (simp add: table_ok_def set_entry_def)
  moreover have "table_refs ?t = table_refs t + {#}"
    using table_refs_set_entry [OF t(2), of "e\<lparr>he_access := access\<rparr>"] t(3) by (simp add: entry_refs_def)
  ultimately show "handle_inv (set_access sel i access s) P"
    unfolding sa using handle_inv_set_table [OF handle_invD(4,2,3) [OF inv] t(1)] by blast
  show "handles (set_access sel i access s) = (handles s)((sel, i) \<mapsto> e\<lparr>he_access := access\<rparr>)"
  proof (rule ext, safe)
    fix sel' j
    show "handles (set_access sel i access s) (sel', j) = ((handles s)((sel, i) \<mapsto> e\<lparr>he_access := access\<rparr>)) (sel', j)"
      unfolding sa handles_set_table [OF t(1)] using t by (auto simp: set_entry_def handles_def)
  qed
qed

lemma set_handle_flags_inv:
  assumes inv: "handle_inv s P"
  shows "handle_inv (fst (set_handle_flags env (Some p) h msk flags s)) P"
proof (cases "get_magic_handle env h = None \<and> get_handle s p h \<noteq> None")
  case True
  then obtain sel i e where e: "get_handle s p h = Some (sel, i, e)" by auto
  then have "handles s (sel, i) = Some e" by (auto simp: get_handle_iff)
  then show ?thesis using True e set_access_inv(1) [OF inv] by (simp add: set_handle_flags_def Let_def)
next
  case False
  then show ?thesis using inv by (cases "get_handle s p h") (auto simp: set_handle_flags_def)
qed

lemma obj_frame_set_handle_flags [simp]: "obj_frame (fst (set_handle_flags env p h msk flags s)) = obj_frame s"
  by (simp add: set_handle_flags_def set_access_def Let_def split: option.split prod.split)

section \<open>Duplication\<close>

lemma dup_check_local: "dup_check env (Some q) ob access s = (s', r) \<Longrightarrow> s' = s"
  by (auto simp: dup_check_def split: sum.splits option.splits)

lemma dup_alloc_inv:
  assumes inv: "handle_inv s P" and ob: "ob < length (objs s)" and acc: "access AND RESERVED_ALL = 0"
    and opt: "options AND DUPLICATE_MAKE_GLOBAL = 0"
  shows "handle_inv (fst (dup_alloc env mems src h (Some q) access src_access attr options ob s)) P"
proof (cases "access AND NOT src_access \<noteq> 0")
  case True
  obtain s1 r where c: "dup_check env (Some q) ob access s = (s1, r)" by fastforce
  then show ?thesis
    using True opt inv dup_check_local [OF c] alloc_handle_no_access_check_inv [OF inv ob]
    by (simp add: dup_alloc_def split: sum.split)
next
  case False
  note entry = alloc_handle_entry_inv [OF inv ob acc]
  show ?thesis
  proof (cases "get_handle s src h")
    case None
    then show ?thesis using False opt entry by (simp add: dup_alloc_def)
  next
    case (Some r)
    then obtain sel i e where r: "get_handle s src h = Some (sel, i, e)" by (cases r) auto
    then have "handles s (sel, i) = Some e" by (auto simp: get_handle_iff)
    then show ?thesis using False opt entry r set_access_inv(1) [OF inv] by (simp add: dup_alloc_def)
  qed
qed

lemma obj_frame_dup_alloc [simp]:
  "obj_frame (fst (dup_alloc env mems src h (Some q) access src_access attr options ob s)) = obj_frame s"
  if "options AND DUPLICATE_MAKE_GLOBAL = 0"
proof -
  obtain s1 r where c: "dup_check env (Some q) ob access s = (s1, r)" by fastforce
  show ?thesis
    using that dup_check_local [OF c] c
    by (simp add: dup_alloc_def alloc_handle_no_access_check_def Let_def set_access_def split: sum.split option.split)
qed

text \<open>The common end of a request that looked an object up: the reference goes back.\<close>

lemma duplicate_handle_inv:
  assumes inv: "handle_inv s P" and magic: "magic_live env P" and opt: "options AND DUPLICATE_MAKE_GLOBAL = 0"
  shows "handle_inv (fst (duplicate_handle env mems src h (Some q) access attr options s)) P"
    and "obj_frame (fst (duplicate_handle env mems src h (Some q) access attr options s)) = obj_frame s"
proof -
  have "handle_inv (fst (duplicate_handle env mems src h (Some q) access attr options s)) P \<and>
    obj_frame (fst (duplicate_handle env mems src h (Some q) access attr options s)) = obj_frame s"
  proof (cases "get_handle_obj env src h 0 None s")
    case (Pair s1 r)
    show ?thesis
    proof (cases r)
      case (Inl err)
      then show ?thesis using Pair get_handle_obj_spec(1) [OF inv magic Pair [unfolded Inl]] inv by (simp add: duplicate_handle_def)
    next
      case (Inr ob)
      note g = get_handle_obj_spec(2) [OF inv magic Pair [unfolded Inr]]
      have fr: "obj_frame s1 = obj_frame s" using Pair by (rule obj_frame_get_handle_obj)
      define full where "full = (case get_handle s1 src h of Some (_, _, entry) \<Rightarrow> he_access entry | None \<Rightarrow> map_access_op env ob GENERIC_ALL)"
      define access1 where "access1 = (if options AND DUPLICATE_SAME_ACCESS \<noteq> 0 then full AND NOT RESERVED_ALL
                         else map_access_op env ob access AND NOT RESERVED_ALL)"
      obtain s2 res where d: "dup_alloc env mems src h (Some q) access1 (full AND NOT RESERVED_ALL) attr options ob s1 = (s2, res)"
        by fastforce
      have a1: "access1 AND RESERVED_ALL = 0" unfolding access1_def by (simp only: and_not_and split: if_split) simp
      have len: "ob < length (objs s1)" using g by (simp add: grab_object_def)
      have s2: "handle_inv s2 (add_mset ob P)" "obj_frame s2 = obj_frame s"
        using dup_alloc_inv [OF conjunct2 [OF conjunct2 [OF conjunct2 [OF g]]] len a1 opt, of env mems src h q "full AND NOT RESERVED_ALL" attr]
          obj_frame_dup_alloc [OF opt, of env mems src h q access1 "full AND NOT RESERVED_ALL" attr ob s1] d fr by simp_all
      define s3 where "s3 = (case res of Inl err \<Rightarrow> s2 | Inr h' \<Rightarrow> if options AND DUPLICATE_SAME_ATTRIBUTES \<noteq> 0
          then fst (set_handle_flags env (Some q) h' (NOT 0) (drop_bit RESERVED_SHIFT (full AND RESERVED_ALL)) s2) else s2)"
      have s3: "handle_inv s3 (add_mset ob P)" "obj_frame s3 = obj_frame s"
        using s2 set_handle_flags_inv [OF s2(1)] by (auto simp: s3_def split: sum.split)
      have "fst (duplicate_handle env mems src h (Some q) access attr options s) = release_object ob s3"
        by (simp only: duplicate_handle_def Pair Inr prod.case sum.case Let_def full_def [symmetric]
            access1_def [symmetric] d s3_def fst_conv)
      then show ?thesis using handle_inv_release(1) [OF s3(1)] s3(2) by simp
    qed
  qed
  then show "handle_inv (fst (duplicate_handle env mems src h (Some q) access attr options s)) P"
    "obj_frame (fst (duplicate_handle env mems src h (Some q) access attr options s)) = obj_frame s" by simp_all
qed

section \<open>The end of a process\<close>

lemma table_refs_list: "table_refs t = (\<Sum>i\<leftarrow>[0..<nat (ht_last t + 1)]. entry_refs (ht_entries t i))"
  by (simp add: table_refs_sum interv_sum_list_conv_sum_set_nat atLeast0LessThan)

lemma destroy_entries_accounted:
  "accounted s ((\<Sum>i\<leftarrow>xs. entry_refs (ents i)) + H) P \<Longrightarrow>
   let s' = fold (\<lambda>i s. case he_ptr (ents i) of None \<Rightarrow> s | Some ob \<Rightarrow> release_object_from_handle ob s) xs s
   in accounted s' H P \<and> failed s' = failed s \<and> tables s' = tables s \<and> global_table s' = global_table s \<and>
      obj_frame s' = obj_frame s"
proof (induction xs arbitrary: s)
  case (Cons i xs)
  show ?case
  proof (cases "he_ptr (ents i)")
    case None
    then show ?thesis using Cons by (simp add: entry_refs_def)
  next
    case (Some ob)
    then have "accounted s (add_mset ob ((\<Sum>i\<leftarrow>xs. entry_refs (ents i)) + H)) P"
      using Cons.prems by (simp add: entry_refs_def)
    note rel = release_object_from_handle_accounted [OF this]
    show ?thesis using Cons.IH [OF rel(1)] rel(2,3,4) Some by (simp add: Let_def)
  qed
qed simp

lemma close_process_handles_inv:
  assumes inv: "handle_inv s P"
  shows "handle_inv (close_process_handles p s) P"
    and "handles (close_process_handles p s) = (\<lambda>(sel, i). if sel = Local p then None else handles s (sel, i))"
    and "obj_frame (close_process_handles p s) = obj_frame s"
proof -
  let ?G = "\<lambda>s'. handle_inv s' P \<and> handles s' = (\<lambda>(sel, i). if sel = Local p then None else handles s (sel, i)) \<and> obj_frame s' = obj_frame s"
  have "?G (close_process_handles p s)"
  proof (cases "table_of s (Local p)")
    case None
    then show ?thesis using inv by (auto simp: close_process_handles_def handles_def fun_eq_iff)
  next
    case (Some t)
    then have p: "p < length (tables s)" "tables s ! p = Some t" by (auto simp: table_of_def split: if_splits)
    let ?s1 = "s\<lparr>tables := (tables s)[p := None]\<rparr>"
    have "handle_refs ?s1 + table_refs t = handle_refs s"
      using sum_list_update_mset [of p "map opt_refs (tables s)" "{#}"] p
      by (simp add: handle_refs_def map_update opt_refs_def ac_simps)
    then have acc: "accounted ?s1 ((\<Sum>i\<leftarrow>[0..<nat (ht_last t + 1)]. entry_refs (ht_entries t i)) + {#}) P"
      using accounted_cong [OF handle_invD(2) [OF inv], of ?s1 "table_refs t"] by (simp add: table_refs_list)
    have eq: "close_process_handles p s = handle_table_destroy t ?s1" using Some by (simp add: close_process_handles_def)
    note d = destroy_entries_accounted [OF acc, unfolded Let_def, folded handle_table_destroy_def, folded eq]
    have tb: "table_of (close_process_handles p s) = table_of ?s1" using d by (intro table_of_cong) auto
    have t1: "table_of ?s1 sel = (if sel = Local p then None else table_of s sel)" for sel
      using p by (auto simp: table_of_def nth_list_update split: table_sel.split)
    have "handles (close_process_handles p s) = (\<lambda>(sel, i). if sel = Local p then None else handles s (sel, i))"
      unfolding handles_def tb t1 by auto
    moreover have "handle_inv (close_process_handles p s) P"
      using d handle_invD [OF inv] unfolding handle_inv_def tables_ok_def tb t1 by auto
    ultimately show ?thesis using d by simp
  qed
  then show "handle_inv (close_process_handles p s) P"
    "handles (close_process_handles p s) = (\<lambda>(sel, i). if sel = Local p then None else handles s (sel, i))"
    "obj_frame (close_process_handles p s) = obj_frame s" by simp_all
qed

section \<open>Inheritance\<close>

text \<open>The state while the table of a new process is being built: its references are counted by \<open>H\<close>.\<close>

definition building :: "server \<Rightarrow> oid multiset \<Rightarrow> oid multiset \<Rightarrow> server \<Rightarrow> bool" where
  "building s0 P H s \<longleftrightarrow>
     accounted s H P \<and> \<not> failed s \<and> table_of s = table_of s0 \<and> tables s = tables s0 \<and> obj_frame s = obj_frame s0"

lemma building_grab:
  assumes b: "building s0 P H s" and ob: "ob \<in># handle_refs s"
  shows "building s0 P (add_mset ob H) (grab_object_for_handle ob s)"
proof -
  have acc: "accounted s H P" using b by (simp add: building_def)
  have "ob < length (objs s)" using accountedD(1) [OF acc, of ob] ob by auto
  then show ?thesis using grab_object_for_handle_accounted [OF acc] b by (simp add: building_def)
qed

lemma table_refs_new_entry:
  assumes "\<not> used t i" and "\<And>j. ht_last t < int j \<Longrightarrow> j < i \<Longrightarrow> \<not> used t j"
  shows "table_refs ((set_entry i e t)\<lparr>ht_last := max (ht_last t) (int i)\<rparr>) = table_refs t + entry_refs e"
proof -
  let ?n = "nat (max (ht_last t) (int i) + 1)"
  let ?old = "\<lambda>j. entry_refs (ht_entries t j)"
  have "(\<Sum>j<nat (ht_last t + 1). ?old j) = (\<Sum>j\<in>{..<?n} - {i}. ?old j)"
  proof (rule sum.mono_neutral_cong)
    show "?old j = {#}" if "j \<in> {..<?n} - {i} - {..<nat (ht_last t + 1)}" for j
      using that assms(2) [of j] by (auto simp: entry_refs_def max_def split: if_splits)
    show "?old j = {#}" if "j \<in> {..<nat (ht_last t + 1)} - ({..<?n} - {i})" for j
      using that assms(1) by (auto simp: entry_refs_def)
  qed auto
  also have "\<dots> = (\<Sum>j\<in>{..<?n} - {i}. entry_refs (((ht_entries t)(i := e)) j))" by (intro sum.cong) auto
  finally have "table_refs t = (\<Sum>j\<in>{..<?n} - {i}. entry_refs (((ht_entries t)(i := e)) j))" by (simp add: table_refs_sum)
  moreover have "i \<in> {..<?n}" by simp
  ultimately show ?thesis by (simp add: table_refs_sum set_entry_def sum.remove [of "{..<?n}" i])
qed

definition built :: "server \<Rightarrow> oid multiset \<Rightarrow> nat \<Rightarrow> handle_table \<times> server \<Rightarrow> bool" where
  "built s0 P n = (\<lambda>(t, s).
     building s0 P (table_refs t) s \<and> ht_count t = n \<and> ht_free t = 0 \<and> - 1 \<le> ht_last t \<and> ht_last t < int n \<and>
     (\<forall>j. ht_last t < int j \<longrightarrow> j < n \<longrightarrow> \<not> used t j))"

lemma inherit_handle_built:
  assumes b: "built s0 P n (t, s)" and par: "table_of s0 (Local p) = Some pt" "table_ok pt" "ht_count pt = n"
    and loc: "\<not> handle_is_global h"
  shows "built s0 P n (inherit_handle p h (t, s))"
proof (cases "get_handle s p h")
  case None
  then show ?thesis using b by (simp add: inherit_handle_def)
next
  case (Some r)
  then obtain sel i e where r: "get_handle s p h = Some (sel, i, e)" by (cases r) auto
  then have e: "sel = Local p" "handle_to_index h = int i" "handles s (sel, i) = Some e"
    using loc by (auto simp: get_handle_iff)
  have bd: "building s0 P (table_refs t) s" using b by (simp add: built_def)
  obtain pt' where "table_of s sel = Some pt'" "int i \<le> ht_last pt'" "he_ptr e \<noteq> None" using e(3) by (rule handles_SomeD)
  moreover have "table_of s = table_of s0" using bd by (simp add: building_def)
  ultimately have i: "i < n" "he_ptr e \<noteq> None" using par e(1) by (auto simp: table_ok_def)
  then obtain ob where ob: "he_ptr e = Some ob" by auto
  show ?thesis
  proof (cases "he_access e AND RESERVED_INHERIT = 0 \<or> used t i")
    case True
    then show ?thesis using b r e i by (auto simp: inherit_handle_def Let_def built_def)
  next
    case False
    let ?t = "(set_entry i e t)\<lparr>ht_last := max (ht_last t) (int i)\<rparr>"
    have step: "inherit_handle p h (t, s) = (?t, grab_object_for_handle ob s)"
      using r e i ob False b by (simp add: inherit_handle_def Let_def built_def)
    have "table_refs ?t = add_mset ob (table_refs t)"
      using table_refs_new_entry [of t i e] False b i ob by (auto simp: built_def entry_refs_def)
    then have "building s0 P (table_refs ?t) (grab_object_for_handle ob s)"
      using building_grab [OF bd handles_live [OF e(3) ob]] by simp
    then show ?thesis unfolding step using b i by (auto simp: built_def set_entry_def)
  qed
qed

lemma inherit_handles_built:
  assumes "built s0 P n ts" and "table_of s0 (Local p) = Some pt" "table_ok pt" "ht_count pt = n"
    and "\<And>h. h \<in> set hs \<Longrightarrow> \<not> handle_is_global h"
  shows "built s0 P n (fold (inherit_handle p) hs ts)"
  using assms(1,5)
proof (induction hs arbitrary: ts)
  case (Cons h hs)
  then show ?case using inherit_handle_built [OF _ assms(2-4), of P "fst ts" "snd ts" h] by simp
qed simp

definition copying :: "server \<Rightarrow> oid multiset \<Rightarrow> handle_table \<Rightarrow> nat \<Rightarrow> handle_table \<times> server \<Rightarrow> bool" where
  "copying s0 P t0 k = (\<lambda>(t, s).
     building s0 P (\<Sum>i<k. entry_refs (ht_entries t i)) s \<and> ht_count t = ht_count t0 \<and> ht_free t = ht_free t0 \<and>
     ht_last t = ht_last t0 \<and> (\<forall>i. k \<le> i \<longrightarrow> ht_entries t i = ht_entries t0 i))"

lemma copy_entry_copying:
  assumes c: "copying s0 P t0 k (t, s)"
    and live: "\<And>ob. he_ptr (ht_entries t0 k) = Some ob \<Longrightarrow> ob \<in># handle_refs s"
  shows "copying s0 P t0 (Suc k) (copy_entry k (t, s))"
proof (cases "he_ptr (ht_entries t k)")
  case None
  then show ?thesis using c by (simp add: copy_entry_def copying_def Let_def entry_refs_def)
next
  case (Some ob)
  have k: "ht_entries t k = ht_entries t0 k" using c by (simp add: copying_def)
  have b: "building s0 P (\<Sum>i<k. entry_refs (ht_entries t i)) s" using c by (simp add: copying_def)
  show ?thesis
  proof (cases "he_access (ht_entries t k) AND RESERVED_INHERIT = 0")
    case True
    have "(\<Sum>i<k. entry_refs (ht_entries (set_entry k x t) i)) = (\<Sum>i<k. entry_refs (ht_entries t i))" for x
      by (intro sum.cong) (auto simp: set_entry_def)
    then show ?thesis using True Some c
      by (simp add: copy_entry_def copying_def Let_def) (simp add: set_entry_def entry_refs_def)
  next
    case False
    have "building s0 P (add_mset ob (\<Sum>i<k. entry_refs (ht_entries t i))) (grab_object_for_handle ob s)"
      using building_grab [OF b] live Some k by simp
    then show ?thesis using False Some c by (simp add: copy_entry_def copying_def Let_def entry_refs_def)
  qed
qed

lemma copy_entries_copying:
  assumes "building s0 P {#} s" and "\<And>i ob. i < n \<Longrightarrow> he_ptr (ht_entries t0 i) = Some ob \<Longrightarrow> ob \<in># handle_refs s0"
  shows "k \<le> n \<Longrightarrow> copying s0 P t0 k (fold copy_entry [0..<k] (t0, s))"
proof (induction k)
  case 0
  then show ?case using assms(1) by (simp add: copying_def)
next
  case (Suc k)
  obtain t' s' where f: "fold copy_entry [0..<k] (t0, s) = (t', s')" by fastforce
  have c: "copying s0 P t0 k (t', s')" using Suc f by simp
  then have "table_of s' = table_of s0" "tables s' = tables s0" by (simp_all add: copying_def building_def)
  then have "table_of s' Global = table_of s0 Global" by simp
  then have "global_table s' = global_table s0" by (simp add: table_of_def)
  then have "handle_refs s' = handle_refs s0" using \<open>tables s' = tables s0\<close> by (simp add: handle_refs_def)
  then show ?case using copy_entry_copying [OF c] assms(2) [of k] Suc.prems f by simp
qed

lemma table_ok_fresh: "alloc_handle_table mem_ok junk 0 = Inr t \<Longrightarrow> table_ok t \<and> table_refs t = {#}"
  by (auto simp: alloc_handle_table_def table_ok_def table_refs_sum split: if_splits)

lemma copy_handle_table_spec:
  assumes inv: "handle_inv s P" and par: "table_of s (Local p) = Some pt"
    and loc: "\<And>hs h. handles_arg = Some hs \<Longrightarrow> h \<in> set hs \<union> set std_handles \<Longrightarrow> \<not> handle_is_global h"
    and res: "copy_handle_table mem_ok shrink_ok junk p handles_arg std_handles s = (s', r)"
  shows "case r of Inl err \<Rightarrow> s' = s | Inr t \<Rightarrow> building s P (table_refs t) s' \<and> table_ok t"
proof (cases "alloc_handle_table mem_ok junk (ht_count pt)")
  case (Inl err)
  then have "(s', r) = (s, Inl err)" using res par by (simp add: copy_handle_table_def)
  then show ?thesis by simp
next
  case (Inr t)
  note ok = handle_invD(1) [OF inv par]
  have t: "ht_count t = ht_count pt" "ht_free t = 0" "ht_last t = - 1"
    using Inr ok by (auto simp: alloc_handle_table_def table_ok_def split: if_splits)
  have b0: "building s P {#} s" using handle_invD [OF inv] by (simp add: building_def)
  have shr: "building s P (table_refs (shrink_handle_table shrink_ok u)) s1 \<and> table_ok (shrink_handle_table shrink_ok u)"
    if "building s P (table_refs u) s1" "ht_count u = ht_count pt" "ht_free u = 0" "- 1 \<le> ht_last u" "ht_last u < int (ht_count pt)" for u s1
    using that ok by (auto simp: table_refs_shrink table_ok_def [of pt] intro!: table_ok_shrink)
  show ?thesis
  proof (cases handles_arg)
    case (Some hs)
    let ?t0 = "t\<lparr>ht_entries := (\<lambda>i. if i < ht_count pt then null_entry else ht_entries t i)\<rparr>"
    obtain u s1 where f: "fold (inherit_handle p) (hs @ take 3 std_handles) (?t0, s) = (u, s1)" by fastforce
    have "built s P (ht_count pt) (?t0, s)"
      using b0 t ok by (auto simp: built_def table_refs_sum null_entry_def table_ok_def)
    then have "built s P (ht_count pt) (u, s1)"
      unfolding f [symmetric] using loc [OF Some] par ok
      by (intro inherit_handles_built) (auto dest: in_set_takeD)
    then show ?thesis using shr [of u s1] res par Inr Some f by (auto simp: copy_handle_table_def built_def)
  next
    case None
    let ?t0 = "t\<lparr>ht_last := ht_last pt, ht_entries := (\<lambda>i. if int i \<le> ht_last pt then ht_entries pt i else ht_entries t i)\<rparr>"
    let ?n = "nat (ht_last pt + 1)"
    obtain u s1 where f: "fold copy_entry [0..<?n] (?t0, s) = (u, s1)" by fastforce
    have "copying s P ?t0 ?n (u, s1)"
      unfolding f [symmetric]
    proof (rule copy_entries_copying [OF b0 _ order_refl])
      fix i ob assume i: "i < ?n" "he_ptr (ht_entries ?t0 i) = Some ob"
      then have pt: "int i \<le> ht_last pt" "he_ptr (ht_entries pt i) = Some ob" by (auto split: if_splits)
      then have "handles s (Local p, i) = Some (ht_entries pt i)" using par by (simp add: handles_def)
      then show "ob \<in># handle_refs s" using pt(2) by (rule handles_live)
    qed
    then show ?thesis using shr [of u s1] res par Inr None f t ok
      by (auto simp: copy_handle_table_def copying_def table_refs_sum table_ok_def [of pt])
  qed
qed

lemma create_process_handles_inv:
  assumes inv: "handle_inv s P"
    and par: "\<And>p. parent = Some p \<Longrightarrow> inherit \<Longrightarrow> table_of s (Local p) \<noteq> None"
    and loc: "\<And>hs h. handles_arg = Some hs \<Longrightarrow> h \<in> set hs \<union> set std_handles \<Longrightarrow> \<not> handle_is_global h"
    and res: "create_process_handles mem_ok shrink_ok junk parent inherit handles_arg std_handles s = (s', r)"
  shows "handle_inv s' P \<and> obj_frame s' = obj_frame s"
proof -
  let ?pick = "case parent of None \<Rightarrow> (s, alloc_handle_table mem_ok junk 0)
            | Some p \<Rightarrow> if inherit then copy_handle_table mem_ok shrink_ok junk p handles_arg std_handles s
                       else (s, alloc_handle_table mem_ok junk 0)"
  obtain s1 q where pick: "?pick = (s1, q)" by fastforce
  have b0: "building s P {#} s" using handle_invD [OF inv] by (simp add: building_def)
  have "case q of Inl err \<Rightarrow> s1 = s | Inr t \<Rightarrow> building s P (table_refs t) s1 \<and> table_ok t"
  proof (cases "\<exists>p. parent = Some p \<and> inherit")
    case True
    then obtain p where p: "parent = Some p" "inherit" by auto
    obtain pt where "table_of s (Local p) = Some pt" using par p by auto
    then show ?thesis using copy_handle_table_spec [OF inv _ loc] pick p by simp
  next
    case False
    then have "s1 = s" "q = alloc_handle_table mem_ok junk 0" using pick by (auto split: option.splits)
    then show ?thesis using table_ok_fresh [of mem_ok junk] b0 by (auto split: sum.split)
  qed
  moreover have "s' = (case q of Inl err \<Rightarrow> s1 | Inr t \<Rightarrow> s1\<lparr>tables := tables s1 @ [Some t]\<rparr>)"
    using res pick by (auto simp: create_process_handles_def split: sum.splits)
  moreover have "handle_inv (s1\<lparr>tables := tables s1 @ [Some t]\<rparr>) P \<and> obj_frame s1 = obj_frame s"
    if b: "building s P (table_refs t) s1" and ok: "table_ok t" for t
  proof -
    let ?s = "s1\<lparr>tables := tables s1 @ [Some t]\<rparr>"
    have "handle_refs ?s = handle_refs s1 + table_refs t" by (simp add: handle_refs_def opt_refs_def ac_simps)
    then have "accounted ?s {#} P" using accounted_cong [of s1 "table_refs t" P ?s "{#}"] b by (simp add: building_def)
    moreover have "table_of ?s sel = (if sel = Local (length (tables s1)) then Some t else table_of s1 sel)" for sel
      by (auto simp: table_of_def nth_append split: table_sel.split)
    then have "tables_ok ?s" using ok handle_invD(4) [OF inv] b by (auto simp: tables_ok_def building_def)
    ultimately show ?thesis using b by (simp add: handle_inv_def building_def)
  qed
  ultimately show ?thesis using inv by (auto split: sum.splits)
qed

section \<open>Requests\<close>

lemma perm_sum_update:
  assumes "ob < length xs"
  shows "(\<Sum>i<length xs. if (xs[ob := v]) ! i then {#i#} else {#}) + (if xs ! ob then {#ob#} else {#}) =
    (\<Sum>i<length xs. if xs ! i then {#i#} else {#}) + (if v then {#ob#} else {#})"
proof -
  have "(\<Sum>i\<in>{..<length xs} - {ob}. if (xs[ob := v]) ! i then {#i#} else {#}) = (\<Sum>i\<in>{..<length xs} - {ob}. if xs ! i then {#i#} else {#})"
    by (intro sum.cong) auto
  then show ?thesis using assms by (simp add: sum.remove [of "{..<length xs}" ob])
qed

text \<open>A permanent object is kept alive by a reference of its own.\<close>

definition perm_refs :: "server \<Rightarrow> oid multiset" where
  "perm_refs s = (\<Sum>i<length (objs s). if map is_permanent (objs s) ! i then {#i#} else {#})"

lemma perm_refs_frame: "obj_frame s' = obj_frame s \<Longrightarrow> perm_refs s' = perm_refs s"
proof -
  assume "obj_frame s' = obj_frame s"
  then have "map fst (obj_frame s') = map fst (obj_frame s)" by simp
  then have eq: "map is_permanent (objs s') = map is_permanent (objs s)" by (simp add: obj_frame_def comp_def)
  then have "length (objs s') = length (objs s)" by (metis length_map)
  then show ?thesis using eq by (simp add: perm_refs_def)
qed

lemma perm_refs_set:
  assumes "ob < length (objs s)" and "\<And>x. is_permanent (f x) = v"
  shows "perm_refs (upd_obj ob f s) + (if is_permanent (objs s ! ob) then {#ob#} else {#}) = perm_refs s + (if v then {#ob#} else {#})"
  using perm_sum_update [of ob "map is_permanent (objs s)" v] assms by (simp add: perm_refs_def map_update)

definition server_inv :: "server \<Rightarrow> oid multiset \<Rightarrow> bool" where
  "server_inv s Q \<longleftrightarrow> handle_inv s (Q + perm_refs s)"

lemma server_invI: "handle_inv s' (Q + perm_refs s) \<Longrightarrow> obj_frame s' = obj_frame s \<Longrightarrow> server_inv s' Q"
  using perm_refs_frame [of s' s] by (simp add: server_inv_def)

lemma magic_live_more: "magic_live env Q \<Longrightarrow> magic_live env (Q + R)"
  by (auto simp: magic_live_def split: option.splits)

lemma get_handle_obj_cases:
  assumes "handle_inv s P" and "magic_live env P"
  obtains (error) err where "get_handle_obj env p h access ops s = (s, Inl err)"
  | (found) ob where "get_handle_obj env p h access ops s = (grab_object ob s, Inr ob)" "ob < length (objs s)"
      "handle_inv (grab_object ob s) (add_mset ob P)"
proof (cases "get_handle_obj env p h access ops s")
  case (Pair s1 r)
  show ?thesis
  proof (cases r)
    case (Inl err)
    then show ?thesis using error Pair get_handle_obj_spec(1) [OF assms Pair [unfolded Inl]] by auto
  next
    case (Inr ob)
    then show ?thesis using found Pair get_handle_obj_spec(2) [OF assms Pair [unfolded Inr]] by auto
  qed
qed

lemma req_get_object_info_inv:
  assumes "server_inv s Q" and "magic_live env Q"
  shows "server_inv (fst (req_get_object_info env h s)) Q"
proof -
  note inv = assms(1) [unfolded server_inv_def]
  show ?thesis
    using inv magic_live_more [OF assms(2)]
  proof (cases rule: get_handle_obj_cases [where p = "cur_process env" and h = h and access = "0" and ops = None])
    case (error err)
    then show ?thesis using assms(1) by (simp add: req_get_object_info_def)
  next
    case (found ob)
    then show ?thesis using handle_inv_release(1) [OF found(3)]
      by (intro server_invI [of _ Q s]) (simp_all add: req_get_object_info_def)
  qed
qed

lemma req_compare_objects_inv:
  assumes "server_inv s Q" and "magic_live env Q"
  shows "server_inv (fst (req_compare_objects env h1 h2 s)) Q"
proof -
  note inv = assms(1) [unfolded server_inv_def]
  note magic = magic_live_more [OF assms(2), of "perm_refs s"]
  show ?thesis
    using inv magic
  proof (cases rule: get_handle_obj_cases [where p = "cur_process env" and h = h1 and access = "0" and ops = None])
    case (error err)
    then show ?thesis using assms(1) by (simp add: req_compare_objects_def)
  next
    case (found ob1)
    show ?thesis
    using found(3) magic_live_add [OF magic]
  proof (cases rule: get_handle_obj_cases [where p = "cur_process env" and h = h2 and access = "0" and ops = None])
      case (error err)
      then show ?thesis using found handle_inv_release(1) [OF found(3)]
        by (intro server_invI [of _ Q s]) (simp_all add: req_compare_objects_def)
    next
      case snd: (found ob2)
      from handle_inv_release(1) [OF handle_inv_release(1) [OF snd(3)]] show ?thesis
        using found(1) snd(1) by (intro server_invI [of _ Q s]) (simp_all add: req_compare_objects_def)
    qed
  qed
qed

lemma handle_inv_perm:
  assumes "handle_inv s P"
  shows "handle_inv (upd_obj ob (\<lambda>x. x\<lparr>is_permanent := b\<rparr>) s) P"
proof (cases "ob < length (objs s)")
  case True
  have "accounted (upd_obj ob (\<lambda>x. x\<lparr>is_permanent := b\<rparr>) s) {#} P"
  proof (rule accounted_update [OF handle_invD(2) [OF assms] True])
    show "refcount ((objs s ! ob)\<lparr>is_permanent := b\<rparr>) \<noteq> 0 \<or> holds (objs s ! ob) = []"
      using accountedD(4) [OF handle_invD(2) [OF assms] True] by auto
  qed (use accountedD(2,3) [OF handle_invD(2) [OF assms] True] in simp_all)
  moreover have "table_of (upd_obj ob (\<lambda>x. x\<lparr>is_permanent := b\<rparr>) s) = table_of s" by (rule table_of_cong) simp_all
  ultimately show ?thesis using assms by (simp add: handle_inv_def tables_ok_def)
qed (use assms in \<open>simp add: list_update_beyond\<close>)

lemma make_permanent_inv:
  assumes inv: "handle_inv s (Q + perm_refs s)" and ob: "ob < length (objs s)" and np: "\<not> is_permanent (objs s ! ob)"
  shows "handle_inv (make_object_permanent ob (grab_object ob s)) (Q + perm_refs (make_object_permanent ob (grab_object ob s)))"
proof -
  let ?s1 = "grab_object ob s"
  have ob1: "ob < length (objs ?s1)" "\<not> is_permanent (objs ?s1 ! ob)" using ob np by (simp_all add: grab_object_def)
  have "perm_refs ?s1 = perm_refs s" by (rule perm_refs_frame) simp
  then have "perm_refs (make_object_permanent ob ?s1) = add_mset ob (perm_refs s)"
    using perm_refs_set [OF ob1(1), of "\<lambda>x. x\<lparr>is_permanent := True\<rparr>" True] ob1(2) by (simp add: make_object_permanent_def)
  then show ?thesis using handle_inv_perm [OF handle_inv_grab [OF inv ob], of ob True] by (simp add: make_object_permanent_def)
qed

lemma make_temporary_inv:
  assumes inv: "handle_inv s (Q + perm_refs s)" and ob: "ob < length (objs s)" and pe: "is_permanent (objs s ! ob)"
  shows "handle_inv (release_object ob (make_object_temporary ob s)) (Q + perm_refs (release_object ob (make_object_temporary ob s)))"
proof -
  let ?s1 = "make_object_temporary ob s"
  have "add_mset ob (perm_refs ?s1) = perm_refs s"
    using perm_refs_set [OF ob, of "\<lambda>x. x\<lparr>is_permanent := False\<rparr>" False] pe by (simp add: make_object_temporary_def)
  then have "handle_inv ?s1 (add_mset ob (Q + perm_refs ?s1))"
    using handle_inv_perm [OF inv, of ob False] by (simp add: make_object_temporary_def) (metis union_mset_add_mset_right)
  from handle_inv_release(1) [OF this] show ?thesis using perm_refs_frame [of "release_object ob ?s1" ?s1] by simp
qed

lemma req_set_object_permanence_inv:
  assumes "server_inv s Q" and "magic_live env Q"
  shows "server_inv (fst (req_set_object_permanence env h permanent s)) Q"
proof -
  note inv = assms(1) [unfolded server_inv_def]
  show ?thesis
    using inv magic_live_more [OF assms(2)]
  proof (cases rule: get_handle_obj_cases [where p = "cur_process env" and h = h and access = "if permanent then 0 else DELETE" and ops = None])
    case (error err)
    then show ?thesis using assms(1) by (simp add: req_set_object_permanence_def)
  next
    case (found ob)
    let ?s1 = "grab_object ob s"
    have ob: "ob < length (objs ?s1)" using found(2) by (simp add: grab_object_def)
    have pr: "perm_refs ?s1 = perm_refs s" by (rule perm_refs_frame) simp
    define s2 where "s2 = (if permanent \<and> \<not> is_permanent (objs ?s1 ! ob) then make_object_permanent ob (grab_object ob ?s1)
      else if \<not> permanent \<and> is_permanent (objs ?s1 ! ob) then release_object ob (make_object_temporary ob ?s1) else ?s1)"
    have "handle_inv ?s1 (add_mset ob Q + perm_refs ?s1)" using found(3) pr by simp
    from make_permanent_inv [OF this ob] make_temporary_inv [OF this ob] this
    have "handle_inv s2 (add_mset ob Q + perm_refs s2)" unfolding s2_def by (simp split: if_split)
    then have "handle_inv s2 (add_mset ob (Q + perm_refs s2))" by simp
    from handle_inv_release(1) [OF this] have "server_inv (release_object ob s2) Q"
      by (intro server_invI [of _ Q s2]) simp_all
    moreover have "fst (req_set_object_permanence env h permanent s) = release_object ob s2"
      using found(1) by (simp add: req_set_object_permanence_def Let_def s2_def)
    ultimately show ?thesis by simp
  qed
qed

lemma dup_handle_tail:
  assumes inv: "handle_inv s (add_mset src P)" and loc: "\<not> handle_is_global src_handle"
  shows "handle_inv (release_object src (if close then fst (close_handle env close_ok p src_handle s) else s)) P \<and>
    obj_frame (release_object src (if close then fst (close_handle env close_ok p src_handle s) else s)) = obj_frame s"
  using handle_inv_release(1) [OF close_handle_local(1) [OF inv loc]] handle_inv_release(1) [OF inv] by simp

lemma req_dup_handle_inv:
  assumes sinv: "server_inv s Q" and sm: "magic_live env Q"
    and opt: "options AND DUPLICATE_MAKE_GLOBAL = 0" and loc: "\<not> handle_is_global src_handle"
  shows "server_inv (fst (req_dup_handle env mems close_ok src_process src_handle dst_process access attr options s)) Q"
proof -
  let ?P = "Q + perm_refs s"
  note inv = sinv [unfolded server_inv_def]
  note magic = magic_live_more [OF sm, of "perm_refs s"]
  let ?get = "\<lambda>h s. get_handle_obj env (cur_process env) h PROCESS_DUP_HANDLE (Some (process_ops env)) s"
  show ?thesis
    using inv magic
  proof (cases rule: get_handle_obj_cases [where p = "cur_process env" and h = src_process and access = PROCESS_DUP_HANDLE and ops = "Some (process_ops env)"])
    case (error err)
    then show ?thesis using sinv by (simp add: req_dup_handle_def get_process_from_handle_def)
  next
    case (found src)
    note m1 = magic_live_add [OF magic, of src]
    show ?thesis
      using found(3) m1
    proof (cases rule: get_handle_obj_cases [where p = "cur_process env" and h = dst_process and access = PROCESS_DUP_HANDLE and ops = "Some (process_ops env)"])
      case (error err)
      have "fst (req_dup_handle env mems close_ok src_process src_handle dst_process access attr options s) =
          release_object src (if options AND DUPLICATE_CLOSE_SOURCE \<noteq> 0 then fst (close_handle env close_ok (process_of env src) src_handle (grab_object src s)) else grab_object src s)"
        using found(1) error opt by (simp add: req_dup_handle_def get_process_from_handle_def Let_def)
      then show ?thesis
        using dup_handle_tail [OF found(3) loc] by (intro server_invI [of _ Q s]) simp_all
    next
      case dst: (found dst)
      obtain s3 res where d: "duplicate_handle env mems (process_of env src) src_handle (Some (process_of env dst)) access attr options
          (grab_object dst (grab_object src s)) = (s3, res)" by fastforce
      note dup = duplicate_handle_inv [OF dst(3) magic_live_add [OF m1] opt, of mems "process_of env src" src_handle "process_of env dst" access attr, unfolded d fst_conv]
      note rel = handle_inv_release(1) [OF dup(1)]
      have "fst (req_dup_handle env mems close_ok src_process src_handle dst_process access attr options s) =
          release_object src (if options AND DUPLICATE_CLOSE_SOURCE \<noteq> 0 \<and> (Some dst \<noteq> Some src \<or> res \<noteq> Inr src_handle)
            then fst (close_handle env close_ok (process_of env src) src_handle (release_object dst s3)) else release_object dst s3)"
        using found(1) dst(1) opt d by (simp add: req_dup_handle_def get_process_from_handle_def Let_def)
      then show ?thesis
        using dup_handle_tail [OF rel loc] dup(2) by (intro server_invI [of _ Q s]) simp_all
    qed
  qed
qed

lemma global_table_inv:
  assumes inv: "handle_inv s P" and none: "global_table s = None" and t: "alloc_handle_table mem_ok junk 0 = Inr t"
  shows "handle_inv (s\<lparr>global_table := Some t\<rparr>) P"
proof -
  have ok: "table_ok t" "table_refs t = {#}" using table_ok_fresh [OF t] by simp_all
  have "handle_refs (s\<lparr>global_table := Some t\<rparr>) = handle_refs s" using none ok(2) by (simp add: handle_refs_def opt_refs_def)
  then have "accounted (s\<lparr>global_table := Some t\<rparr>) {#} P"
    using accounted_cong [OF handle_invD(2) [OF inv], of "s\<lparr>global_table := Some t\<rparr>" "{#}"] by simp
  moreover have "table_of (s\<lparr>global_table := Some t\<rparr>) sel = (if sel = Global then Some t else table_of s sel)" for sel
    by (simp add: table_of_def split: table_sel.split)
  then have "tables_ok (s\<lparr>global_table := Some t\<rparr>)" using ok(1) handle_invD(4) [OF inv] by (auto simp: tables_ok_def)
  ultimately show ?thesis using inv by (simp add: handle_inv_def)
qed

lemma alloc_global_handle_inv:
  assumes inv: "handle_inv s P" and ob: "ob < length (objs s)"
  shows "handle_inv (fst (alloc_global_handle_no_access_check table_ok' mem_ok junk ob access s)) P"
    and "obj_frame (fst (alloc_global_handle_no_access_check table_ok' mem_ok junk ob access s)) = obj_frame s"
proof -
  have entry: "handle_inv (fst (alloc_entry mem_ok Global ob access s1)) P" if "handle_inv s1 P" "objs s1 = objs s" "global_table s1 = Some t" for s1 t
    using alloc_entry_spec(1) [OF that(1), of Global t ob] that ob by (simp add: table_of_def)
  have fst: "fst (case r of (s2, Inl err) \<Rightarrow> (s2, Inl err) | (s2, Inr h) \<Rightarrow> (s2, Inr (f h))) = fst r" for r :: "server \<times> handle result" and f :: "handle \<Rightarrow> handle"
    by (cases r) (simp split: sum.split)
  show "handle_inv (fst (alloc_global_handle_no_access_check table_ok' mem_ok junk ob access s)) P"
  proof (cases "global_table s")
    case (Some t)
    then show ?thesis using entry [OF inv] by (simp add: alloc_global_handle_no_access_check_def fst)
  next
    case None
    then show ?thesis using inv entry [OF global_table_inv [OF inv None]]
      by (cases "alloc_handle_table table_ok' junk 0") (simp_all add: alloc_global_handle_no_access_check_def fst)
  qed
  show "obj_frame (fst (alloc_global_handle_no_access_check table_ok' mem_ok junk ob access s)) = obj_frame s"
    by (cases "global_table s"; cases "alloc_handle_table table_ok' junk 0")
      (simp_all add: alloc_global_handle_no_access_check_def fst)
qed

text \<open>
  One request on handles, by any thread. The guards exclude what the code does not survive: closing or
  inheriting a global handle by its value, duplication into the global table, and inheritance from a
  process that is already dead.
\<close>

inductive handle_step :: "oid multiset \<Rightarrow> server \<Rightarrow> server \<Rightarrow> bool" for Q where
  close: "\<not> handle_is_global h \<Longrightarrow> handle_step Q s (fst (req_close_handle env mem_ok h s))"
| set_info: "handle_step Q s (fst (req_set_handle_info env h msk flags s))"
| dup: "magic_live env Q \<Longrightarrow> options AND DUPLICATE_MAKE_GLOBAL = 0 \<Longrightarrow> \<not> handle_is_global src_handle \<Longrightarrow>
    handle_step Q s (fst (req_dup_handle env mems close_ok src_process src_handle dst_process access attr options s))"
| info: "magic_live env Q \<Longrightarrow> handle_step Q s (fst (req_get_object_info env h s))"
| permanence: "magic_live env Q \<Longrightarrow> handle_step Q s (fst (req_set_object_permanence env h permanent s))"
| compare: "magic_live env Q \<Longrightarrow> handle_step Q s (fst (req_compare_objects env h1 h2 s))"
| create: "(\<And>p. parent = Some p \<Longrightarrow> inherit \<Longrightarrow> table_of s (Local p) \<noteq> None) \<Longrightarrow>
    (\<And>hs h. handles_arg = Some hs \<Longrightarrow> h \<in> set hs \<union> set std_handles \<Longrightarrow> \<not> handle_is_global h) \<Longrightarrow>
    handle_step Q s (fst (create_process_handles mem_ok shrink_ok junk parent inherit handles_arg std_handles s))"
| exit: "handle_step Q s (close_process_handles p s)"
| alloc: "ob \<in># Q \<Longrightarrow> access AND RESERVED_ALL = 0 \<Longrightarrow>
    handle_step Q s (fst (alloc_handle_entry mem_ok p ob access attr s))"
| alloc_global: "ob \<in># Q \<Longrightarrow>
    handle_step Q s (fst (alloc_global_handle_no_access_check table_ok' mem_ok junk ob access s))"

lemma handle_step_inv: "handle_step Q s s' \<Longrightarrow> server_inv s Q \<Longrightarrow> server_inv s' Q"
proof (induction rule: handle_step.induct)
  case (close h s env mem_ok)
  then show ?case using close_handle_local(1) [OF close(2) [unfolded server_inv_def] close(1)]
    by (intro server_invI [of _ Q s]) (simp_all add: req_close_handle_def)
next
  case (set_info s env h msk flags)
  then show ?case using set_handle_flags_inv [OF set_info(1) [unfolded server_inv_def]]
    by (intro server_invI [of _ Q s]) (simp_all add: req_set_handle_info_def)
next
  case (dup env options src_handle s mems close_ok src_process dst_process access attr)
  then show ?case by (intro req_dup_handle_inv)
next
  case (create parent inherit s handles_arg std_handles mem_ok shrink_ok junk)
  obtain s' r where res: "create_process_handles mem_ok shrink_ok junk parent inherit handles_arg std_handles s = (s', r)" by fastforce
  show ?case using create_process_handles_inv [OF create(3) [unfolded server_inv_def] create(1,2) res] res
    by (intro server_invI [of _ Q s]) simp_all
next
  case (exit s p)
  then show ?case using close_process_handles_inv [OF exit [unfolded server_inv_def]]
    by (intro server_invI [of _ Q s]) simp_all
next
  case (alloc ob access s mem_ok p attr)
  note inv = alloc(3) [unfolded server_inv_def]
  have "ob < length (objs s)" using accountedD(1) [OF handle_invD(2) [OF inv], of ob] alloc(1) by simp
  then show ?case using alloc_handle_entry_inv [OF inv _ alloc(2)]
    by (intro server_invI [of _ Q s]) simp_all
next
  case (alloc_global ob s table_ok' mem_ok junk access)
  note inv = alloc_global(2) [unfolded server_inv_def]
  have "ob < length (objs s)" using accountedD(1) [OF handle_invD(2) [OF inv], of ob] alloc_global(1) by simp
  then show ?case using alloc_global_handle_inv [OF inv] by (intro server_invI [of _ Q s]) simp_all
qed (simp_all add: req_get_object_info_inv req_compare_objects_inv req_set_object_permanence_inv)

interpretation handle_steps: step_invariant "handle_step Q" "\<lambda>s. server_inv s Q" for Q
  by unfold_locales (rule handle_step_inv)

end
