(* ===== verification/Handle_Properties.thy ===== *)
theory Handle_Properties
  imports Handle_Requests
begin

text \<open>The properties of the handle tables (\<^verbatim>\<open>server/handle.c\<close>), with a small server to evaluate them on.\<close>

section \<open>A small server\<close>

text \<open>
  Objects 0 and 1 are the current process and thread, 2 its token; each is referenced once from outside.
  Object 3 is an event with one handle, index 0 of process 0.
\<close>

definition ex_env :: handle_env where
  "ex_env = \<lparr>map_access_op = (\<lambda>ob access. if access = GENERIC_ALL then 0x1f0003 else access AND NOT 0xf0000000),
     close_handle_op = (\<lambda>_ _ _. True), check_access_op = (\<lambda>_ _. Inr), process_ops = 0, process_of = (\<lambda>_. 0),
     process_token = (\<lambda>_. 2), cur_process = 0, cur_process_obj = 0, cur_thread_obj = 1, cur_process_token = 2,
     cur_thread_token = None, cur_imp_token = Some 2\<rparr>"

definition ex_obj :: "nat \<Rightarrow> nat \<Rightarrow> otype \<Rightarrow> obj" where
  "ex_obj r n ty = \<lparr>refcount = r, handle_count = n, is_permanent = False, otype = ty, holds = []\<rparr>"

definition ex_table :: handle_table where
  "ex_table = \<lparr>ht_count = 32, ht_last = 0, ht_free = 1,
     ht_entries = (\<lambda>i. if i = 0 then \<lparr>he_ptr = Some 3, he_access = 0x100002\<rparr> else null_entry)\<rparr>"

definition ex_server :: server where
  "ex_server = \<lparr>objs = [ex_obj 1 0 0, ex_obj 1 0 1, ex_obj 1 0 2, ex_obj 1 1 3], types = (\<lambda>_. \<lparr>tc_obj_count = 1, tc_obj_max = 1,
     tc_handle_count = 1, tc_handle_max = 1\<rparr>), tables = [Some ex_table], global_table = None, failed = False\<rparr>"

lemma ex_server_inv: "server_inv ex_server {#0, 1, 2#}"
proof -
  have refs: "handle_refs ex_server = {#3#}" "hold_refs ex_server = {#}" "perm_refs ex_server = {#}"
    by (simp_all add: handle_refs_def hold_refs_def perm_refs_def ex_server_def opt_refs_def table_refs_def ex_table_def ex_obj_def
        map_filter_def eval_nat_numeral)
  have "accounted ex_server {#} {#0, 1, 2#}"
    unfolding accounted_def refs by (auto simp: ex_server_def ex_obj_def less_Suc_eq nth_Cons' split: if_splits)
  moreover have "tables_ok ex_server"
    by (auto simp: tables_ok_def table_of_def ex_server_def table_ok_def ex_table_def split: table_sel.splits if_splits)
  ultimately show ?thesis by (simp add: server_inv_def handle_inv_def refs) (simp add: ex_server_def)
qed

lemma ex_magic: "magic_live ex_env {#0, 1, 2#}"
  by (simp add: magic_live_def ex_env_def)

section \<open>Properties\<close>

lemma server_inv_facts:
  assumes "server_inv s Q"
  shows "\<not> failed s" and "tables_ok s"
    and "handles s (sel, i) = Some e \<Longrightarrow> he_ptr e = Some ob \<Longrightarrow>
      ob < length (objs s) \<and> 0 < refcount (objs s ! ob) \<and> handle_count (objs s ! ob) = count (handle_refs s) ob"
proof -
  note inv = assms [unfolded server_inv_def]
  show "\<not> failed s" "tables_ok s" using handle_invD [OF inv] by simp_all
  assume "handles s (sel, i) = Some e" "he_ptr e = Some ob"
  then have ob: "ob \<in># handle_refs s" by (rule handles_live)
  note acc = handle_invD(2) [OF inv]
  have len: "ob < length (objs s)" using accountedD(1) [OF acc, of ob] ob by simp
  have "count (handle_refs s) ob > 0" using ob by simp
  then show "ob < length (objs s) \<and> 0 < refcount (objs s ! ob) \<and> handle_count (objs s ! ob) = count (handle_refs s) ob"
    using len accountedD(2,3) [OF acc len] by simp
qed



lemma get_handle_local:
  assumes "i < MAX_HANDLE_ENTRIES" and "handles s (Local p, i) = Some e"
  shows "get_handle s p (index_to_handle i) = Some (Local p, i, e)"
  using assms index_to_handle_inverse [OF assms(1)] by (simp add: get_handle_iff)

lemma get_handle_cong:
  assumes "\<And>sel i. get_handle s p h = Some (sel, i, the (handles s (sel, i))) \<Longrightarrow> handles s' (sel, i) = handles s (sel, i)"
    and "get_handle s p h \<noteq> None"
  shows "get_handle s' p h = get_handle s p h"
proof -
  obtain sel i e where r: "get_handle s p h = Some (sel, i, e)" using assms(2) by auto
  then have e: "handles s (sel, i) = Some e" by (auto simp: get_handle_iff)
  then have "handles s' (sel, i) = Some e" using assms(1) [of sel i] r by simp
  then have "get_handle s' p h = Some (sel, i, e)" using r by (auto simp: get_handle_iff)
  then show ?thesis using r by simp
qed

lemma and_not_idem: "(x AND NOT m) AND NOT m = x AND NOT (m :: u32)"
  by (simp add: and.assoc)

lemma reserved_inherit_hidden: "((x AND NOT RESERVED_ALL) OR RESERVED_INHERIT) AND NOT RESERVED_ALL = x AND NOT RESERVED_ALL"
proof -
  have "RESERVED_INHERIT AND NOT RESERVED_ALL = (0 :: u32)" by simp
  then show ?thesis by (simp only: bit.conj_disj_distrib2 and_not_idem or.right_neutral)
qed

lemma alloc_handle_entry_result:
  assumes inv: "server_inv s Q" and ob: "ob \<in># Q" and acc: "access AND RESERVED_ALL = 0"
    and res: "alloc_handle_entry mem_ok p ob access attr s = (s', Inr h)"
  obtains i where "i < MAX_HANDLE_ENTRIES" "h = index_to_handle i" "handles s (Local p, i) = None"
    "handles s' = (handles s)((Local p, i) \<mapsto>
        \<lparr>he_ptr = Some ob, he_access = if attr AND OBJ_INHERIT \<noteq> 0 then access OR RESERVED_INHERIT else access\<rparr>)"
proof -
  note hinv = inv [unfolded server_inv_def]
  have len: "ob < length (objs s)" using accountedD(1) [OF handle_invD(2) [OF hinv], of ob] ob by simp
  obtain t where t: "table_of s (Local p) = Some t"
    using res acc by (cases "table_of s (Local p)") (auto simp: alloc_handle_entry_def Let_def)
  have "alloc_entry mem_ok (Local p) ob (if attr AND OBJ_INHERIT \<noteq> 0 then access OR RESERVED_INHERIT else access) s = (s', Inr h)"
    using res acc t by (simp add: alloc_handle_entry_def Let_def)
  from alloc_entry_spec(3) [OF hinv t len this] show ?thesis using that by blast
qed

text \<open>C24. A new handle works: after \<^verbatim>\<open>alloc_handle_no_access_check\<close> the handle it returns is not zero, is not
  mistaken for a global one and leads to the object with the mapped access rights; no handle that was
  open before changes its meaning; and the new handle was not open before.\<close>

theorem alloc_handle_roundtrip:
  assumes inv: "server_inv s Q" and ob: "ob \<in># Q"
    and res: "alloc_handle_no_access_check env mem_ok p ob access attr s = (s', Inr h)"
  shows "h \<noteq> 0 \<and> \<not> handle_is_global h \<and> get_handle s p h = None \<and>
    (\<exists>i entry. get_handle s' p h = Some (Local p, i, entry) \<and> he_ptr entry = Some ob \<and>
       he_access entry AND NOT RESERVED_ALL =
         map_access_op env ob (if access AND MAXIMUM_ALLOWED \<noteq> 0 then GENERIC_ALL else access) AND NOT RESERVED_ALL) \<and>
    (\<forall>q h'. get_handle s q h' \<noteq> None \<longrightarrow> get_handle s' q h' = get_handle s q h')"
proof -
  let ?a = "map_access_op env ob (if access AND MAXIMUM_ALLOWED \<noteq> 0 then GENERIC_ALL else access) AND NOT RESERVED_ALL"
  let ?e = "\<lparr>he_ptr = Some ob, he_access = if attr AND OBJ_INHERIT \<noteq> 0 then ?a OR RESERVED_INHERIT else ?a\<rparr>"
  have "alloc_handle_entry mem_ok p ob ?a attr s = (s', Inr h)"
    using res unfolding alloc_handle_no_access_check_def Let_def .
  then obtain i where i: "i < MAX_HANDLE_ENTRIES" and h: "h = index_to_handle i" and old: "handles s (Local p, i) = None"
      and new: "handles s' = (handles s)((Local p, i) \<mapsto> ?e)"
    by (rule alloc_handle_entry_result [OF inv ob and_not_and])
  have get: "get_handle s' p h = Some (Local p, i, ?e)" unfolding h by (rule get_handle_local [OF i]) (simp add: new)
  have none: "get_handle s p h = None"
  proof (rule ccontr)
    assume "get_handle s p h \<noteq> None"
    then obtain sel j e where "get_handle s p h = Some (sel, j, e)" by auto
    then show False using index_to_handle_inverse [OF i] old unfolding h by (auto simp: get_handle_iff)
  qed
  have other: "get_handle s' q h' = get_handle s q h'" if "get_handle s q h' \<noteq> None" for q h'
    by (rule get_handle_cong [OF _ that]) (auto simp: new get_handle_iff old)
  have acc: "he_access ?e AND NOT RESERVED_ALL = ?a"
    using reserved_inherit_hidden [of "map_access_op env ob (if access AND MAXIMUM_ALLOWED \<noteq> 0 then GENERIC_ALL else access)"]
    by (simp only: handle_entry.select_convs and_not_idem split: if_split) simp
  show ?thesis using index_to_handle_inverse(2,3) [OF i] get none other acc h by auto
qed

theorem alloc_handle_roundtrip_witness:
  "case alloc_handle_no_access_check ex_env True 0 2 0x10 OBJ_INHERIT ex_server of
     (s', Inr h) \<Rightarrow> h = 8 \<and> get_handle ex_server 0 h = None \<and> get_handle s' 0 4 = get_handle ex_server 0 4 | _ \<Rightarrow> False"
proof -
  obtain s' h where a: "alloc_handle_no_access_check ex_env True 0 2 0x10 OBJ_INHERIT ex_server = (s', Inr h)" and h: "h = 8"
  proof -
    have "snd (alloc_handle_no_access_check ex_env True 0 2 0x10 OBJ_INHERIT ex_server) = Inr 8" by code_simp
    then show ?thesis using that by (metis prod.collapse)
  qed
  have "get_handle ex_server 0 4 \<noteq> None" by code_simp
  then show ?thesis using alloc_handle_roundtrip [OF ex_server_inv _ a] a h by simp
qed



text \<open>C26. Closing a global handle corrupts memory: \<^verbatim>\<open>close_handle\<close> computes the index from the obfuscated
  value, so for every open global handle that may be closed the store \<^verbatim>\<open>table->entries[index].ptr = NULL\<close>
  is outside of the array, whatever the size of the table.\<close>

theorem close_global_handle_out_of_bounds:
  assumes inv: "server_inv s Q" and glob: "handle_is_global h" and get: "get_handle s p h = Some (sel, i, e)"
    and prot: "he_access e AND RESERVED_CLOSE_PROTECT = 0" and op: "close_handle_op env (the (he_ptr e)) p h"
  shows "failed (fst (close_handle env mem_ok p h s)) \<and>
    (\<exists>t. global_table s = Some t \<and> int (ht_count t) \<le> handle_to_index h)"
proof -
  have sel: "sel = Global" "handles s (sel, i) = Some e" using get glob by (auto simp: get_handle_iff)
  obtain t where t: "table_of s Global = Some t" using sel handles_SomeD by metis
  have "table_ok t" using handle_invD(1) [OF inv [unfolded server_inv_def] t] .
  then have oob: "int (ht_count t) \<le> handle_to_index h" using handle_global_index [OF glob] by (simp add: table_ok_def)
  have "close_handle env mem_ok p h s = (fail s, STATUS_SUCCESS)"
    using get prot op t oob sel(1) by (simp add: close_handle_def Let_def)
  then show ?thesis using oob t by (simp add: fail_def table_of_def)
qed

definition ex_global :: server where
  "ex_global = fst (alloc_global_handle_no_access_check True True (\<lambda>_. null_entry) 2 0x100002 ex_server)"

lemma ex_global_inv: "server_inv ex_global {#0, 1, 2#}"
  unfolding ex_global_def by (rule handle_step_inv [OF handle_step.alloc_global ex_server_inv]) simp

theorem close_global_handle_out_of_bounds_witness:
  "failed (fst (close_handle ex_env True 0 0x544a4deb ex_global))"
proof -
  have "handle_is_global 0x544a4deb" by code_simp
  moreover have "get_handle ex_global 0 0x544a4deb = Some (Global, 0, \<lparr>he_ptr = Some 2, he_access = 0x100002\<rparr>)" by code_simp
  ultimately show ?thesis
    using close_global_handle_out_of_bounds [OF ex_global_inv, where h = "0x544a4deb" and p = 0 and env = ex_env and mem_ok = True]
    by (simp add: ex_env_def)
qed

text \<open>\<^verbatim>\<open>duplicate_handle\<close> into the global table dereferences a NULL process: with
  \<^verbatim>\<open>DUPLICATE_MAKE_GLOBAL\<close> the destination is NULL, yet \<^verbatim>\<open>DUPLICATE_SAME_ATTRIBUTES\<close> passes it on to
  \<^verbatim>\<open>set_handle_flags\<close>, which reads its handle table.\<close>

theorem duplicate_global_null_process:
  assumes get: "get_handle_obj env p h 0 None s = (s1, Inr ob)"
    and opts: "options AND DUPLICATE_MAKE_GLOBAL \<noteq> 0" "options AND DUPLICATE_SAME_ACCESS \<noteq> 0" "options AND DUPLICATE_SAME_ATTRIBUTES \<noteq> 0"
    and alloc: "alloc_global_handle_no_access_check (dm_table mems) (dm_entry mems) (dm_junk mems) ob
        (get_handle_access env p h s1) s1 = (s2, Inr h')"
    and magic: "get_magic_handle env h = None" "get_magic_handle env h' = None"
  shows "failed (fst (duplicate_handle env mems p h None access attr options s))"
proof -
  obtain sel i e where e: "get_handle s p h = Some (sel, i, e)"
    using get magic(1) by (cases "get_handle s p h") (auto simp: get_handle_obj_def)
  have s1: "s1 = grab_object ob s" using get magic(1) e by (auto simp: get_handle_obj_def Let_def split: if_splits)
  have e1: "get_handle s1 p h = Some (sel, i, e)" using e by (auto simp: s1 get_handle_iff)
  have acc: "get_handle_access env p h s1 = he_access e AND NOT RESERVED_ALL" using magic e1 by (simp add: get_handle_access_def)
  have none: "(he_access e AND NOT RESERVED_ALL) AND NOT (he_access e AND NOT RESERVED_ALL) = 0"
    by (rule bit.conj_cancel_right)
  have dup: "dup_alloc env mems p h None (he_access e AND NOT RESERVED_ALL) (he_access e AND NOT RESERVED_ALL) attr options ob s1 = (s2, Inr h')"
    using alloc opts(1) unfolding dup_alloc_def acc none by simp
  show ?thesis
    unfolding duplicate_handle_def get e1 Let_def prod.case sum.case option.case if_P [OF opts(2)] dup if_P [OF opts(3)]
    using magic(2) by (simp add: set_handle_flags_def release_object_failed fail_def)
qed

definition ex_mem :: dup_mem where
  "ex_mem = \<lparr>dm_table = True, dm_entry = True, dm_junk = (\<lambda>_. null_entry)\<rparr>"

theorem duplicate_global_null_process_witness:
  "failed (fst (duplicate_handle ex_env ex_mem 0 4 None 0 0 0x80000006 ex_server))"
proof -
  let ?s1 = "grab_object 3 ex_server"
  have g: "get_handle_obj ex_env 0 4 0 None ex_server = (?s1, Inr 3)"
    by (simp add: get_handle_obj_def get_magic_handle_def ex_env_def get_handle_def handle_is_global_def handle_to_index_def
        table_of_def ex_server_def ex_table_def Let_def)
  obtain s2 where a: "alloc_global_handle_no_access_check (dm_table ex_mem) (dm_entry ex_mem) (dm_junk ex_mem) 3
        (get_handle_access ex_env 0 4 ?s1) ?s1 = (s2, Inr 0x544a4deb)"
  proof -
    have "snd (alloc_global_handle_no_access_check (dm_table ex_mem) (dm_entry ex_mem) (dm_junk ex_mem) 3
        (get_handle_access ex_env 0 4 ?s1) ?s1) = Inr 0x544a4deb" by code_simp
    then show ?thesis using that by (metis prod.collapse)
  qed
  show ?thesis
    by (rule duplicate_global_null_process [OF g _ _ _ a]) (simp_all add: get_magic_handle_def ex_env_def)
qed

lemma length_grab [simp]: "length (objs (grab_object ob s)) = length (objs s)"
  by (simp add: grab_object_def)

lemma handles_release:
  assumes "handle_inv s (add_mset ob P)"
  shows "get_handle (release_object ob s) q h = get_handle s q h"
  using handle_inv_release(3) [OF assms] by (simp add: get_handle_def)

text \<open>Duplication preserves identity and rights: \<^verbatim>\<open>duplicate_handle\<close> with \<^verbatim>\<open>DUPLICATE_SAME_ACCESS\<close>
  gives the destination process a handle to the same object with the same access rights, leaves the
  source handle as it was, and returns the reference it took during the operation.\<close>

theorem duplicate_same_access:
  assumes inv: "server_inv s Q" and magic: "magic_live env Q" "get_magic_handle env h = None"
    and get: "get_handle s p h = Some (sel, i, e)"
    and res: "duplicate_handle env mems p h (Some q) access attr DUPLICATE_SAME_ACCESS s = (s', Inr h')"
  shows "server_inv s' Q \<and> get_handle s' p h = get_handle s p h \<and>
    (\<exists>j e'. get_handle s' q h' = Some (Local q, j, e') \<and> he_ptr e' = he_ptr e \<and>
       he_access e' AND NOT RESERVED_ALL = he_access e AND NOT RESERVED_ALL)"
proof -
  note hinv = inv [unfolded server_inv_def]
  let ?a = "he_access e AND NOT RESERVED_ALL"
  have "handles s (sel, i) = Some e" using get by (auto simp: get_handle_iff)
  then obtain ob where ob: "he_ptr e = Some ob" using handles_SomeD by (metis not_None_eq)
  let ?s1 = "grab_object ob s"
  have g: "get_handle_obj env p h 0 None s = (?s1, Inr ob)" using magic(2) get ob by (simp add: get_handle_obj_def)
  note gs = get_handle_obj_spec(2) [OF hinv magic_live_more [OF magic(1)] g]
  have inv1: "server_inv ?s1 (add_mset ob Q)"
    using gs by (intro server_invI [of _ "add_mset ob Q" s]) simp_all
  have e1: "get_handle ?s1 p h = Some (sel, i, e)" using get by (auto simp: get_handle_iff)
  have none: "?a AND NOT ?a = 0" by (rule bit.conj_cancel_right)
  obtain s2 r where al: "alloc_handle_entry (dm_entry mems) q ob ?a attr ?s1 = (s2, r)" by fastforce
  have d: "dup_alloc env mems p h (Some q) ?a ?a attr DUPLICATE_SAME_ACCESS ob ?s1 = (s2, r)"
    unfolding dup_alloc_def none e1 using al by simp
  have rs: "r = Inr h'" "s' = release_object ob s2"
    using res unfolding duplicate_handle_def g e1 Let_def prod.case sum.case option.case
    by (simp_all add: d [simplified] split: sum.splits)
  obtain j where j: "j < MAX_HANDLE_ENTRIES" "h' = index_to_handle j" "handles ?s1 (Local q, j) = None"
      and new: "handles s2 = (handles ?s1)((Local q, j) \<mapsto>
        \<lparr>he_ptr = Some ob, he_access = if attr AND OBJ_INHERIT \<noteq> 0 then ?a OR RESERVED_INHERIT else ?a\<rparr>)" (is "_ = _(_ \<mapsto> ?e)")
    using al unfolding rs(1) by (rule alloc_handle_entry_result [OF inv1 union_single_eq_member [OF refl] and_not_and])
  have inv2: "handle_inv s2 (add_mset ob (Q + perm_refs s))"
    using alloc_handle_entry_inv [OF _ _ and_not_and, of ?s1 "add_mset ob (Q + perm_refs s)" ob "dm_entry mems" q "he_access e" attr] gs al by simp
  have "obj_frame s2 = obj_frame s"
    using obj_frame_alloc_handle_entry [of "dm_entry mems" q ob ?a attr ?s1] unfolding al fst_conv by simp
  then have "server_inv s' Q" using handle_inv_release(1) [OF inv2] rs(2) by (intro server_invI [of _ Q s]) simp_all
  moreover have "get_handle s2 q h' = Some (Local q, j, ?e)" unfolding j(2) by (rule get_handle_local [OF j(1)]) (simp add: new)
  moreover have "get_handle s2 p h = Some (sel, i, e)"
    using e1 j(3) by (auto simp: get_handle_iff new)
  moreover have "he_access ?e AND NOT RESERVED_ALL = ?a"
    using reserved_inherit_hidden [of "he_access e"] by (simp only: handle_entry.select_convs and_not_idem split: if_split) simp
  ultimately show ?thesis unfolding rs(2) handles_release [OF inv2] using get ob by auto
qed

theorem duplicate_same_access_witness:
  "case duplicate_handle ex_env ex_mem 0 4 (Some 0) 0 0 DUPLICATE_SAME_ACCESS ex_server of
     (s', Inr h') \<Rightarrow> h' = 8 \<and> server_inv s' {#0, 1, 2#} | _ \<Rightarrow> False"
proof -
  obtain s' where d: "duplicate_handle ex_env ex_mem 0 4 (Some 0) 0 0 DUPLICATE_SAME_ACCESS ex_server = (s', Inr 8)"
  proof -
    have "snd (duplicate_handle ex_env ex_mem 0 4 (Some 0) 0 0 DUPLICATE_SAME_ACCESS ex_server) = Inr 8" by code_simp
    then show ?thesis using that by (metis prod.collapse)
  qed
  have "get_magic_handle ex_env 4 = None" by (simp add: get_magic_handle_def)
  moreover have "get_handle ex_server 0 4 = Some (Local 0, 0, \<lparr>he_ptr = Some 3, he_access = 0x100002\<rparr>)" by code_simp
  ultimately show ?thesis using duplicate_same_access [OF ex_server_inv ex_magic _ _ d] d by simp
qed

section \<open>Enumeration\<close>

definition open_handles :: "server \<Rightarrow> pid \<Rightarrow> (pid \<times> nat) list" where
  "open_handles s p = (case table_of s (Local p) of None \<Rightarrow> [] | Some t \<Rightarrow> map (Pair p) (filter (used t) [0..<nat (ht_last t + 1)]))"

definition info_of :: "server \<Rightarrow> pid \<times> nat \<Rightarrow> handle_info" where
  "info_of s = (\<lambda>(p, i).
     let e = ht_entries (the (table_of s (Local p))) i
     in \<lparr>hi_owner = p, hi_handle = index_to_handle i, hi_access = he_access e AND NOT RESERVED_ALL,
         hi_type = otype (objs s ! the (he_ptr e)),
         hi_attributes = (if he_access e AND RESERVED_INHERIT \<noteq> 0 then OBJ_INHERIT else 0) OR
                         (if he_access e AND RESERVED_CLOSE_PROTECT \<noteq> 0 then OBJ_PROTECT_CLOSE else 0)\<rparr>)"

lemma enum_entries_count:
  "fold (enum_entry s p t) xs (Some (Inl n)) = Some (Inl (n + length (filter (used t) xs)))"
  by (induction xs arbitrary: n) (auto simp: enum_entry_def)

lemma enum_entries_fill:
  assumes "table_of s (Local p) = Some t"
  shows "length (filter (used t) xs) \<le> n \<Longrightarrow>
    fold (enum_entry s p t) xs (Some (Inr (n, out))) =
      Some (Inr (n - length (filter (used t) xs), out @ map (\<lambda>i. info_of s (p, i)) (filter (used t) xs)))"
proof (induction xs arbitrary: n out)
  case (Cons i xs)
  show ?case
  proof (cases "he_ptr (ht_entries t i)")
    case None
    then show ?thesis using Cons by (simp add: enum_entry_def)
  next
    case (Some ob)
    then have "enum_entry s p t i (Some (Inr (n, out))) = Some (Inr (n - 1, out @ [info_of s (p, i)]))"
      using Cons.prems assms by (simp add: enum_entry_def info_of_def Let_def)
    then show ?thesis using Cons Some by simp
  qed
qed simp

lemma enum_processes_count:
  "fold (enum_handles s) procs (Some (Inl n)) = Some (Inl (n + length (concat (map (open_handles s) procs))))"
proof (induction procs arbitrary: n)
  case (Cons p procs)
  have "enum_handles s p (Some (Inl n)) = Some (Inl (n + length (open_handles s p)))"
    by (simp add: enum_handles_def open_handles_def enum_entries_count split: option.split)
  then show ?case using Cons by (simp add: add.assoc)
qed simp

lemma enum_processes_fill:
  "length (concat (map (open_handles s) procs)) \<le> n \<Longrightarrow>
   fold (enum_handles s) procs (Some (Inr (n, out))) =
     Some (Inr (n - length (concat (map (open_handles s) procs)), out @ map (info_of s) (concat (map (open_handles s) procs))))"
proof (induction procs arbitrary: n out)
  case (Cons p procs)
  have "enum_handles s p (Some (Inr (n, out))) = Some (Inr (n - length (open_handles s p), out @ map (info_of s) (open_handles s p)))"
    using Cons.prems by (simp add: enum_handles_def open_handles_def enum_entries_fill comp_def split: option.splits)
  then show ?case using Cons by simp
qed simp

text \<open>C27. The two passes of \<^verbatim>\<open>get_system_handles\<close> agree: the request never trips its assertion, replies the
  number of open handles of the listed processes, and, when the reply is large enough, exactly one record
  per open handle, in order.\<close>

theorem get_system_handles_correct:
  "req_get_system_handles mem_ok reply_max procs s =
    (let open = concat (map (open_handles s) procs)
     in Some (length open,
              if reply_max div 20 < length open then Inl STATUS_BUFFER_TOO_SMALL
              else if \<not> mem_ok then Inl STATUS_NO_MEMORY
              else Inr (map (info_of s) open)))"
  unfolding req_get_system_handles_def enum_processes_count
  by (simp add: enum_processes_fill [OF order_refl] Let_def)

end
