(* ===== verification/Security_Data.thy ===== *)
theory Security_Data
  imports Wine_Prelude "HOL-Library.Monad_Syntax"
begin

text \<open>
  Security descriptors as bytes (\<^verbatim>\<open>server/security.h\<close> and the validation functions of \<^verbatim>\<open>server/token.c\<close>).
  A client sends them in the request buffer; here the buffer is a list of bytes and a pointer an offset
  into it. A read outside of the buffer is \<open>None\<close>. Sizes and offsets are natural numbers; the one
  subtraction that wraps around in C is written out.
\<close>

section \<open>Memory\<close>

definition rd8 :: "u8 list \<Rightarrow> nat \<Rightarrow> u8 option" where
  "rd8 m p = (if p < length m then Some (m ! p) else None)"

definition rd16 :: "u8 list \<Rightarrow> nat \<Rightarrow> nat option" where
  "rd16 m p = do {a \<leftarrow> rd8 m p; b \<leftarrow> rd8 m (p + 1); Some (unat a + 256 * unat b)}"

definition rd32 :: "u8 list \<Rightarrow> nat \<Rightarrow> nat option" where
  "rd32 m p = do {a \<leftarrow> rd16 m p; b \<leftarrow> rd16 m (p + 2); Some (a + 65536 * b)}"

definition wr16 :: "nat \<Rightarrow> u8 list" where
  "wr16 n = [word_of_nat n, word_of_nat (n div 256)]"

section \<open>SIDs\<close>

text \<open>A \<^verbatim>\<open>struct sid\<close> has 8 bytes and 4 more for each of its \<^verbatim>\<open>sub_count\<close> sub-authorities.\<close>

type_synonym sid = "u8 list"

definition sid_len :: "u8 list \<Rightarrow> nat \<Rightarrow> nat option" where
  "sid_len m p = do {c \<leftarrow> rd8 m (p + 1); Some (8 + 4 * unat c)}"

definition sid_valid_size :: "u8 list \<Rightarrow> nat \<Rightarrow> nat \<Rightarrow> bool option" where
  "sid_valid_size m p sz = (if sz < 8 then Some False else do {n \<leftarrow> sid_len m p; Some (n \<le> sz)})"

definition read_sid :: "u8 list \<Rightarrow> nat \<Rightarrow> sid option" where
  "read_sid m p = do {n \<leftarrow> sid_len m p; if p + n \<le> length m then Some (take n (drop p m)) else None}"

definition equal_sid :: "sid \<Rightarrow> sid \<Rightarrow> bool" where
  "equal_sid sid1 sid2 \<longleftrightarrow>
     sid1 ! 1 = sid2 ! 1 \<and> take (8 + 4 * unat (sid1 ! 1)) sid1 = take (8 + 4 * unat (sid1 ! 1)) sid2"

function get_sid_count :: "u8 list \<Rightarrow> nat \<Rightarrow> nat \<Rightarrow> nat option" where
  "get_sid_count m p sz =
     (if sz < 8 then Some 0
      else case rd8 m (p + 1) of
             None \<Rightarrow> None
           | Some c \<Rightarrow>
               if 8 + 4 * unat c \<le> sz
               then map_option Suc (get_sid_count m (p + (8 + 4 * unat c)) (sz - (8 + 4 * unat c)))
               else Some 0)"
  by pat_completeness auto
termination by (relation "measure (\<lambda>(_, _, sz). sz)") auto

declare get_sid_count.simps [simp del]

section \<open>Access control lists\<close>

abbreviation ACCESS_ALLOWED_ACE_TYPE :: u8 where "ACCESS_ALLOWED_ACE_TYPE \<equiv> 0"
abbreviation ACCESS_DENIED_ACE_TYPE :: u8 where "ACCESS_DENIED_ACE_TYPE \<equiv> 1"
abbreviation SYSTEM_AUDIT_ACE_TYPE :: u8 where "SYSTEM_AUDIT_ACE_TYPE \<equiv> 2"
abbreviation SYSTEM_ALARM_ACE_TYPE :: u8 where "SYSTEM_ALARM_ACE_TYPE \<equiv> 3"
abbreviation SYSTEM_MANDATORY_LABEL_ACE_TYPE :: u8 where "SYSTEM_MANDATORY_LABEL_ACE_TYPE \<equiv> 0x11"
abbreviation INHERIT_ONLY_ACE :: u8 where "INHERIT_ONLY_ACE \<equiv> 8"
abbreviation MAX_ACL_LEN :: nat where "MAX_ACL_LEN \<equiv> 65535"

text \<open>
  The size left for the SID, \<^verbatim>\<open>ace->size - sizeof(*ace)\<close>, is an unsigned difference that is then cut to
  32 bits: for an entry shorter than its own header it wraps around.
\<close>

fun aces_valid :: "u8 list \<Rightarrow> nat \<Rightarrow> nat \<Rightarrow> nat \<Rightarrow> bool option" where
  "aces_valid m 0 p sz = Some True"
| "aces_valid m (Suc n) p sz =
     (if sz < 8 then Some False
      else do {
        ace_size \<leftarrow> rd16 m (p + 2);
        if sz < ace_size then Some False
        else do {
          ty \<leftarrow> rd8 m p;
          if ty \<notin> {ACCESS_DENIED_ACE_TYPE, ACCESS_ALLOWED_ACE_TYPE, SYSTEM_AUDIT_ACE_TYPE,
                     SYSTEM_ALARM_ACE_TYPE, SYSTEM_MANDATORY_LABEL_ACE_TYPE}
          then Some False
          else do {
            ok \<leftarrow> sid_valid_size m (p + 8) (unat (word_of_nat ace_size - 8 :: u32));
            if ok then aces_valid m n (p + ace_size) (sz - ace_size) else Some False}}})"

definition acl_is_valid :: "u8 list \<Rightarrow> nat \<Rightarrow> nat \<Rightarrow> bool option" where
  "acl_is_valid m p sz =
     (if sz < 8 then Some False
      else do {cnt \<leftarrow> rd16 m (p + 4); aces_valid m cnt (p + 8) (min sz MAX_ACL_LEN - 8)})"

section \<open>Security descriptors\<close>

abbreviation SE_DACL_PRESENT :: u32 where "SE_DACL_PRESENT \<equiv> 0x4"
abbreviation SE_SACL_PRESENT :: u32 where "SE_SACL_PRESENT \<equiv> 0x10"

record sd_header =
  sd_control :: u32
  owner_len :: nat
  group_len :: nat
  sacl_len :: nat
  dacl_len :: nat

definition read_sd_header :: "u8 list \<Rightarrow> nat \<Rightarrow> sd_header option" where
  "read_sd_header m p = do {
     c \<leftarrow> rd32 m p; ol \<leftarrow> rd32 m (p + 4); gl \<leftarrow> rd32 m (p + 8); sl \<leftarrow> rd32 m (p + 12); dl \<leftarrow> rd32 m (p + 16);
     Some \<lparr>sd_control = word_of_nat c, owner_len = ol, group_len = gl, sacl_len = sl, dacl_len = dl\<rparr>}"

definition sd_get_owner :: "sd_header \<Rightarrow> nat \<Rightarrow> nat option" where
  "sd_get_owner sd p = (if owner_len sd \<noteq> 0 then Some (p + 20) else None)"

definition sd_get_group :: "sd_header \<Rightarrow> nat \<Rightarrow> nat option" where
  "sd_get_group sd p = (if group_len sd \<noteq> 0 then Some (p + 20 + owner_len sd) else None)"

definition sd_get_sacl :: "sd_header \<Rightarrow> nat \<Rightarrow> bool \<times> nat option" where
  "sd_get_sacl sd p =
     (sd_control sd AND SE_SACL_PRESENT \<noteq> 0,
      if sacl_len sd \<noteq> 0 then Some (p + 20 + owner_len sd + group_len sd) else None)"

definition sd_get_dacl :: "sd_header \<Rightarrow> nat \<Rightarrow> bool \<times> nat option" where
  "sd_get_dacl sd p =
     (sd_control sd AND SE_DACL_PRESENT \<noteq> 0,
      if dacl_len sd \<noteq> 0 then Some (p + 20 + owner_len sd + group_len sd + sacl_len sd) else None)"

text \<open>One of the four parts: absent, or checked against its length.\<close>

definition part_valid :: "(u8 list \<Rightarrow> nat \<Rightarrow> nat \<Rightarrow> bool option) \<Rightarrow> u8 list \<Rightarrow> nat option \<Rightarrow> nat \<Rightarrow> bool option" where
  "part_valid check m part len = (case part of None \<Rightarrow> Some True | Some q \<Rightarrow> check m q len)"

definition sd_is_valid :: "u8 list \<Rightarrow> nat \<Rightarrow> nat \<Rightarrow> bool option" where
  "sd_is_valid m p sz =
     (if sz < 20 then Some False
      else do {
        sd \<leftarrow> read_sd_header m p;
        if owner_len sd \<ge> 8 + 4 * 255 \<or> 20 + owner_len sd > sz then Some False
        else do {
          ok1 \<leftarrow> part_valid sid_valid_size m (sd_get_owner sd p) (owner_len sd);
          if \<not> ok1 then Some False
          else if group_len sd \<ge> 8 + 4 * 255 \<or> 20 + owner_len sd + group_len sd > sz then Some False
          else do {
            ok2 \<leftarrow> part_valid sid_valid_size m (sd_get_group sd p) (group_len sd);
            if \<not> ok2 then Some False
            else if sacl_len sd \<ge> MAX_ACL_LEN \<or> 20 + owner_len sd + group_len sd + sacl_len sd > sz then Some False
            else do {
              ok3 \<leftarrow> part_valid acl_is_valid m (snd (sd_get_sacl sd p)) (sacl_len sd);
              if \<not> ok3 then Some False
              else if dacl_len sd \<ge> MAX_ACL_LEN \<or>
                      20 + owner_len sd + group_len sd + sacl_len sd + dacl_len sd > sz then Some False
              else part_valid acl_is_valid m (snd (sd_get_dacl sd p)) (dacl_len sd)}}}})"

section \<open>Entries\<close>

record ace =
  ace_type :: u8
  ace_flags :: u8
  ace_mask :: u32
  ace_sid :: sid

definition read_ace :: "u8 list \<Rightarrow> nat \<Rightarrow> ace option" where
  "read_ace m p = do {
     ty \<leftarrow> rd8 m p; fl \<leftarrow> rd8 m (p + 1); mk \<leftarrow> rd32 m (p + 4); sd \<leftarrow> read_sid m (p + 8);
     Some \<lparr>ace_type = ty, ace_flags = fl, ace_mask = word_of_nat mk, ace_sid = sd\<rparr>}"

text \<open>The walk over the entries of a list, \<^verbatim>\<open>ace_first\<close> and \<^verbatim>\<open>ace_next\<close>.\<close>

fun read_aces :: "u8 list \<Rightarrow> nat \<Rightarrow> nat \<Rightarrow> ace list option" where
  "read_aces m 0 p = Some []"
| "read_aces m (Suc n) p = do {
     ace_size \<leftarrow> rd16 m (p + 2); a \<leftarrow> read_ace m p; rest \<leftarrow> read_aces m n (p + ace_size); Some (a # rest)}"

definition read_acl :: "u8 list \<Rightarrow> nat \<Rightarrow> ace list option" where
  "read_acl m p = do {cnt \<leftarrow> rd16 m (p + 4); read_aces m cnt (p + 8)}"

text \<open>The parts of a security descriptor that an access check reads.\<close>

record secdesc =
  sec_owner :: "sid option"
  sec_group :: "sid option"
  sec_dacl_present :: bool
  sec_dacl :: "ace list option"

definition read_opt :: "(u8 list \<Rightarrow> nat \<Rightarrow> 'a option) \<Rightarrow> u8 list \<Rightarrow> nat option \<Rightarrow> 'a option option" where
  "read_opt rd m q = (case q of None \<Rightarrow> Some None | Some p \<Rightarrow> map_option Some (rd m p))"

definition read_sd :: "u8 list \<Rightarrow> nat \<Rightarrow> secdesc option" where
  "read_sd m p = do {
     sd \<leftarrow> read_sd_header m p;
     ow \<leftarrow> read_opt read_sid m (sd_get_owner sd p);
     gr \<leftarrow> read_opt read_sid m (sd_get_group sd p);
     da \<leftarrow> read_opt read_acl m (snd (sd_get_dacl sd p));
     Some \<lparr>sec_owner = ow, sec_group = gr, sec_dacl_present = fst (sd_get_dacl sd p), sec_dacl = da\<rparr>}"

section \<open>Labels\<close>

text \<open>The entries with their raw bytes, which the functions on labels copy.\<close>

fun raw_aces :: "u8 list \<Rightarrow> nat \<Rightarrow> nat \<Rightarrow> (u8 \<times> u8 list) list option" where
  "raw_aces m 0 p = Some []"
| "raw_aces m (Suc n) p = do {
     ace_size \<leftarrow> rd16 m (p + 2); ty \<leftarrow> rd8 m p;
     if p + ace_size \<le> length m
     then do {rest \<leftarrow> raw_aces m n (p + ace_size); Some ((ty, take ace_size (drop p m)) # rest)}
     else None}"

definition raw_acl :: "u8 list \<Rightarrow> (u8 \<times> (u8 \<times> u8 list) list) option" where
  "raw_acl m = do {rv \<leftarrow> rd8 m 0; cnt \<leftarrow> rd16 m 4; aces \<leftarrow> raw_aces m cnt 8; Some (rv, aces)}"

definition is_label :: "u8 \<times> u8 list \<Rightarrow> bool" where
  "is_label a \<longleftrightarrow> fst a = SYSTEM_MANDATORY_LABEL_ACE_TYPE"

definition build_acl :: "u8 \<Rightarrow> (u8 \<times> u8 list) list \<Rightarrow> u8 list" where
  "build_acl rv aces =
     [rv, 0] @ wr16 (8 + length (concat (map snd aces))) @ wr16 (length aces) @ [0, 0] @ concat (map snd aces)"

text \<open>\<open>None\<close> is a read outside of the list, \<open>Inl\<close> an error.\<close>

definition extract_security_labels :: "bool \<Rightarrow> u8 list \<Rightarrow> u8 list result option" where
  "extract_security_labels mem_ok sacl = do {
     (rv, aces) \<leftarrow> raw_acl sacl;
     if mem_ok then Some (Inr (build_acl rv (filter is_label aces))) else Some (Inl STATUS_NO_MEMORY)}"

definition acl_part :: "((u8 \<times> u8 list) \<Rightarrow> bool) \<Rightarrow> u8 list option \<Rightarrow> (u8 \<times> (u8 \<times> u8 list) list) option" where
  "acl_part P acl =
     (case acl of
        None \<Rightarrow> Some (2, [])
      | Some m \<Rightarrow> do {(rv, aces) \<leftarrow> raw_acl m; Some (max 2 rv, filter P aces)})"

definition replace_security_labels :: "bool \<Rightarrow> u8 list option \<Rightarrow> u8 list option \<Rightarrow> u8 list result option" where
  "replace_security_labels mem_ok old_sacl new_sacl = do {
     (rv1, aces1) \<leftarrow> acl_part (\<lambda>a. \<not> is_label a) old_sacl;
     (rv2, aces2) \<leftarrow> acl_part is_label new_sacl;
     if 8 + length (concat (map snd (aces1 @ aces2))) > MAX_ACL_LEN then Some (Inl STATUS_INVALID_ACL)
     else if \<not> mem_ok then Some (Inl STATUS_NO_MEMORY)
     else Some (Inr (build_acl (max rv1 rv2) (aces1 @ aces2)))}"

end
