(* ===== verification/Tokens.thy ===== *)
theory Tokens
  imports Security_Data Objects
begin

text \<open>
  Security tokens (\<^verbatim>\<open>server/token.c\<close>): privileges, groups, and the access check against a security
  descriptor. A token is a record; pointers to the SID of one of its groups are indices into its list of
  groups. The last locally unique id is passed along explicitly.
\<close>

section \<open>Data\<close>

type_synonym luid = "u32 \<times> u32"

record luid_attr =
  la_luid :: luid
  la_attrs :: u32

record privilege =
  pr_luid :: luid
  pr_enabled :: bool
  pr_def :: bool

record group =
  gr_attrs :: u32
  gr_sid :: sid

record token =
  token_id :: luid
  modified_id :: luid
  privileges :: "privilege list"
  groups :: "group list"
  tk_user :: sid
  tk_owner :: "nat option"
  primary_group :: "nat option"
  primary :: bool
  session_id :: u32
  default_dacl :: "u8 list option"
  impersonation_level :: int
  elevation :: nat

abbreviation SE_PRIVILEGE_ENABLED_BY_DEFAULT :: u32 where "SE_PRIVILEGE_ENABLED_BY_DEFAULT \<equiv> 0x1"
abbreviation SE_PRIVILEGE_ENABLED :: u32 where "SE_PRIVILEGE_ENABLED \<equiv> 0x2"
abbreviation SE_PRIVILEGE_REMOVED :: u32 where "SE_PRIVILEGE_REMOVED \<equiv> 0x4"
abbreviation SE_PRIVILEGE_USED_FOR_ACCESS :: u32 where "SE_PRIVILEGE_USED_FOR_ACCESS \<equiv> 0x80000000"
abbreviation SE_GROUP_ENABLED_BY_DEFAULT :: u32 where "SE_GROUP_ENABLED_BY_DEFAULT \<equiv> 0x2"
abbreviation SE_GROUP_ENABLED :: u32 where "SE_GROUP_ENABLED \<equiv> 0x4"
abbreviation SE_GROUP_USE_FOR_DENY_ONLY :: u32 where "SE_GROUP_USE_FOR_DENY_ONLY \<equiv> 0x10"
abbreviation SecurityAnonymous :: int where "SecurityAnonymous \<equiv> 0"
abbreviation SecurityDelegation :: int where "SecurityDelegation \<equiv> 3"
abbreviation SYNCHRONIZE :: u32 where "SYNCHRONIZE \<equiv> 0x00100000"
abbreviation STANDARD_RIGHTS_REQUIRED :: u32 where "STANDARD_RIGHTS_REQUIRED \<equiv> 0x000f0000"
abbreviation ACCESS_SYSTEM_SECURITY :: u32 where "ACCESS_SYSTEM_SECURITY \<equiv> 0x01000000"
abbreviation TOKEN_MAXIMUM_ALLOWED :: u32 where "TOKEN_MAXIMUM_ALLOWED \<equiv> 0x02000000"
abbreviation GENERIC_RIGHTS :: u32 where "GENERIC_RIGHTS \<equiv> 0xf0000000"

definition SeSecurityPrivilege :: luid where
  "SeSecurityPrivilege = (8, 0)"

section \<open>Locally unique ids\<close>

definition is_equal_luid :: "luid \<Rightarrow> luid \<Rightarrow> bool" where
  "is_equal_luid luid1 luid2 \<longleftrightarrow> fst luid1 = fst luid2 \<and> snd luid1 = snd luid2"

definition allocate_luid :: "luid \<Rightarrow> luid" where
  "allocate_luid prev = (fst prev + 1, snd prev)"

section \<open>Privileges\<close>

definition luid_and_attr_from_privilege :: "privilege \<Rightarrow> luid_attr" where
  "luid_and_attr_from_privilege p =
     \<lparr>la_luid = pr_luid p,
      la_attrs = (if pr_enabled p then SE_PRIVILEGE_ENABLED else 0) OR (if pr_def p then SE_PRIVILEGE_ENABLED_BY_DEFAULT else 0)\<rparr>"

definition privilege_add :: "luid \<Rightarrow> bool \<Rightarrow> token \<Rightarrow> token" where
  "privilege_add luid enabled token =
     token\<lparr>privileges := privileges token @ [\<lparr>pr_luid = luid, pr_enabled = enabled, pr_def = enabled\<rparr>]\<rparr>"

text \<open>A found privilege is the index of its entry.\<close>

fun find_privilege :: "luid \<Rightarrow> bool \<Rightarrow> privilege list \<Rightarrow> nat option" where
  "find_privilege luid enabled_only [] = None"
| "find_privilege luid enabled_only (p # ps) =
     (if is_equal_luid luid (pr_luid p)
      then if enabled_only \<and> \<not> pr_enabled p then None else Some 0
      else map_option Suc (find_privilege luid enabled_only ps))"

definition token_find_privilege :: "token \<Rightarrow> luid \<Rightarrow> bool \<Rightarrow> nat option" where
  "token_find_privilege token luid enabled_only = find_privilege luid enabled_only (privileges token)"

definition remove_nth :: "nat \<Rightarrow> 'a list \<Rightarrow> 'a list" where
  "remove_nth i xs = take i xs @ drop (Suc i) xs"

definition privilege_remove :: "nat \<Rightarrow> token \<Rightarrow> token" where
  "privilege_remove i token = token\<lparr>privileges := remove_nth i (privileges token)\<rparr>"

text \<open>
  The loop of \<^verbatim>\<open>token_adjust_privileges\<close>: \<open>out\<close> is the buffer for the previous states with room for \<open>room\<close>
  more, \<open>err\<close> the status set so far.
\<close>

fun adjust_privileges :: "luid_attr list \<Rightarrow> nat \<Rightarrow> token \<Rightarrow> luid_attr list \<Rightarrow> status \<Rightarrow> token \<times> luid_attr list \<times> status" where
  "adjust_privileges [] room token out err = (token, out, err)"
| "adjust_privileges (la # las) room token out err =
     (case token_find_privilege token (la_luid la) False of
        None \<Rightarrow> adjust_privileges las room token out STATUS_NOT_ALL_ASSIGNED
      | Some i \<Rightarrow>
          if la_attrs la AND SE_PRIVILEGE_REMOVED \<noteq> 0 then adjust_privileges las room (privilege_remove i token) out err
          else let p = privileges token ! i;
                   out' = (if room \<noteq> 0 then out @ [luid_and_attr_from_privilege p] else out);
                   p' = p\<lparr>pr_enabled := (la_attrs la AND SE_PRIVILEGE_ENABLED \<noteq> 0)\<rparr>
               in adjust_privileges las (room - 1) (token\<lparr>privileges := (privileges token)[i := p']\<rparr>) out' err)"

definition token_adjust_privileges ::
    "luid \<Rightarrow> luid_attr list \<Rightarrow> nat \<Rightarrow> token \<Rightarrow> luid \<times> token \<times> luid_attr list \<times> status" where
  "token_adjust_privileges prev privs room token =
     (let id = allocate_luid prev
      in (id, adjust_privileges privs room (token\<lparr>modified_id := id\<rparr>) [] STATUS_SUCCESS))"

definition token_disable_privileges :: "luid \<Rightarrow> token \<Rightarrow> luid \<times> token" where
  "token_disable_privileges prev token =
     (let id = allocate_luid prev
      in (id, token\<lparr>modified_id := id, privileges := map (\<lambda>p. p\<lparr>pr_enabled := False\<rparr>) (privileges token)\<rparr>))"

text \<open>Whether the privileges are held, and the list with the used ones marked.\<close>

definition check_privilege :: "token \<Rightarrow> luid_attr \<Rightarrow> nat \<times> luid_attr list \<Rightarrow> nat \<times> luid_attr list" where
  "check_privilege token la = (\<lambda>(enabled_count, used).
     case token_find_privilege token (la_luid la) True of
       None \<Rightarrow> (enabled_count, used @ [la])
     | Some i \<Rightarrow> if pr_enabled (privileges token ! i)
                then (enabled_count + 1, used @ [la\<lparr>la_attrs := la_attrs la OR SE_PRIVILEGE_USED_FOR_ACCESS\<rparr>])
                else (enabled_count, used @ [la]))"

definition token_check_privileges :: "token \<Rightarrow> bool \<Rightarrow> luid_attr list \<Rightarrow> bool \<times> luid_attr list" where
  "token_check_privileges token all_required reqprivs =
     (let (enabled_count, used) = fold (check_privilege token) reqprivs (0, [])
      in (if all_required then enabled_count = length reqprivs else enabled_count > 0, used))"

section \<open>Groups\<close>

definition token_sid_present :: "token \<Rightarrow> sid \<Rightarrow> bool \<Rightarrow> bool" where
  "token_sid_present token s deny \<longleftrightarrow>
     equal_sid (tk_user token) s \<or>
     (\<exists>g \<in> set (groups token). gr_attrs g AND SE_GROUP_ENABLED \<noteq> 0 \<and>
        \<not> (\<not> deny \<and> gr_attrs g AND SE_GROUP_USE_FOR_DENY_ONLY \<noteq> 0) \<and> equal_sid (gr_sid g) s)"

section \<open>Access check\<close>

type_synonym generic_map = "u32 \<times> u32 \<times> u32 \<times> u32"

text \<open>
  The walk over the discretionary list. The comparison with \<^verbatim>\<open>*granted_access\<close> at the end of the body
  sees the zero it was initialised with.
\<close>

fun dacl_loop :: "token \<Rightarrow> generic_map \<Rightarrow> u32 \<Rightarrow> ace list \<Rightarrow> u32 \<Rightarrow> u32 \<Rightarrow> u32 \<times> u32" where
  "dacl_loop token mapping desired [] current denied = (current, denied)"
| "dacl_loop token mapping desired (a # as) current denied =
     (if ace_flags a AND INHERIT_ONLY_ACE \<noteq> 0 then dacl_loop token mapping desired as current denied
      else let access = map_access (ace_mask a) mapping
           in if ace_type a = ACCESS_DENIED_ACE_TYPE \<and> token_sid_present token (ace_sid a) True then
                if desired AND TOKEN_MAXIMUM_ALLOWED \<noteq> 0 then
                  dacl_loop token mapping desired as current (denied OR access)
                else let denied' = denied OR (access AND NOT current)
                     in if desired AND access \<noteq> 0 then (current, denied')
                        else if desired = 0 then (current, denied')
                        else dacl_loop token mapping desired as current denied'
              else if ace_type a = ACCESS_ALLOWED_ACE_TYPE \<and> token_sid_present token (ace_sid a) False then
                let current' = (if desired AND TOKEN_MAXIMUM_ALLOWED \<noteq> 0 then current OR access
                                else current OR (access AND NOT denied))
                in if desired = 0 then (current', denied)
                   else dacl_loop token mapping desired as current' denied
              else if desired = 0 then (current, denied)
              else dacl_loop token mapping desired as current denied)"

text \<open>
  The status returned, the access granted, the status of the check where one is set, and the privileges
  used with their number. \<open>room\<close> is \<^verbatim>\<open>*priv_count\<close>, \<open>None\<close> for a NULL pointer.
\<close>

record access_result =
  ar_ret :: status
  ar_granted :: u32
  ar_status :: "status option"
  ar_privs :: "luid_attr list"
  ar_priv_count :: nat

definition finish_check :: "u32 \<Rightarrow> luid_attr list \<Rightarrow> nat \<Rightarrow> u32 \<times> u32 \<Rightarrow> access_result" where
  "finish_check desired privs n = (\<lambda>(current, denied).
     let granted = (if desired AND TOKEN_MAXIMUM_ALLOWED \<noteq> 0 then current AND NOT denied
                    else if current AND desired = desired then current AND desired else 0)
     in \<lparr>ar_ret = STATUS_SUCCESS, ar_granted = granted,
         ar_status = Some (if granted \<noteq> 0 then STATUS_SUCCESS else STATUS_ACCESS_DENIED),
         ar_privs = privs, ar_priv_count = n\<rparr>)"

text \<open>Steps 3 and 4, after the privilege check has granted \<open>current\<close>.\<close>

definition check_owner_dacl ::
    "token \<Rightarrow> sid \<Rightarrow> ace list \<Rightarrow> u32 \<Rightarrow> generic_map \<Rightarrow> luid_attr list \<Rightarrow> nat \<Rightarrow> u32 \<Rightarrow> access_result" where
  "check_owner_dacl token owner dacl desired mapping privs n current =
     (let current1 = (if token_sid_present token owner False
                      then current OR (STANDARD_RIGHTS_REQUIRED OR SYNCHRONIZE) else current)
      in if token_sid_present token owner False \<and> desired = current1
         then \<lparr>ar_ret = STATUS_SUCCESS, ar_granted = current1, ar_status = Some STATUS_SUCCESS, ar_privs = privs, ar_priv_count = n\<rparr>
         else finish_check desired privs n (dacl_loop token mapping desired dacl current1 0))"

definition token_access_check :: "token \<Rightarrow> secdesc \<Rightarrow> u32 \<Rightarrow> nat option \<Rightarrow> generic_map \<Rightarrow> access_result" where
  "token_access_check token sd desired room mapping =
     (let no_access = (\<lambda>ret st. \<lparr>ar_ret = ret, ar_granted = 0, ar_status = st, ar_privs = [], ar_priv_count = 0\<rparr>)
      in if desired AND GENERIC_RIGHTS \<noteq> 0 then no_access STATUS_GENERIC_NOT_MAPPED None
         else case (sec_owner sd, sec_group sd) of
                (Some owner, Some grp) \<Rightarrow>
                  (case (sec_dacl_present sd, sec_dacl sd) of
                     (True, Some dacl) \<Rightarrow>
                       if desired AND ACCESS_SYSTEM_SECURITY \<noteq> 0 then
                         let (held, used) = token_check_privileges token True [\<lparr>la_luid = SeSecurityPrivilege, la_attrs = 0\<rparr>]
                         in if \<not> held then no_access STATUS_SUCCESS (Some STATUS_PRIVILEGE_NOT_HELD)
                            else if room = Some 0
                            then \<lparr>ar_ret = STATUS_BUFFER_TOO_SMALL, ar_granted = 0, ar_status = None, ar_privs = [], ar_priv_count = 1\<rparr>
                            else let privs = (if room = None then [] else used); n = (if room = None then 0 else 1)
                                 in if desired = ACCESS_SYSTEM_SECURITY
                                    then \<lparr>ar_ret = STATUS_SUCCESS, ar_granted = ACCESS_SYSTEM_SECURITY,
                                          ar_status = Some STATUS_SUCCESS, ar_privs = privs, ar_priv_count = n\<rparr>
                                    else check_owner_dacl token owner dacl desired mapping privs n ACCESS_SYSTEM_SECURITY
                       else check_owner_dacl token owner dacl desired mapping [] 0 0
                   | _ \<Rightarrow>
                       \<lparr>ar_ret = STATUS_SUCCESS,
                        ar_granted = (if desired AND TOKEN_MAXIMUM_ALLOWED \<noteq> 0 then snd (snd (snd mapping)) else desired),
                        ar_status = Some STATUS_SUCCESS, ar_privs = [], ar_priv_count = 0\<rparr>)
              | _ \<Rightarrow> no_access STATUS_INVALID_SECURITY_DESCR None)"

text \<open>\<open>current\<close> is the effective token of the current thread, used when no token is given.\<close>

definition check_object_access ::
    "token \<Rightarrow> token option \<Rightarrow> (u32 \<Rightarrow> u32) \<Rightarrow> secdesc option \<Rightarrow> u32 \<Rightarrow> u32 result" where
  "check_object_access current tok map_op sd access =
     (let token = (case tok of None \<Rightarrow> current | Some t \<Rightarrow> t)
      in case sd of
           None \<Rightarrow> Inr (if access AND TOKEN_MAXIMUM_ALLOWED \<noteq> 0 then map_op 0x10000000 else access)
         | Some d \<Rightarrow>
             let r = token_access_check token d access None
                       (map_op 0x80000000, map_op 0x40000000, map_op 0x20000000, map_op 0x10000000)
             in if ar_ret r = STATUS_SUCCESS \<and> ar_status r = Some STATUS_SUCCESS then Inr (ar_granted r)
                else Inl STATUS_ACCESS_DENIED)"

section \<open>Creation and duplication\<close>

text \<open>
  \<open>mem_ok\<close> tells whether all allocations succeed; when one fails the token under construction is
  released. The primary group is the group with the given index.
\<close>

definition create_token ::
    "bool \<Rightarrow> luid \<Rightarrow> bool \<Rightarrow> u32 \<Rightarrow> sid \<Rightarrow> (sid \<times> u32) list \<Rightarrow> luid_attr list \<Rightarrow> u8 list option \<Rightarrow> luid option \<Rightarrow>
       nat \<Rightarrow> int \<Rightarrow> nat \<Rightarrow> luid \<times> token result" where
  "create_token mem_ok prev prim session user grps privs dacl mod_id pgroup level elev =
     (let id1 = allocate_luid prev;
          id2 = (case mod_id of None \<Rightarrow> allocate_luid id1 | Some m \<Rightarrow> id1);
          pg = (if pgroup < length grps then Some pgroup else None);
          token = \<lparr>token_id = id1, modified_id = (case mod_id of None \<Rightarrow> id2 | Some m \<Rightarrow> m), privileges = [],
                   groups = map (\<lambda>(s, a). \<lparr>gr_attrs = a, gr_sid = s\<rparr>) grps, tk_user = user, tk_owner = pg,
                   primary_group = pg, primary = prim, session_id = session, default_dacl = dacl,
                   impersonation_level = (if prim then - 1 else level), elevation = elev\<rparr>
      in (id2, if mem_ok
               then Inr (fold (\<lambda>la. privilege_add (la_luid la) (la_attrs la AND SE_PRIVILEGE_ENABLED \<noteq> 0)) privs token)
               else Inl STATUS_NO_MEMORY))"

definition filter_group :: "group \<Rightarrow> sid list \<Rightarrow> bool" where
  "filter_group g sids \<longleftrightarrow> (\<exists>s \<in> set sids. equal_sid (gr_sid g) s)"

definition filter_privilege :: "privilege \<Rightarrow> luid_attr list \<Rightarrow> bool" where
  "filter_privilege p las \<longleftrightarrow> (\<exists>la \<in> set las. is_equal_luid (pr_luid p) (la_luid la))"

definition duplicate_group :: "sid list \<Rightarrow> group \<Rightarrow> group" where
  "duplicate_group remove_groups g =
     (if filter_group g remove_groups
      then g\<lparr>gr_attrs := gr_attrs g AND NOT (SE_GROUP_ENABLED OR SE_GROUP_ENABLED_BY_DEFAULT) OR SE_GROUP_USE_FOR_DENY_ONLY\<rparr>
      else g)"

text \<open>
  The copy of user, groups and privileges; \<open>None\<close> is the failed assertion on the primary group. The
  descriptor and the label that the new object gets belong to the object layer.
\<close>

definition token_duplicate ::
    "bool \<Rightarrow> luid \<Rightarrow> token \<Rightarrow> bool \<Rightarrow> int \<Rightarrow> luid_attr list \<Rightarrow> sid list \<Rightarrow> (luid \<times> token result) option" where
  "token_duplicate mem_ok prev src_token prim level remove_privs remove_groups =
     (let mod_id = (if prim \<or> level = impersonation_level src_token then Some (modified_id src_token) else None)
      in if \<not> prim \<and> (level < SecurityAnonymous \<or> level > SecurityDelegation \<or>
                      (\<not> primary src_token \<and> level > impersonation_level src_token))
         then Some (prev, Inl STATUS_BAD_IMPERSONATION_LEVEL)
         else case create_token mem_ok prev prim (session_id src_token) (tk_user src_token) [] []
                     (default_dacl src_token) mod_id 0 level (elevation src_token) of
                (prev', Inl err) \<Rightarrow> Some (prev', Inl err)
              | (prev', Inr token) \<Rightarrow>
                  if primary_group src_token = None then None
                  else let pg = primary_group src_token;
                           token1 = token\<lparr>groups := map (duplicate_group remove_groups) (groups src_token),
                                          tk_owner := pg, primary_group := pg\<rparr>
                       in Some (prev', Inr (fold (\<lambda>p. privilege_add (pr_luid p) (pr_enabled p))
                                (filter (\<lambda>p. \<not> filter_privilege p remove_privs) (privileges src_token)) token1)))"

section \<open>Access lists that the server builds\<close>

definition wr32 :: "u32 \<Rightarrow> u8 list" where
  "wr32 w = [ucast w, ucast (drop_bit 8 w), ucast (drop_bit 16 w), ucast (drop_bit 24 w)]"

definition set_ace :: "sid \<Rightarrow> u8 \<Rightarrow> u8 \<Rightarrow> u32 \<Rightarrow> u8 list" where
  "set_ace s ty flags msk = [ty, flags] @ wr16 (8 + length s) @ wr32 msk @ s"

definition local_system_sid :: sid where
  "local_system_sid = [1, 1, 0, 0, 0, 0, 0, 5] @ wr32 0x12"

definition create_default_dacl :: "sid \<Rightarrow> u8 list" where
  "create_default_dacl user =
     [2, 0] @ wr16 (8 + 2 * 8 + length local_system_sid + length user) @ wr16 2 @ [0, 0] @
     set_ace local_system_sid ACCESS_ALLOWED_ACE_TYPE 0 0x10000000 @ set_ace user ACCESS_ALLOWED_ACE_TYPE 0 0x10000000"

definition create_security_label_sd :: "sid \<Rightarrow> u8 list" where
  "create_security_label_sd label_sid =
     wr32 SE_SACL_PRESENT @ wr32 0 @ wr32 0 @ wr32 (word_of_nat (8 + 8 + length label_sid)) @ wr32 0 @
     [2, 0] @ wr16 (8 + 8 + length label_sid) @ wr16 1 @ [0, 0] @
     set_ace label_sid SYSTEM_MANDATORY_LABEL_ACE_TYPE 0 1"

section \<open>Requests\<close>

text \<open>
  The bodies of the request handlers, for the token that the handle yields; the lookup of the handle is
  part of the handle tables. A reply that the buffer of the client cannot hold is an error; the length
  fields of a reply are the sizes of what is returned, and the memory of the reply is taken to be there.
\<close>

definition req_adjust_token_privileges ::
    "luid \<Rightarrow> bool \<Rightarrow> bool \<Rightarrow> nat \<Rightarrow> luid_attr list \<Rightarrow> token \<Rightarrow> luid \<times> token \<times> luid_attr list \<times> status" where
  "req_adjust_token_privileges prev disable_all get_modified_state reply_max privs token =
     (let found = length (filter (\<lambda>la. token_find_privilege token (la_luid la) False \<noteq> None) privs);
          modified_priv_count = (if get_modified_state \<and> \<not> disable_all then min found (reply_max div 12) else 0)
      in if disable_all then (case token_disable_privileges prev token of (new_id, t) \<Rightarrow> (new_id, t, [], STATUS_SUCCESS))
         else token_adjust_privileges prev privs modified_priv_count token)"

definition req_get_token_privileges :: "nat \<Rightarrow> token \<Rightarrow> luid_attr list result" where
  "req_get_token_privileges reply_max token =
     (if 12 * length (privileges token) \<le> reply_max then Inr (map luid_and_attr_from_privilege (privileges token))
      else Inl STATUS_BUFFER_TOO_SMALL)"

definition req_check_token_privileges :: "bool \<Rightarrow> nat \<Rightarrow> luid_attr list \<Rightarrow> token \<Rightarrow> (bool \<times> luid_attr list) result" where
  "req_check_token_privileges all_required reply_max reqprivs token =
     (if \<not> primary token \<and> impersonation_level token \<le> SecurityAnonymous then Inl STATUS_BAD_IMPERSONATION_LEVEL
      else if reply_max \<ge> 12 * length reqprivs then Inr (token_check_privileges token all_required reqprivs)
      else Inl STATUS_BUFFER_OVERFLOW)"

text \<open>\<open>None\<close> is a read outside of the request buffer.\<close>

definition req_access_check :: "u8 list \<Rightarrow> u32 \<Rightarrow> generic_map \<Rightarrow> token \<Rightarrow> access_result result option" where
  "req_access_check m desired mapping token = do {
     ok \<leftarrow> sd_is_valid m 0 (length m);
     if \<not> ok then Some (Inl STATUS_ACCESS_VIOLATION)
     else if primary token then Some (Inl STATUS_NO_IMPERSONATION_TOKEN)
     else if impersonation_level token \<le> SecurityAnonymous then Some (Inl STATUS_BAD_IMPERSONATION_LEVEL)
     else do {sd \<leftarrow> read_sd m 0; Some (Inr (token_access_check token sd desired (Some 1) mapping))}}"

definition group_sid :: "token \<Rightarrow> nat option \<Rightarrow> sid option" where
  "group_sid token i = map_option (\<lambda>k. gr_sid (groups token ! k)) i"

definition req_get_token_sid :: "nat \<Rightarrow> nat \<Rightarrow> token \<Rightarrow> sid option result" where
  "req_get_token_sid which_sid reply_max token =
     (if which_sid \<notin> {1, 4, 5} then Inl STATUS_INVALID_PARAMETER
      else case (if which_sid = 1 then Some (tk_user token)
                 else if which_sid = 5 then group_sid token (primary_group token)
                 else group_sid token (tk_owner token)) of
             None \<Rightarrow> Inr None
           | Some s \<Rightarrow> if length s \<le> reply_max then Inr (Some s) else Inl STATUS_BUFFER_TOO_SMALL)"

text \<open>The attributes come first in the reply, then the SIDs, in the same order.\<close>

definition req_get_token_groups :: "u32 \<Rightarrow> nat \<Rightarrow> token \<Rightarrow> (u32 list \<times> u8 list) result" where
  "req_get_token_groups attr_mask reply_max token =
     (let gs = filter (\<lambda>g. \<not> (attr_mask \<noteq> 0 \<and> gr_attrs g AND attr_mask = 0)) (groups token)
      in if 4 * length gs + length (concat (map gr_sid gs)) \<le> reply_max
         then Inr (map gr_attrs gs, concat (map gr_sid gs))
         else Inl STATUS_BUFFER_TOO_SMALL)"

definition builtin_admins_sid :: sid where
  "builtin_admins_sid = [1, 2, 0, 0, 0, 0, 0, 5] @ wr32 0x20 @ wr32 0x220"

definition token_is_elevated :: "token \<Rightarrow> bool" where
  "token_is_elevated token =
     (if elevation token = 1 then token_sid_present token builtin_admins_sid False else elevation token = 2)"

definition req_get_token_default_dacl :: "nat \<Rightarrow> token \<Rightarrow> u8 list option result option" where
  "req_get_token_default_dacl reply_max token =
     (case default_dacl token of
        None \<Rightarrow> Some (Inr None)
      | Some acl \<Rightarrow> do {
          acl_len \<leftarrow> rd16 acl 2;
          if acl_len \<le> reply_max
          then if acl_len \<le> length acl then Some (Inr (Some (take acl_len acl))) else None
          else Some (Inl STATUS_BUFFER_TOO_SMALL)})"

text \<open>When there is no memory for the copy the old list is gone all the same.\<close>

definition req_set_token_default_dacl :: "bool \<Rightarrow> u8 list \<Rightarrow> token \<Rightarrow> (token \<times> status) option" where
  "req_set_token_default_dacl mem_ok acl token =
     (if acl = [] then Some (token\<lparr>default_dacl := None\<rparr>, STATUS_SUCCESS)
      else do {ok \<leftarrow> acl_is_valid acl 0 (length acl);
               Some (if \<not> ok then (token, STATUS_INVALID_ACL)
                     else if \<not> mem_ok then (token\<lparr>default_dacl := None\<rparr>, STATUS_NO_MEMORY)
                     else (token\<lparr>default_dacl := Some acl\<rparr>, STATUS_SUCCESS))})"

end
