(* ===== verification/Security_Correct.thy ===== *)
theory Security_Correct
  imports Security_Data
begin

text \<open>
  What the validation of security descriptors guarantees: a descriptor that \<^verbatim>\<open>sd_is_valid\<close> accepts can be
  read by an access check without leaving the request buffer, as long as no entry of its lists is shorter
  than an entry header. For shorter entries the validation itself reads outside of the buffer, or accepts
  a SID that lies outside.
\<close>

section \<open>Chains of checks\<close>

lemma check_True:
  "(x \<bind> (\<lambda>ok. if \<not> ok then Some False else y)) = Some True \<longleftrightarrow> x = Some True \<and> y = Some True"
  "(if c then Some False else y) = Some True \<longleftrightarrow> \<not> c \<and> y = Some True"
  "(if \<not> ok then Some False else z) = Some True \<longleftrightarrow> ok \<and> z = Some True"
  by (cases x) auto

lemma check_None:
  "(x \<bind> (\<lambda>ok. if \<not> ok then Some False else y)) = None \<longleftrightarrow> x = None \<or> x = Some True \<and> y = None"
  "(if c then Some False else y) = None \<longleftrightarrow> \<not> c \<and> y = None"
  by (cases x) auto

section \<open>Reading\<close>

lemma rd8_Some [simp]: "p < length m \<Longrightarrow> rd8 m p = Some (m ! p)"
  by (simp add: rd8_def)

lemma rd8_iff: "(\<exists>c. rd8 m p = Some c) \<longleftrightarrow> p < length m"
  by (simp add: rd8_def)

lemma rd16_Some: "p + 2 \<le> length m \<Longrightarrow> \<exists>n. rd16 m p = Some n"
  by (simp add: rd16_def)

lemma rd32_Some: "p + 4 \<le> length m \<Longrightarrow> \<exists>n. rd32 m p = Some n"
  by (simp add: rd32_def rd16_def)

lemma sid_len_Some: "p + 2 \<le> length m \<Longrightarrow> \<exists>n. sid_len m p = Some n"
  by (simp add: sid_len_def)

lemma sid_len_ge: "sid_len m p = Some n \<Longrightarrow> 8 \<le> n"
  by (auto simp: sid_len_def rd8_def split: if_splits)

lemma sid_valid_size_total: "p + sz \<le> length m \<Longrightarrow> \<exists>b. sid_valid_size m p sz = Some b"
  using sid_len_Some [of p m] by (auto simp: sid_valid_size_def)

lemma sid_valid_size_readable:
  assumes "sid_valid_size m p sz = Some True" and "p + sz \<le> length m"
  shows "\<exists>s. read_sid m p = Some s"
  using assms by (auto simp: sid_valid_size_def read_sid_def split: if_splits Option.bind_splits)

section \<open>Lists\<close>

fun no_short_aces :: "u8 list \<Rightarrow> nat \<Rightarrow> nat \<Rightarrow> bool" where
  "no_short_aces m 0 p = True"
| "no_short_aces m (Suc n) p = (case rd16 m (p + 2) of None \<Rightarrow> True | Some s \<Rightarrow> 8 \<le> s \<and> no_short_aces m n (p + s))"

lemma unat_u8: "unat (a :: u8) < 256"
  using unsigned_less [of a] by simp

lemma rd16_less: "rd16 m p = Some n \<Longrightarrow> n < 65536"
proof -
  assume "rd16 m p = Some n"
  then obtain a b :: u8 where "n = unat a + 256 * unat b"
    by (auto simp: rd16_def split: Option.bind_splits)
  then show ?thesis using unat_u8 [of a] unat_u8 [of b] by simp
qed

lemma ace_sid_size:
  assumes "8 \<le> n" and "n < 65536"
  shows "unat (word_of_nat n - 8 :: u32) = n - 8"
proof -
  have "word_of_nat n - 8 = (word_of_nat (n - 8) :: u32)" using assms(1) by (simp add: of_nat_diff)
  then show ?thesis using assms(2) by (simp only: unsigned_of_nat) (simp add: take_bit_nat_eq_self)
qed

lemma ace_sid_size_wraps:
  assumes "s < 8"
  shows "2 ^ 32 - 8 \<le> unat (word_of_nat s - 8 :: u32)"
proof -
  have "s \<in> {0, 1, 2, 3, 4, 5, 6, 7}" using assms by auto
  then show ?thesis by (auto simp: unsigned_minus_1_eq_mask mask_eq_exp_minus_1)
qed

lemma aces_valid_step:
  assumes fit: "p + sz \<le> length m" and sh: "no_short_aces m (Suc n) p"
  obtains (small) "aces_valid m (Suc n) p sz = Some False"
  | (entry) s where "rd16 m (p + 2) = Some s" "8 \<le> s" "s \<le> sz" "no_short_aces m n (p + s)"
      "sid_valid_size m (p + 8) (s - 8) = Some True"
      "aces_valid m (Suc n) p sz = aces_valid m n (p + s) (sz - s)"
proof (cases "sz < 8")
  case False
  then obtain s where s: "rd16 m (p + 2) = Some s" using rd16_Some [of "p + 2" m] fit by auto
  note lt = rd16_less [OF s]
  have sh': "8 \<le> s" "no_short_aces m n (p + s)" using sh s by auto
  note conv = ace_sid_size [OF sh'(1) lt]
  show ?thesis
  proof (cases "sz < s")
    case True
    then show ?thesis using small False s by simp
  next
    case le: False
    have ty: "rd8 m p = Some (m ! p)" using fit False by simp
    obtain b where b: "sid_valid_size m (p + 8) (s - 8) = Some b"
      using sid_valid_size_total [of "p + 8" "s - 8" m] fit le sh'(1) by auto
    have eq: "aces_valid m (Suc n) p sz = Some False \<or> b \<and> aces_valid m (Suc n) p sz = aces_valid m n (p + s) (sz - s)"
      using False le s ty b by (simp only: aces_valid.simps conv Option.bind.bind_lunit if_False) (simp split: if_split)
    then show ?thesis using small entry s sh' le b by auto
  qed
qed (use small in simp)

lemma aces_valid_total:
  "p + sz \<le> length m \<Longrightarrow> no_short_aces m n p \<Longrightarrow> aces_valid m n p sz \<noteq> None"
proof (induction n arbitrary: p sz)
  case (Suc n)
  from Suc.prems show ?case
  proof (cases rule: aces_valid_step)
    case small
    then show ?thesis by (simp del: aces_valid.simps)
  next
    case (entry s)
    then show ?thesis using Suc.IH [of "p + s" "sz - s"] Suc.prems(1) by (simp del: aces_valid.simps)
  qed
qed simp

lemma aces_valid_readable:
  "aces_valid m n p sz = Some True \<Longrightarrow> p + sz \<le> length m \<Longrightarrow> no_short_aces m n p \<Longrightarrow> \<exists>as. read_aces m n p = Some as"
proof (induction n arbitrary: p sz)
  case (Suc n)
  from Suc.prems(2,3) show ?case
  proof (cases rule: aces_valid_step)
    case small
    then show ?thesis using Suc.prems(1) by (simp del: aces_valid.simps)
  next
    case (entry s)
    obtain rest where rest: "read_aces m n (p + s) = Some rest"
      using Suc.IH [of "p + s" "sz - s"] Suc.prems(1,2) entry by (auto simp del: aces_valid.simps)
    obtain sd where sd: "read_sid m (p + 8) = Some sd"
      using sid_valid_size_readable [OF entry(5)] Suc.prems(2) entry by auto
    obtain k where "rd32 m (p + 4) = Some k" using rd32_Some [of "p + 4" m] Suc.prems(2) entry by auto
    then have "read_ace m p \<noteq> None" using sd Suc.prems(2) entry by (simp add: read_ace_def)
    then show ?thesis using rest entry by auto
  qed
qed simp

definition acl_no_short :: "u8 list \<Rightarrow> nat \<Rightarrow> bool" where
  "acl_no_short m p \<longleftrightarrow> (case rd16 m (p + 4) of None \<Rightarrow> True | Some n \<Rightarrow> no_short_aces m n (p + 8))"

lemma acl_is_valid_total: "p + sz \<le> length m \<Longrightarrow> acl_no_short m p \<Longrightarrow> acl_is_valid m p sz \<noteq> None"
proof (cases "sz < 8")
  case False
  assume a: "p + sz \<le> length m" "acl_no_short m p"
  then obtain n where "rd16 m (p + 4) = Some n" using rd16_Some [of "p + 4" m] False by auto
  then show ?thesis using a False aces_valid_total [of "p + 8" "min sz MAX_ACL_LEN - 8" m n]
    by (auto simp: acl_is_valid_def acl_no_short_def)
qed (simp add: acl_is_valid_def)

lemma acl_is_valid_readable:
  assumes "acl_is_valid m p sz = Some True" and "p + sz \<le> length m" and "acl_no_short m p"
  shows "\<exists>as. read_acl m p = Some as"
proof -
  have sz: "\<not> sz < 8" using assms(1) by (auto simp: acl_is_valid_def)
  obtain n where n: "rd16 m (p + 4) = Some n" using rd16_Some [of "p + 4" m] assms(2) sz by auto
  have "aces_valid m n (p + 8) (min sz MAX_ACL_LEN - 8) = Some True" using assms(1) sz n by (simp add: acl_is_valid_def)
  then have "\<exists>as. read_aces m n (p + 8) = Some as"
    using assms(2,3) sz n by (intro aces_valid_readable) (auto simp: acl_no_short_def)
  then show ?thesis using n by (simp add: read_acl_def)
qed

section \<open>Descriptors\<close>

definition sd_no_short :: "u8 list \<Rightarrow> nat \<Rightarrow> bool" where
  "sd_no_short m p \<longleftrightarrow>
     (case read_sd_header m p of
        None \<Rightarrow> True
      | Some sd \<Rightarrow> pred_option (acl_no_short m) (snd (sd_get_sacl sd p)) \<and>
                   pred_option (acl_no_short m) (snd (sd_get_dacl sd p)))"

lemma read_sd_header_Some: "p + 20 \<le> length m \<Longrightarrow> \<exists>sd. read_sd_header m p = Some sd"
  using rd32_Some [of p m] rd32_Some [of "p + 4" m] rd32_Some [of "p + 8" m] rd32_Some [of "p + 12" m] rd32_Some [of "p + 16" m]
  by (auto simp: read_sd_header_def)

lemmas sd_parts = sd_get_owner_def sd_get_group_def sd_get_sacl_def sd_get_dacl_def

lemma part_valid_total:
  "(\<And>q. part = Some q \<Longrightarrow> check m q len \<noteq> None) \<Longrightarrow> part_valid check m part len \<noteq> None"
  by (cases part) (simp_all add: part_valid_def del: not_None_eq)

lemma part_valid_None [simp]: "part_valid check m part len = None \<longleftrightarrow> (\<exists>q. part = Some q \<and> check m q len = None)"
  by (auto simp: part_valid_def split: option.split)

lemma part_valid_Some: "part_valid check m (Some q) len = check m q len" "part_valid check m None len = Some True"
  by (simp_all add: part_valid_def)

lemma sid_valid_size_None: "p + sz \<le> length m \<Longrightarrow> sid_valid_size m p sz \<noteq> None"
  using sid_valid_size_total [of p sz m] by auto

lemma sd_is_valid_total:
  assumes "p + sz \<le> length m" and "sd_no_short m p"
  shows "sd_is_valid m p sz \<noteq> None"
proof (cases "sz < 20")
  case False
  then obtain sd where sd: "read_sd_header m p = Some sd" using read_sd_header_Some assms(1) by fastforce
  have sh: "\<And>q. snd (sd_get_sacl sd p) = Some q \<Longrightarrow> acl_no_short m q" "\<And>q. snd (sd_get_dacl sd p) = Some q \<Longrightarrow> acl_no_short m q"
    using assms(2) sd by (auto simp: sd_no_short_def)
  have 1: "part_valid sid_valid_size m (sd_get_owner sd p) (owner_len sd) \<noteq> None" if "20 + owner_len sd \<le> sz"
    using that assms(1) by (intro part_valid_total sid_valid_size_None) (auto simp: sd_parts split: if_splits)
  have 2: "part_valid sid_valid_size m (sd_get_group sd p) (group_len sd) \<noteq> None" if "20 + owner_len sd + group_len sd \<le> sz"
    using that assms(1) by (intro part_valid_total sid_valid_size_None) (auto simp: sd_parts split: if_splits)
  have 3: "part_valid acl_is_valid m (snd (sd_get_sacl sd p)) (sacl_len sd) \<noteq> None" if "20 + owner_len sd + group_len sd + sacl_len sd \<le> sz"
    using that assms(1) sh(1) by (intro part_valid_total acl_is_valid_total) (auto simp: sd_parts split: if_splits)
  have 4: "part_valid acl_is_valid m (snd (sd_get_dacl sd p)) (dacl_len sd) \<noteq> None"
    if "20 + owner_len sd + group_len sd + sacl_len sd + dacl_len sd \<le> sz"
    using that assms(1) sh(2) by (intro part_valid_total acl_is_valid_total) (auto simp: sd_parts split: if_splits)
  show ?thesis
    unfolding sd_is_valid_def sd Option.bind.bind_lunit check_None using 1 2 3 4 by (meson not_less le_trans le_add1)
qed (simp add: sd_is_valid_def)

lemma sd_is_valid_parts:
  assumes "sd_is_valid m p sz = Some True"
  obtains sd where "\<not> sz < 20" "read_sd_header m p = Some sd"
    "20 + owner_len sd + group_len sd + sacl_len sd + dacl_len sd \<le> sz"
    "part_valid sid_valid_size m (sd_get_owner sd p) (owner_len sd) = Some True"
    "part_valid sid_valid_size m (sd_get_group sd p) (group_len sd) = Some True"
    "part_valid acl_is_valid m (snd (sd_get_dacl sd p)) (dacl_len sd) = Some True"
proof -
  have sz: "\<not> sz < 20" using assms by (auto simp: sd_is_valid_def)
  obtain sd where sd: "read_sd_header m p = Some sd" using assms sz by (cases "read_sd_header m p") (auto simp: sd_is_valid_def)
  show ?thesis using assms unfolding sd_is_valid_def sd Option.bind.bind_lunit check_True by (intro that [OF sz sd]) (simp_all add: not_less)
qed


definition ex_sd :: "u8 list" where
  "ex_sd = [4, 0x80, 0, 0, 8, 0, 0, 0, 8, 0, 0, 0, 0, 0, 0, 0, 24, 0, 0, 0] @
     [1, 0, 0, 0, 0, 0, 0, 5] @ [1, 0, 0, 0, 0, 0, 0, 5] @
     [2, 0, 24, 0, 1, 0, 0, 0] @ [0, 0, 16, 0, 0xff, 0, 0, 0] @ [1, 0, 0, 0, 0, 0, 0, 1]"


text \<open>C29. Entries shorter than their header defeat the validation: for a list of 16 bytes with one entry whose
  size field is below 8, the remaining size wraps around to almost 4 GB, so \<^verbatim>\<open>acl_is_valid\<close> reads the
  sub-authority count after the end of the list, and accepts the list whatever it finds there.\<close>

theorem short_ace_defeats_validation:
  assumes len: "length m = 16" and cnt: "rd16 m 4 = Some 1" and sz: "rd16 m 10 = Some s" "s < 8"
    and ty: "m ! 8 \<in> {0, 1, 2, 3, 0x11}"
  shows "acl_is_valid m 0 16 = None \<and> (\<forall>x. 2 \<le> length x \<longrightarrow> acl_is_valid (m @ x) 0 16 = Some True)"
proof -
  define w where "w = unat (word_of_nat s - 8 :: u32)"
  have w: "2 ^ 32 - 8 \<le> w" unfolding w_def using sz(2) by (rule ace_sid_size_wraps)
  have sid: "sid_valid_size m' 16 w = (if 17 < length m' then Some True else None)" for m'
  proof -
    have "8 + 4 * unat (m' ! 17) \<le> w" using unat_u8 [of "m' ! 17"] w by simp
    then show ?thesis using w by (simp add: sid_valid_size_def sid_len_def rd8_def)
  qed
  have aces: "aces_valid m' (Suc 0) 8 8 = (if 17 < length m' then Some True else None)"
    if "rd16 m' 10 = Some s" "rd8 m' 8 = Some (m ! 8)" for m'
    using that sz(2) ty sid [of m'] unfolding w_def by (auto simp: numeral_eq_Suc)
  have same: "rd16 (m @ x) q = rd16 m q" if "q + 2 \<le> 16" for x q
    using that len by (simp add: rd16_def rd8_def nth_append)
  have "acl_is_valid (m @ x) 0 16 = (if 2 \<le> length x then Some True else None)" for x
    using aces [of "m @ x"] same [of 4 x] same [of 10 x] cnt sz(1) len
    by (auto simp: acl_is_valid_def rd8_def nth_append)
  from this [of "[]"] this show ?thesis by simp
qed

theorem short_ace_defeats_validation_witness:
  "acl_is_valid [2, 0, 16, 0, 1, 0, 0, 0, 0, 0, 4, 0, 0xff, 0, 0, 0] 0 16 = None"
  using short_ace_defeats_validation [of "[2, 0, 16, 0, 1, 0, 0, 0, 0, 0, 4, 0, 0xff, 0, 0, 0]" 4]
  by (simp add: rd16_def rd8_def)

section \<open>Counting SIDs\<close>

text \<open>A list of SIDs as the filter request sends them: the count is what can be read from the buffer.\<close>

lemma get_sid_count_total:
  "p + sz \<le> length m \<Longrightarrow> \<exists>n. get_sid_count m p sz = Some n \<and> 8 * n \<le> sz"
proof (induction sz arbitrary: p rule: less_induct)
  case (less sz)
  show ?case
  proof (cases "sz < 8 \<or> \<not> 8 + 4 * unat (m ! (p + 1)) \<le> sz")
    case True
    then show ?thesis using less.prems by (subst get_sid_count.simps) auto
  next
    case False
    define k where "k = 8 + 4 * unat (m ! (p + 1))"
    have k: "8 \<le> k" "k \<le> sz" using False by (simp_all add: k_def)
    obtain n where "get_sid_count m (p + k) (sz - k) = Some n" "8 * n \<le> sz - k"
      using less.IH [of "sz - k" "p + k"] less.prems k by auto
    then have "get_sid_count m p sz = Some (Suc n)" "8 * Suc n \<le> sz"
      using less.prems False k by (subst get_sid_count.simps, simp add: k_def, simp)
    then show ?thesis by blast
  qed
qed

section \<open>Labels\<close>

definition raw_ok :: "u8 \<times> u8 list \<Rightarrow> bool" where
  "raw_ok a \<longleftrightarrow> 8 \<le> length (snd a) \<and> fst a = snd a ! 0 \<and> rd16 (snd a) 2 = Some (length (snd a))"

lemma rd8_append: "rd8 (pre @ xs) (length pre + q) = rd8 xs q" "q < length xs \<Longrightarrow> rd8 (xs @ ys) q = rd8 xs q"
  by (simp_all add: rd8_def nth_append)

lemma rd16_append: "rd16 (pre @ xs) (length pre + q) = rd16 xs q"
  using rd8_append(1) [of pre xs q] rd8_append(1) [of pre xs "q + 1"] by (simp add: rd16_def)

lemma rd16_append2: "q + 2 \<le> length xs \<Longrightarrow> rd16 (xs @ ys) q = rd16 xs q"
  by (simp add: rd16_def nth_append)

lemma raw_aces_concat:
  "\<forall>a \<in> set aces. raw_ok a \<Longrightarrow> raw_aces (pre @ concat (map snd aces)) (length aces) (length pre) = Some aces"
proof (induction aces arbitrary: pre)
  case (Cons a aces)
  let ?rest = "concat (map snd aces)"
  have ok: "8 \<le> length (snd a)" "fst a = snd a ! 0" "rd16 (snd a) 2 = Some (length (snd a))"
    using Cons.prems by (simp_all add: raw_ok_def)
  have sz: "rd16 (pre @ snd a @ ?rest) (length pre + 2) = Some (length (snd a))"
    unfolding rd16_append using rd16_append2 [of 2 "snd a" ?rest] ok by simp
  have ty: "rd8 (pre @ snd a @ ?rest) (length pre) = Some (fst a)"
    using ok(1,2) rd8_append(1) [of pre "snd a @ ?rest" 0] rd8_append(2) [of 0 "snd a" ?rest] by (cases "snd a") simp_all
  have "raw_aces (pre @ snd a @ ?rest) (length aces) (length pre + length (snd a)) = Some aces"
    using Cons.IH [of "pre @ snd a"] Cons.prems by simp
  then show ?case using sz ty by simp
qed simp

lemma rd16_wr16:
  assumes "n < 65536" shows "rd16 (wr16 n @ xs) 0 = Some n"
proof -
  have "unat (word_of_nat n :: u8) = n mod 256" "unat (word_of_nat (n div 256) :: u8) = n div 256"
    using assms by (simp_all only: unsigned_of_nat) (simp_all add: take_bit_eq_mod)
  then show ?thesis by (simp add: rd16_def rd8_def wr16_def)
qed

lemma raw_length: "\<forall>a \<in> set aces. raw_ok a \<Longrightarrow> 8 * length aces \<le> length (concat (map snd aces))"
  by (induction aces) (auto simp: raw_ok_def)

lemma raw_acl_build:
  assumes ok: "\<forall>a \<in> set aces. raw_ok a" and len: "8 + length (concat (map snd aces)) \<le> MAX_ACL_LEN"
  shows "raw_acl (build_acl rv aces) = Some (rv, aces)"
proof -
  let ?pre = "[rv, 0] @ wr16 (8 + length (concat (map snd aces))) @ wr16 (length aces) @ [0, 0]"
  have eq: "build_acl rv aces = ?pre @ concat (map snd aces)" by (simp add: build_acl_def)
  have pl: "length ?pre = 8" by (simp add: wr16_def)
  have cnt: "rd16 (build_acl rv aces) 4 = Some (length aces)"
  proof -
    have "rd16 (build_acl rv aces) 4 = rd16 (wr16 (length aces) @ []) 0"
      by (simp add: build_acl_def wr16_def rd16_def rd8_def)
    then show ?thesis using rd16_wr16 [of "length aces" "[]"] raw_length [OF ok] len by simp
  qed
  have "raw_aces (build_acl rv aces) (length aces) 8 = Some aces"
    unfolding eq using raw_aces_concat [OF ok, of ?pre] pl by simp
  moreover have "rd8 (build_acl rv aces) 0 = Some rv" by (simp add: build_acl_def rd8_def)
  ultimately show ?thesis using cnt by (simp add: raw_acl_def)
qed

lemma filter_labels:
  "filter is_label (filter (\<lambda>a. \<not> is_label a) xs) = []"
  "filter (\<lambda>a. \<not> is_label a) (filter is_label xs) = []"
  by (simp_all add: filter_empty_conv)

text \<open>C30. Replacing labels is exact: the list that \<^verbatim>\<open>replace_security_labels\<close> builds contains, byte for byte and
  in order, the entries of the old list that are not labels followed by the labels of the new one; so
  \<^verbatim>\<open>extract_security_labels\<close> finds in it exactly the labels that it finds in the new list.\<close>

theorem replace_labels_roundtrip:
  assumes old: "raw_acl old = Some (rv1, aces1)" "\<forall>a \<in> set aces1. raw_ok a"
    and new: "raw_acl new = Some (rv2, aces2)" "\<forall>a \<in> set aces2. raw_ok a"
    and res: "replace_security_labels mem_ok (Some old) (Some new) = Some (Inr acl)"
  shows "raw_acl acl = Some (max (max 2 rv1) (max 2 rv2), filter (\<lambda>a. \<not> is_label a) aces1 @ filter is_label aces2) \<and>
    extract_security_labels True acl = Some (Inr (build_acl (max (max 2 rv1) (max 2 rv2)) (filter is_label aces2)))"
proof -
  let ?aces = "filter (\<lambda>a. \<not> is_label a) aces1 @ filter is_label aces2"
  have acl: "8 + length (concat (map snd ?aces)) \<le> MAX_ACL_LEN" "acl = build_acl (max (max 2 rv1) (max 2 rv2)) ?aces"
    using res old(1) new(1) by (auto simp: replace_security_labels_def acl_part_def split: if_splits)
  have "raw_acl acl = Some (max (max 2 rv1) (max 2 rv2), ?aces)"
    unfolding acl(2) using acl(1) old(2) new(2) by (intro raw_acl_build) auto
  then show ?thesis by (simp add: extract_security_labels_def filter_labels)
qed

theorem replace_labels_roundtrip_witness:
  "let old = build_acl 2 [(2, [2, 0, 8, 0, 0, 0, 0, 0])]; new = build_acl 2 [(0x11, [0x11, 0, 8, 0, 1, 0, 0, 0])]
   in case replace_security_labels True (Some old) (Some new) of
        Some (Inr acl) \<Rightarrow> extract_security_labels True acl = Some (Inr (build_acl 2 [(0x11, [0x11, 0, 8, 0, 1, 0, 0, 0])]))
      | _ \<Rightarrow> False"
proof -
  let ?a = "(2, [2, 0, 8, 0, 0, 0, 0, 0]) :: u8 \<times> u8 list" and ?b = "(0x11, [0x11, 0, 8, 0, 1, 0, 0, 0]) :: u8 \<times> u8 list"
  have ok: "\<forall>a \<in> set [?a]. raw_ok a" "\<forall>a \<in> set [?b]. raw_ok a" by (simp_all add: raw_ok_def rd16_def)
  have o: "raw_acl (build_acl 2 [?a]) = Some (2, [?a])" and n: "raw_acl (build_acl 2 [?b]) = Some (2, [?b])"
    by (rule raw_acl_build [OF ok(1)], simp) (rule raw_acl_build [OF ok(2)], simp)
  obtain acl where r: "replace_security_labels True (Some (build_acl 2 [?a])) (Some (build_acl 2 [?b])) = Some (Inr acl)"
    using o n by (simp add: replace_security_labels_def acl_part_def is_label_def)
  from replace_labels_roundtrip [OF o ok(1) n ok(2) r] r show ?thesis by (simp add: Let_def is_label_def)
qed

end
