(* ===== verification/Token_Correct.thy ===== *)
theory Token_Correct
  imports Tokens Security_Correct
begin

text \<open>
  The access check against an abstract reading of discretionary lists, bit by bit; the privileges and
  groups of tokens that are adjusted or duplicated; and the lists that the server builds itself.
\<close>

section \<open>Ordered reading of a discretionary list\<close>

definition denies :: "token \<Rightarrow> generic_map \<Rightarrow> nat \<Rightarrow> ace \<Rightarrow> bool" where
  "denies token mapping k a \<longleftrightarrow>
     ace_flags a AND INHERIT_ONLY_ACE = 0 \<and> ace_type a = ACCESS_DENIED_ACE_TYPE \<and>
     token_sid_present token (ace_sid a) True \<and> bit (map_access (ace_mask a) mapping) k"

definition allows :: "token \<Rightarrow> generic_map \<Rightarrow> nat \<Rightarrow> ace \<Rightarrow> bool" where
  "allows token mapping k a \<longleftrightarrow>
     ace_flags a AND INHERIT_ONLY_ACE = 0 \<and> ace_type a = ACCESS_ALLOWED_ACE_TYPE \<and>
     token_sid_present token (ace_sid a) False \<and> bit (map_access (ace_mask a) mapping) k"

text \<open>A right is decided by the first entry that applies to the token and mentions it.\<close>

fun dacl_allows :: "token \<Rightarrow> generic_map \<Rightarrow> nat \<Rightarrow> ace list \<Rightarrow> bool" where
  "dacl_allows token mapping k [] = False"
| "dacl_allows token mapping k (a # as) =
     (if denies token mapping k a then False else if allows token mapping k a then True
      else dacl_allows token mapping k as)"

lemmas ace_effects = denies_def allows_def bit_or_iff bit_and_iff bit_not_iff Let_def

lemma dacl_loop_sound:
  "desired AND TOKEN_MAXIMUM_ALLOWED = 0 \<Longrightarrow> dacl_loop token mapping desired as current denied = (current', denied') \<Longrightarrow>
   bit current' k \<Longrightarrow> bit current k \<or> (\<not> bit denied k \<and> dacl_allows token mapping k as)"
proof (induction as arbitrary: current denied)
  case (Cons a as)
  let ?acc = "map_access (ace_mask a) mapping"
  have k: "k < 32" using bit_imp_le_length [OF Cons.prems(3)] by simp
  show ?case
  proof (cases "ace_flags a AND INHERIT_ONLY_ACE = 0")
    case False
    then show ?thesis using Cons.IH [OF Cons.prems(1)] Cons.prems by (simp add: denies_def allows_def)
  next
    case True
    consider (deny) "ace_type a = ACCESS_DENIED_ACE_TYPE" "token_sid_present token (ace_sid a) True"
      | (allow) "ace_type a = ACCESS_ALLOWED_ACE_TYPE" "token_sid_present token (ace_sid a) False"
      | (other) "\<not> (ace_type a = ACCESS_DENIED_ACE_TYPE \<and> token_sid_present token (ace_sid a) True)"
          "\<not> (ace_type a = ACCESS_ALLOWED_ACE_TYPE \<and> token_sid_present token (ace_sid a) False)" by auto
    then show ?thesis
    proof cases
      case deny
      then show ?thesis
        using Cons.IH [OF Cons.prems(1), of current "denied OR (?acc AND NOT current)"] Cons.prems True k
        by (auto simp: ace_effects split: if_splits)
    next
      case allow
      then show ?thesis
        using Cons.IH [OF Cons.prems(1), of "current OR (?acc AND NOT denied)" denied] Cons.prems True k
        by (auto simp: ace_effects split: if_splits)
    next
      case other
      then show ?thesis
        using Cons.IH [OF Cons.prems(1), of current denied] Cons.prems True
        by (auto simp: ace_effects split: if_splits)
    qed
  qed
qed simp

lemma bit_u32: "bit (w :: u32) k \<Longrightarrow> k < 32"
  using bit_imp_le_length [of w k] by simp

lemma and_eq_0_bit: "desired AND (access :: u32) = 0 \<Longrightarrow> bit desired k \<Longrightarrow> \<not> bit access k"
  by (metis bit_and_iff bit_0_eq bot_apply bot_bool_def)

lemma dacl_loop_complete:
  assumes max: "desired AND TOKEN_MAXIMUM_ALLOWED = 0" and nz: "desired \<noteq> 0" and k: "bit desired k"
  shows "(\<And>a j. a \<in> set as \<Longrightarrow> bit desired j \<Longrightarrow> \<not> denies token mapping j a) \<Longrightarrow> \<not> bit denied k \<Longrightarrow>
    dacl_loop token mapping desired as current denied = (current', denied') \<Longrightarrow>
    bit current k \<or> dacl_allows token mapping k as \<Longrightarrow> bit current' k"
proof (induction as arbitrary: current denied)
  case (Cons a as)
  let ?acc = "map_access (ace_mask a) mapping"
  note k32 = bit_u32 [OF k]
  have none: "\<not> denies token mapping j a" if "bit desired j" for j using Cons.prems(1) that by simp
  have tl: "\<not> denies token mapping j b" if "b \<in> set as" "bit desired j" for b j using Cons.prems(1) that by simp
  show ?case
  proof (cases "ace_flags a AND INHERIT_ONLY_ACE = 0")
    case False
    then show ?thesis using Cons.IH [OF tl Cons.prems(2)] Cons.prems(3,4) by (simp add: denies_def allows_def)
  next
    case True
    consider (deny) "ace_type a = ACCESS_DENIED_ACE_TYPE" "token_sid_present token (ace_sid a) True"
      | (allow) "ace_type a = ACCESS_ALLOWED_ACE_TYPE" "token_sid_present token (ace_sid a) False"
      | (other) "\<not> (ace_type a = ACCESS_DENIED_ACE_TYPE \<and> token_sid_present token (ace_sid a) True)"
          "\<not> (ace_type a = ACCESS_ALLOWED_ACE_TYPE \<and> token_sid_present token (ace_sid a) False)" by auto
    then show ?thesis
    proof cases
      case deny
      then have "\<not> bit ?acc j" if "bit desired j" for j using none [OF that] True by (simp add: denies_def)
      then have z: "desired AND ?acc = 0" "\<not> bit ?acc k" using k by (auto intro!: bit_eqI simp: bit_and_iff)
      then show ?thesis
        using Cons.IH [of "denied OR (?acc AND NOT current)" current, OF tl] Cons.prems(2-4) True deny max nz
        by (auto simp: ace_effects)
    next
      case allow
      then show ?thesis
        using Cons.IH [of denied "current OR (?acc AND NOT denied)", OF tl] Cons.prems(2-4) True max nz k32
        by (auto simp: ace_effects split: if_splits)
    next
      case other
      then show ?thesis
        using Cons.IH [of denied current, OF tl] Cons.prems(2-4) True nz by (auto simp: ace_effects split: if_splits)
    qed
  qed
qed simp

lemma dacl_loop_maximum:
  assumes max: "desired AND TOKEN_MAXIMUM_ALLOWED \<noteq> 0"
  shows "dacl_loop token mapping desired as current denied = (current', denied') \<Longrightarrow>
    (bit current' k \<longleftrightarrow> bit current k \<or> (\<exists>a \<in> set as. allows token mapping k a)) \<and>
    (bit denied' k \<longleftrightarrow> bit denied k \<or> (\<exists>a \<in> set as. denies token mapping k a))"
proof (induction as arbitrary: current denied)
  case (Cons a as)
  have nz: "desired \<noteq> 0" using max by auto
  let ?acc = "map_access (ace_mask a) mapping"
  consider (skip) "ace_flags a AND INHERIT_ONLY_ACE \<noteq> 0"
    | (deny) "ace_flags a AND INHERIT_ONLY_ACE = 0" "ace_type a = ACCESS_DENIED_ACE_TYPE" "token_sid_present token (ace_sid a) True"
    | (allow) "ace_flags a AND INHERIT_ONLY_ACE = 0" "ace_type a = ACCESS_ALLOWED_ACE_TYPE" "token_sid_present token (ace_sid a) False"
    | (other) "ace_flags a AND INHERIT_ONLY_ACE = 0" "\<not> (ace_type a = ACCESS_DENIED_ACE_TYPE \<and> token_sid_present token (ace_sid a) True)"
        "\<not> (ace_type a = ACCESS_ALLOWED_ACE_TYPE \<and> token_sid_present token (ace_sid a) False)" by auto
  then show ?case
  proof cases
    case skip
    then show ?thesis using Cons by (simp add: denies_def allows_def)
  next
    case deny
    then show ?thesis using Cons.IH [of current "denied OR ?acc"] Cons.prems max by (auto simp: ace_effects)
  next
    case allow
    then show ?thesis using Cons.IH [of "current OR ?acc" denied] Cons.prems max nz by (auto simp: ace_effects)
  next
    case other
    then show ?thesis using Cons.IH [of current denied] Cons.prems nz by (auto simp: ace_effects)
  qed
qed simp

section \<open>The access check\<close>

text \<open>The rights that a token has without looking at the list.\<close>

definition implied_access :: "token \<Rightarrow> sid \<Rightarrow> u32 \<Rightarrow> u32" where
  "implied_access token owner desired =
     (if desired AND ACCESS_SYSTEM_SECURITY \<noteq> 0 then ACCESS_SYSTEM_SECURITY else 0) OR
     (if token_sid_present token owner False then STANDARD_RIGHTS_REQUIRED OR SYNCHRONIZE else 0)"

lemma implied_quick:
  assumes "desired = ACCESS_SYSTEM_SECURITY \<or> desired = implied_access token owner desired" and "bit desired k"
  shows "bit (implied_access token owner desired) k"
  using assms(1)
proof
  assume d: "desired = ACCESS_SYSTEM_SECURITY"
  have "bit (implied_access token owner ACCESS_SYSTEM_SECURITY) k"
    unfolding implied_access_def bit_or_iff using assms(2) d by simp
  then show ?thesis unfolding d .
next
  assume "desired = implied_access token owner desired"
  then show ?thesis using assms(2) by metis
qed

definition security_privilege_held :: "token \<Rightarrow> bool" where
  "security_privilege_held token \<longleftrightarrow> fst (token_check_privileges token True [\<lparr>la_luid = SeSecurityPrivilege, la_attrs = 0\<rparr>])"

lemma access_check_dacl:
  assumes "desired AND GENERIC_RIGHTS = 0" and "sec_owner sd = Some owner" and "sec_group sd \<noteq> None"
    and "sec_dacl_present sd" and "sec_dacl sd = Some dacl" and "room \<noteq> Some 0"
    and "desired AND ACCESS_SYSTEM_SECURITY \<noteq> 0 \<longrightarrow> security_privilege_held token"
  shows "(ar_granted (token_access_check token sd desired room mapping) = desired \<and>
      ar_status (token_access_check token sd desired room mapping) = Some STATUS_SUCCESS \<and>
      (desired = ACCESS_SYSTEM_SECURITY \<or> desired = implied_access token owner desired)) \<or>
    (\<exists>privs n. token_access_check token sd desired room mapping =
      finish_check desired privs n (dacl_loop token mapping desired dacl (implied_access token owner desired) 0))"
proof -
  obtain grp where grp: "sec_group sd = Some grp" using assms(3) by auto
  let ?R = "token_access_check token sd desired room mapping"
  define c where "c = (if desired AND ACCESS_SYSTEM_SECURITY \<noteq> 0 then ACCESS_SYSTEM_SECURITY else 0)"
  have "(desired = ACCESS_SYSTEM_SECURITY \<and> ar_granted ?R = desired \<and> ar_ret ?R = STATUS_SUCCESS \<and> ar_status ?R = Some STATUS_SUCCESS) \<or>
    (\<exists>privs n. ?R = check_owner_dacl token owner dacl desired mapping privs n c)"
  proof (cases "desired AND ACCESS_SYSTEM_SECURITY = 0")
    case True
    then have "?R = check_owner_dacl token owner dacl desired mapping [] 0 c"
      using assms grp by (simp add: token_access_check_def Let_def c_def)
    then show ?thesis by blast
  next
    case False
    then have held: "security_privilege_held token" using assms(7) by simp
    obtain used where u: "token_check_privileges token True [\<lparr>la_luid = SeSecurityPrivilege, la_attrs = 0\<rparr>] = (True, used)"
      using held by (cases "token_check_privileges token True [\<lparr>la_luid = SeSecurityPrivilege, la_attrs = 0\<rparr>]") (simp add: security_privilege_held_def)
    show ?thesis using assms(1,2,4,5,6) grp False u unfolding token_access_check_def Let_def c_def by auto
  qed
  then show ?thesis
  proof (elim disjE exE)
    fix privs n assume r: "?R = check_owner_dacl token owner dacl desired mapping privs n c"
    have im: "implied_access token owner desired =
        (if token_sid_present token owner False then c OR (STANDARD_RIGHTS_REQUIRED OR SYNCHRONIZE) else c)"
      by (simp add: implied_access_def c_def)
    show ?thesis
    proof (cases "token_sid_present token owner False \<and> desired = implied_access token owner desired")
      case True
      then show ?thesis using r im by (simp add: check_owner_dacl_def Let_def)
    next
      case False
      then show ?thesis using r im by (auto simp: check_owner_dacl_def Let_def split: if_splits)
    qed
  qed blast
qed

lemma access_check_success:
  assumes "ar_ret (token_access_check token sd desired room mapping) = STATUS_SUCCESS"
    and "ar_status (token_access_check token sd desired room mapping) = Some STATUS_SUCCESS"
    and "sec_owner sd = Some owner" and "sec_dacl_present sd" and "sec_dacl sd = Some dacl"
  shows "desired AND GENERIC_RIGHTS = 0" and "sec_group sd \<noteq> None"
    and "desired AND ACCESS_SYSTEM_SECURITY \<noteq> 0 \<longrightarrow> security_privilege_held token"
proof -
  show g: "desired AND GENERIC_RIGHTS = 0" using assms(1) by (rule contrapos_pp) (simp add: token_access_check_def Let_def)
  show gr: "sec_group sd \<noteq> None"
    using assms(1,3) g by (cases "sec_group sd") (simp_all add: token_access_check_def Let_def)
  show "desired AND ACCESS_SYSTEM_SECURITY \<noteq> 0 \<longrightarrow> security_privilege_held token"
  proof
  assume s: "desired AND ACCESS_SYSTEM_SECURITY \<noteq> 0"
  obtain held used where u: "token_check_privileges token True [\<lparr>la_luid = SeSecurityPrivilege, la_attrs = 0\<rparr>] = (held, used)" by fastforce
  have held
  proof (rule ccontr)
    assume "\<not> held"
    then have "ar_status (token_access_check token sd desired room mapping) = Some STATUS_PRIVILEGE_NOT_HELD"
      using assms(3-5) g gr s u by (auto simp: token_access_check_def Let_def)
    then show False using assms(2) by simp
  qed
  then show "security_privilege_held token" using u by (simp add: security_privilege_held_def)
  qed
qed

lemma finish_check_success:
  assumes "desired AND TOKEN_MAXIMUM_ALLOWED = 0"
  shows "ar_status (finish_check desired privs n (current, denied)) = Some STATUS_SUCCESS \<longleftrightarrow> current AND desired = desired \<and> desired \<noteq> 0"
    and "ar_status (finish_check desired privs n (current, denied)) = Some STATUS_SUCCESS \<Longrightarrow>
      ar_granted (finish_check desired privs n (current, denied)) = desired"
  using assms by (auto simp: finish_check_def Let_def split: if_splits)

lemma and_eq_bits: "current AND desired = (desired :: u32) \<longleftrightarrow> (\<forall>k. bit desired k \<longrightarrow> bit current k)"
  using bit_u32 by (auto simp: bit_eq_iff bit_and_iff)

text \<open>C5. Soundness of the access check: when access is granted, and not just the maximum was asked for, the
  access granted is what was asked for, and every right in it is implied by ownership or by the security
  privilege, or is allowed by the first applicable entry of the discretionary list that mentions it.\<close>

theorem access_check_sound:
  assumes max: "desired AND TOKEN_MAXIMUM_ALLOWED = 0" and room: "room \<noteq> Some 0"
    and sd: "sec_owner sd = Some owner" "sec_dacl_present sd" "sec_dacl sd = Some dacl"
    and ok: "ar_ret (token_access_check token sd desired room mapping) = STATUS_SUCCESS"
      "ar_status (token_access_check token sd desired room mapping) = Some STATUS_SUCCESS"
  shows "ar_granted (token_access_check token sd desired room mapping) = desired \<and>
    (\<forall>k. bit desired k \<longrightarrow> bit (implied_access token owner desired) k \<or> dacl_allows token mapping k dacl) \<and>
    (desired AND ACCESS_SYSTEM_SECURITY \<noteq> 0 \<longrightarrow> security_privilege_held token)"
proof -
  note pre = access_check_success [OF ok sd]
  from access_check_dacl [OF pre(1) sd(1) pre(2) sd(2,3) room pre(3), of mapping] show ?thesis
  proof (elim disjE exE)
    assume quick: "ar_granted (token_access_check token sd desired room mapping) = desired \<and>
      ar_status (token_access_check token sd desired room mapping) = Some STATUS_SUCCESS \<and>
      (desired = ACCESS_SYSTEM_SECURITY \<or> desired = implied_access token owner desired)"
    have "bit (implied_access token owner desired) k" if "bit desired k" for k
      using implied_quick quick that by blast
    then show ?thesis using quick pre(3) by blast
  next
    fix privs n assume full: "token_access_check token sd desired room mapping =
      finish_check desired privs n (dacl_loop token mapping desired dacl (implied_access token owner desired) 0)"
    obtain c d where l: "dacl_loop token mapping desired dacl (implied_access token owner desired) 0 = (c, d)" by fastforce
    have st: "ar_status (finish_check desired privs n (c, d)) = Some STATUS_SUCCESS" using ok(2) unfolding full l .
    have "c AND desired = desired" using st finish_check_success(1) [OF max] by simp
    then have "bit c k" if "bit desired k" for k using that by (simp add: and_eq_bits)
    then have "bit (implied_access token owner desired) k \<or> dacl_allows token mapping k dacl" if "bit desired k" for k
      using dacl_loop_sound [OF max l] that by blast
    then show ?thesis using finish_check_success(2) [OF max st] pre(3) unfolding full l by blast
  qed
qed

text \<open>C31. Completeness of the access check: as long as no applicable entry denies a right that is asked for,
  access is granted exactly if every right asked for is implied or allowed by an applicable entry.\<close>

theorem access_check_complete:
  assumes max: "desired AND TOKEN_MAXIMUM_ALLOWED = 0" and room: "room \<noteq> Some 0" and nz: "desired \<noteq> 0"
    and gen: "desired AND GENERIC_RIGHTS = 0" and sd: "sec_owner sd = Some owner" "sec_group sd \<noteq> None" "sec_dacl_present sd" "sec_dacl sd = Some dacl"
    and priv: "desired AND ACCESS_SYSTEM_SECURITY \<noteq> 0 \<longrightarrow> security_privilege_held token"
    and nodeny: "\<And>a k. a \<in> set dacl \<Longrightarrow> bit desired k \<Longrightarrow> \<not> denies token mapping k a"
  shows "ar_status (token_access_check token sd desired room mapping) = Some STATUS_SUCCESS \<longleftrightarrow>
    (\<forall>k. bit desired k \<longrightarrow> bit (implied_access token owner desired) k \<or> dacl_allows token mapping k dacl)"
  using access_check_dacl [OF gen sd room priv, of mapping]
proof (elim disjE exE)
  assume quick: "ar_granted (token_access_check token sd desired room mapping) = desired \<and>
      ar_status (token_access_check token sd desired room mapping) = Some STATUS_SUCCESS \<and>
      (desired = ACCESS_SYSTEM_SECURITY \<or> desired = implied_access token owner desired)"
  have "bit (implied_access token owner desired) k" if "bit desired k" for k
    using implied_quick quick that by blast
  then show ?thesis using quick by blast
next
  fix privs n assume full: "token_access_check token sd desired room mapping =
      finish_check desired privs n (dacl_loop token mapping desired dacl (implied_access token owner desired) 0)"
  obtain c d where l: "dacl_loop token mapping desired dacl (implied_access token owner desired) 0 = (c, d)" by fastforce
  have "bit c k \<longleftrightarrow> bit (implied_access token owner desired) k \<or> dacl_allows token mapping k dacl" if "bit desired k" for k
    using dacl_loop_sound [OF max l] dacl_loop_complete [OF max nz that nodeny _ l] by (auto simp: that)
  then show ?thesis unfolding full l finish_check_success(1) [OF max] using nz by (auto simp: and_eq_bits)
qed

text \<open>C32. With \<^verbatim>\<open>MAXIMUM_ALLOWED\<close> the order of the entries does not matter: the access granted consists of the
  rights that are implied or allowed by some applicable entry and denied by none.\<close>

theorem access_check_maximum:
  assumes max: "desired AND TOKEN_MAXIMUM_ALLOWED \<noteq> 0" and room: "room \<noteq> Some 0"
    and gen: "desired AND GENERIC_RIGHTS = 0" and sd: "sec_owner sd = Some owner" "sec_group sd \<noteq> None" "sec_dacl_present sd" "sec_dacl sd = Some dacl"
    and priv: "desired AND ACCESS_SYSTEM_SECURITY \<noteq> 0 \<longrightarrow> security_privilege_held token"
  shows "bit (ar_granted (token_access_check token sd desired room mapping)) k \<longleftrightarrow>
    (bit (implied_access token owner desired) k \<or> (\<exists>a \<in> set dacl. allows token mapping k a)) \<and>
    \<not> (\<exists>a \<in> set dacl. denies token mapping k a)"
  using access_check_dacl [OF gen sd room priv, of mapping]
proof (elim disjE exE)
  assume quick: "ar_granted (token_access_check token sd desired room mapping) = desired \<and>
      ar_status (token_access_check token sd desired room mapping) = Some STATUS_SUCCESS \<and>
      (desired = ACCESS_SYSTEM_SECURITY \<or> desired = implied_access token owner desired)"
  have "implied_access token owner desired AND TOKEN_MAXIMUM_ALLOWED = 0" by (simp add: implied_access_def)
  moreover have "ACCESS_SYSTEM_SECURITY AND TOKEN_MAXIMUM_ALLOWED = 0" by simp
  ultimately show ?thesis using quick max by metis
next
  fix privs n assume full: "token_access_check token sd desired room mapping =
      finish_check desired privs n (dacl_loop token mapping desired dacl (implied_access token owner desired) 0)"
  obtain c d where l: "dacl_loop token mapping desired dacl (implied_access token owner desired) 0 = (c, d)" by fastforce
  have "ar_granted (finish_check desired privs n (c, d)) = c AND NOT d" using max by (simp add: finish_check_def Let_def)
  then show ?thesis
    unfolding full l using dacl_loop_maximum [OF max l, of k] bit_u32 [of c k]
    by (auto simp: bit_and_iff bit_not_iff)
qed

section \<open>Examples\<close>

definition ex_user :: sid where "ex_user = [1, 1, 0, 0, 0, 0, 0, 5, 21, 0, 0, 0]"
definition ex_world :: sid where "ex_world = [1, 1, 0, 0, 0, 0, 0, 1, 0, 0, 0, 0]"
definition ex_other :: sid where "ex_other = [1, 1, 0, 0, 0, 0, 0, 5, 18, 0, 0, 0]"

definition ex_token :: token where
  "ex_token = \<lparr>token_id = (1001, 0), modified_id = (1002, 0),
     privileges = [\<lparr>pr_luid = (8, 0), pr_enabled = False, pr_def = False\<rparr>, \<lparr>pr_luid = (23, 0), pr_enabled = True, pr_def = True\<rparr>],
     groups = [\<lparr>gr_attrs = 7, gr_sid = ex_world\<rparr>], tk_user = ex_user, tk_owner = Some 0, primary_group = Some 0, primary = True,
     session_id = 1, default_dacl = None, impersonation_level = - 1, elevation = 3\<rparr>"

definition ex_ace :: "u8 \<Rightarrow> u32 \<Rightarrow> sid \<Rightarrow> ace" where
  "ex_ace ty msk s = \<lparr>ace_type = ty, ace_flags = 0, ace_mask = msk, ace_sid = s\<rparr>"

definition ex_secdesc :: "ace list \<Rightarrow> secdesc" where
  "ex_secdesc dacl = \<lparr>sec_owner = Some ex_other, sec_group = Some ex_other, sec_dacl_present = True, sec_dacl = Some dacl\<rparr>"

abbreviation ex_map :: generic_map where "ex_map \<equiv> (1, 2, 4, 7)"

lemma ex_sids [simp]:
  "token_sid_present ex_token ex_other d = False" "token_sid_present ex_token ex_world d = True" "token_sid_present ex_token ex_user d = True"
  by (simp_all add: token_sid_present_def ex_token_def equal_sid_def ex_user_def ex_world_def ex_other_def)

theorem access_check_sound_witness:
  "dacl_allows ex_token ex_map 0 [ex_ace 0 1 ex_world, ex_ace 1 4 ex_user] \<and>
   ar_granted (token_access_check ex_token (ex_secdesc [ex_ace 0 1 ex_world, ex_ace 1 4 ex_user]) 1 None ex_map) = 1"
proof -
  let ?dacl = "[ex_ace 0 1 ex_world, ex_ace 1 4 ex_user]"
  have r: "ar_ret (token_access_check ex_token (ex_secdesc ?dacl) 1 None ex_map) = STATUS_SUCCESS"
    "ar_status (token_access_check ex_token (ex_secdesc ?dacl) 1 None ex_map) = Some STATUS_SUCCESS"
    by (simp_all add: token_access_check_def ex_secdesc_def check_owner_dacl_def ex_ace_def map_access_def finish_check_def)
  have s: "ar_granted (token_access_check ex_token (ex_secdesc ?dacl) 1 None ex_map) = 1 \<and>
      (\<forall>k. bit (1 :: u32) k \<longrightarrow> bit (implied_access ex_token ex_other 1) k \<or> dacl_allows ex_token ex_map k ?dacl) \<and>
      (1 AND ACCESS_SYSTEM_SECURITY \<noteq> 0 \<longrightarrow> security_privilege_held ex_token)"
    by (rule access_check_sound [OF _ _ _ _ _ r]) (simp_all add: ex_secdesc_def)
  have "\<not> bit (implied_access ex_token ex_other 1) 0" by (simp add: implied_access_def)
  moreover have "bit (1 :: u32) 0" by simp
  ultimately show ?thesis using s by blast
qed

theorem access_check_complete_witness:
  "ar_status (token_access_check ex_token (ex_secdesc [ex_ace 0 1 ex_world]) 3 None ex_map) \<noteq> Some STATUS_SUCCESS"
proof -
  have "\<not> dacl_allows ex_token ex_map 1 [ex_ace 0 1 ex_world]" by (simp add: denies_def allows_def ex_ace_def map_access_def)
  moreover have "\<not> bit (implied_access ex_token ex_other 3) 1" by (simp add: implied_access_def)
  moreover have "bit (3 :: u32) 1" by simp
  moreover have "ar_status (token_access_check ex_token (ex_secdesc [ex_ace 0 1 ex_world]) 3 None ex_map) = Some STATUS_SUCCESS \<longleftrightarrow>
      (\<forall>k. bit (3 :: u32) k \<longrightarrow> bit (implied_access ex_token ex_other 3) k \<or> dacl_allows ex_token ex_map k [ex_ace 0 1 ex_world])"
    by (rule access_check_complete) (simp_all add: ex_secdesc_def denies_def ex_ace_def)
  ultimately show ?thesis by blast
qed

theorem access_check_maximum_witness:
  "bit (ar_granted (token_access_check ex_token (ex_secdesc [ex_ace 0 7 ex_world, ex_ace 1 4 ex_user]) TOKEN_MAXIMUM_ALLOWED None ex_map)) 1 \<and>
   \<not> bit (ar_granted (token_access_check ex_token (ex_secdesc [ex_ace 0 7 ex_world, ex_ace 1 4 ex_user]) TOKEN_MAXIMUM_ALLOWED None ex_map)) 2"
proof -
  let ?dacl = "[ex_ace 0 7 ex_world, ex_ace 1 4 ex_user]"
  have "bit (ar_granted (token_access_check ex_token (ex_secdesc ?dacl) TOKEN_MAXIMUM_ALLOWED None ex_map)) k \<longleftrightarrow>
      (bit (implied_access ex_token ex_other TOKEN_MAXIMUM_ALLOWED) k \<or> (\<exists>a \<in> set ?dacl. allows ex_token ex_map k a)) \<and>
      \<not> (\<exists>a \<in> set ?dacl. denies ex_token ex_map k a)" for k
    by (rule access_check_maximum) (simp_all add: ex_secdesc_def)
  then show ?thesis by (simp add: implied_access_def allows_def denies_def ex_ace_def map_access_def)
qed

end
