(* ===== verification/Token_Rights.thy ===== *)
theory Token_Rights
  imports Token_Correct
begin

text \<open>
  Tokens that are derived from other tokens never gain privileges or groups; what deny-only groups do;
  and the lists that the server builds and keeps itself.
\<close>

section \<open>Privileges\<close>

lemma find_privilege_Some:
  "find_privilege l eo ps = Some i \<Longrightarrow> i < length ps \<and> pr_luid (ps ! i) = l"
  by (induction ps arbitrary: i) (auto simp: is_equal_luid_def prod_eq_iff split: if_splits)

lemma subseq_remove_nth: "subseq (remove_nth i xs) xs"
proof -
  have "subseq (take i xs @ drop (Suc i) xs) (take i xs @ drop i xs)"
  proof (rule list_emb_append_mono)
    show "subseq (drop (Suc i) xs) (drop i xs)"
      by (metis drop_Suc list_emb_Nil2 subseq_order.refl suffix_drop suffix_imp_subseq drop_drop add.commute plus_1_eq_Suc)
  qed simp
  then show ?thesis by (simp add: remove_nth_def)
qed

abbreviation luids :: "token \<Rightarrow> luid list" where
  "luids t \<equiv> map pr_luid (privileges t)"

text \<open>Everything but the privileges and the modification id.\<close>

definition same_identity :: "token \<Rightarrow> token \<Rightarrow> bool" where
  "same_identity t t' \<longleftrightarrow> tk_user t' = tk_user t \<and> groups t' = groups t \<and> session_id t' = session_id t"

lemma adjust_privileges_spec:
  "adjust_privileges las room t out err = (t', out', err') \<Longrightarrow>
     subseq (luids t') (luids t) \<and> same_identity t t'"
proof (induction las room t out err rule: adjust_privileges.induct)
  case (1 room t out err)
  then show ?case by (simp add: same_identity_def)
next
  case (2 la las room t out err)
  show ?case
  proof (cases "token_find_privilege t (la_luid la) False")
    case None
    then show ?thesis using 2 by simp
  next
    case (Some i)
    show ?thesis
    proof (cases "la_attrs la AND SE_PRIVILEGE_REMOVED = 0")
      case False
      then have "subseq (luids t') (luids (privilege_remove i t)) \<and> same_identity (privilege_remove i t) t'"
        using 2(2) [OF Some] 2(4) Some by simp
      moreover have "subseq (luids (privilege_remove i t)) (luids t)"
        by (simp add: privilege_remove_def subseq_map subseq_remove_nth)
      ultimately show ?thesis
        by (auto simp: same_identity_def privilege_remove_def intro: subseq_order.trans)
    next
      case True
      let ?p = "privileges t ! i"
      let ?t1 = "t\<lparr>privileges := (privileges t)[i := ?p\<lparr>pr_enabled := (la_attrs la AND SE_PRIVILEGE_ENABLED \<noteq> 0)\<rparr>]\<rparr>"
      have "i < length (privileges t)" using Some find_privilege_Some by (auto simp: token_find_privilege_def)
      then have "luids ?t1 = luids t" by (simp add: map_update list_update_same_conv)
      then show ?thesis using 2(3) [OF Some] 2(4) True Some by (auto simp: same_identity_def Let_def)
    qed
  qed
qed

section \<open>Derived tokens\<close>

text \<open>The ways in which a client gets at a token made from one it has.\<close>

inductive derived :: "token \<Rightarrow> token \<Rightarrow> bool" where
  adjusted: "token_adjust_privileges prev privs room t = (prev', t', out, err) \<Longrightarrow> derived t t'"
| disabled: "token_disable_privileges prev t = (prev', t') \<Longrightarrow> derived t t'"
| duplicated: "token_duplicate mem_ok prev t prim level remove_privs remove_groups = Some (prev', Inr t') \<Longrightarrow> derived t t'"

lemma fold_privilege_add:
  "privileges (fold (\<lambda>p. privilege_add (f p) (g p)) ps t) = privileges t @ map (\<lambda>p. \<lparr>pr_luid = f p, pr_enabled = g p, pr_def = g p\<rparr>) ps \<and>
   same_identity t (fold (\<lambda>p. privilege_add (f p) (g p)) ps t) \<and>
   primary_group (fold (\<lambda>p. privilege_add (f p) (g p)) ps t) = primary_group t"
  by (induction ps arbitrary: t) (simp_all add: privilege_add_def same_identity_def)

lemma token_duplicate_Inr:
  assumes "token_duplicate mem_ok prev t prim level remove_privs remove_groups = Some (prev', Inr t')"
  shows "luids t' = map pr_luid (filter (\<lambda>p. \<not> filter_privilege p remove_privs) (privileges t))"
    and "groups t' = map (duplicate_group remove_groups) (groups t)" and "tk_user t' = tk_user t" and "session_id t' = session_id t"
    and "primary_group t' = primary_group t" and "primary_group t \<noteq> None"
proof -
  obtain prev1 tk where c: "create_token mem_ok prev prim (session_id t) (tk_user t) [] [] (default_dacl t)
      (if prim \<or> level = impersonation_level t then Some (modified_id t) else None) 0 level (elevation t) = (prev1, Inr tk)"
    using assms by (auto simp: token_duplicate_def Let_def split: if_splits prod.splits sum.splits)
  have tk: "privileges tk = []" "tk_user tk = tk_user t" "session_id tk = session_id t"
    using c by (auto simp: create_token_def Let_def split: if_splits)
  let ?t1 = "tk\<lparr>groups := map (duplicate_group remove_groups) (groups t), tk_owner := primary_group t, primary_group := primary_group t\<rparr>"
  have t': "primary_group t \<noteq> None" "t' = fold (\<lambda>p. privilege_add (pr_luid p) (pr_enabled p))
      (filter (\<lambda>p. \<not> filter_privilege p remove_privs) (privileges t)) ?t1"
    using assms c by (auto simp: token_duplicate_def Let_def split: if_splits)
  note f = fold_privilege_add [of pr_luid pr_enabled "filter (\<lambda>p. \<not> filter_privilege p remove_privs) (privileges t)" ?t1, folded t'(2)]
  show "luids t' = map pr_luid (filter (\<lambda>p. \<not> filter_privilege p remove_privs) (privileges t))"
    "groups t' = map (duplicate_group remove_groups) (groups t)" "tk_user t' = tk_user t" "session_id t' = session_id t"
    "primary_group t' = primary_group t" "primary_group t \<noteq> None"
    using f tk t'(1) by (simp_all add: same_identity_def comp_def)
qed

lemma disabled_group:
  "(a AND NOT (SE_GROUP_ENABLED OR SE_GROUP_ENABLED_BY_DEFAULT) OR SE_GROUP_USE_FOR_DENY_ONLY) AND SE_GROUP_ENABLED = (0 :: u32)"
proof -
  have "(x AND NOT 6) AND 4 = (0 :: u32)" for x by (simp add: and.assoc)
  then show ?thesis by (simp add: bit.conj_disj_distrib2)
qed

lemma duplicate_present:
  assumes "groups t' = map (duplicate_group rg) (groups t)" and "tk_user t' = tk_user t" and "token_sid_present t' s deny"
  shows "equal_sid (tk_user t) s \<or>
    (\<exists>g \<in> set (groups t). \<not> filter_group g rg \<and> gr_attrs g AND SE_GROUP_ENABLED \<noteq> 0 \<and>
      \<not> (\<not> deny \<and> gr_attrs g AND SE_GROUP_USE_FOR_DENY_ONLY \<noteq> 0) \<and> equal_sid (gr_sid g) s)"
proof (cases "equal_sid (tk_user t) s")
  case False
  then obtain g where g: "g \<in> set (groups t)" "gr_attrs (duplicate_group rg g) AND SE_GROUP_ENABLED \<noteq> 0"
      "\<not> (\<not> deny \<and> gr_attrs (duplicate_group rg g) AND SE_GROUP_USE_FOR_DENY_ONLY \<noteq> 0)" "equal_sid (gr_sid (duplicate_group rg g)) s"
    using assms by (auto simp: token_sid_present_def)
  have "\<not> filter_group g rg"
  proof
    assume "filter_group g rg"
    then have "gr_attrs (duplicate_group rg g) AND SE_GROUP_ENABLED = 0" unfolding duplicate_group_def using disabled_group by simp
    then show False using g(2) by simp
  qed
  then show ?thesis using g by (auto simp: duplicate_group_def)
qed simp

text \<open>The token \<open>t'\<close> has no privilege and no SID to be allowed access with that \<open>t\<close> does not have.\<close>

definition no_more_rights :: "token \<Rightarrow> token \<Rightarrow> bool" where
  "no_more_rights t t' \<longleftrightarrow> set (luids t') \<subseteq> set (luids t) \<and> tk_user t' = tk_user t \<and> session_id t' = session_id t \<and>
    (\<forall>s. token_sid_present t' s False \<longrightarrow> token_sid_present t s False)"

lemma derived_step:
  assumes "derived t t'"
  shows "no_more_rights t t'"
  using assms
proof cases
  case (adjusted prev privs room prev' out err)
  then have "subseq (luids t') (luids t) \<and> same_identity (t\<lparr>modified_id := allocate_luid prev\<rparr>) t'"
    using adjust_privileges_spec [of privs room "t\<lparr>modified_id := allocate_luid prev\<rparr>"] by (auto simp: token_adjust_privileges_def Let_def)
  moreover from this have "set (luids t') \<subseteq> set (luids t)" using list_emb_set [of "(=)" "luids t'" "luids t"] by blast
  ultimately show ?thesis by (auto simp: no_more_rights_def same_identity_def token_sid_present_def)
next
  case (disabled prev prev')
  then show ?thesis by (auto simp: no_more_rights_def token_disable_privileges_def Let_def token_sid_present_def)
next
  case (duplicated mem_ok prev prim level remove_privs remove_groups prev')
  note d = token_duplicate_Inr [OF duplicated]
  have "token_sid_present t s False" if "token_sid_present t' s False" for s
    using duplicate_present [OF d(2,3) that] by (auto simp: token_sid_present_def)
  then show ?thesis using d by (auto simp: no_more_rights_def)
qed

interpretation derivations: step_invariant derived "no_more_rights t" for t
proof
  fix t1 t2
  assume "derived t1 t2" and "no_more_rights t t1"
  then have "no_more_rights t t1" and "no_more_rights t1 t2" by (simp_all add: derived_step)
  then show "no_more_rights t t2" unfolding no_more_rights_def by (blast intro: trans)
qed

text \<open>C33. Derived tokens never gain rights: whatever sequence of adjusting, disabling, duplicating and filtering
  leads from one token to another, the privileges of the result are among those of the original, the
  user and the session are the same, and every SID that the result can use to be allowed access could
  already be used with the original.\<close>

theorem derived_tokens_gain_nothing:
  assumes "derived\<^sup>*\<^sup>* t t'"
  shows "set (luids t') \<subseteq> set (luids t) \<and> tk_user t' = tk_user t \<and> session_id t' = session_id t \<and>
    (\<forall>s. token_sid_present t' s False \<longrightarrow> token_sid_present t s False)"
  using derivations.steps_keep [OF assms, of t] by (simp add: no_more_rights_def)

theorem derived_tokens_gain_nothing_witness:
  "set (luids (snd (token_disable_privileges (1002, 0) ex_token))) \<subseteq> {(8, 0), (23, 0)}"
proof -
  have "derived ex_token (snd (token_disable_privileges (1002, 0) ex_token))"
    by (rule derived.disabled [of "(1002, 0)" _ "(1003, 0)"]) (simp add: token_disable_privileges_def allocate_luid_def Let_def)
  then have "derived\<^sup>*\<^sup>* ex_token (snd (token_disable_privileges (1002, 0) ex_token))" by simp
  from derived_tokens_gain_nothing [OF this] show ?thesis by (simp add: ex_token_def)
qed

text \<open>C34. Filtering a token can widen its access: a group that \<^verbatim>\<open>token_duplicate\<close> turns into a deny-only one also
  loses its enabled flag, and \<^verbatim>\<open>token_sid_present\<close> skips groups that are not enabled even when it looks
  for SIDs to deny. So an entry that denies access to a group has no effect on a token in which that
  group was filtered.\<close>

theorem deny_only_groups_ignored:
  assumes dup: "token_duplicate mem_ok prev t prim level remove_privs remove_groups = Some (prev', Inr t')"
    and user: "\<not> equal_sid (tk_user t) s" and only: "\<And>g. g \<in> set (groups t) \<Longrightarrow> equal_sid (gr_sid g) s \<Longrightarrow> filter_group g remove_groups"
  shows "\<not> token_sid_present t' s True \<and> (\<forall>a k mapping. ace_sid a = s \<longrightarrow> \<not> denies t' mapping k a)"
proof -
  have "\<not> token_sid_present t' s True"
    using duplicate_present [OF token_duplicate_Inr(2,3) [OF dup], of s True] user only by blast
  then show ?thesis by (auto simp: denies_def)
qed

theorem deny_only_groups_ignored_witness:
  "case token_duplicate True (1002, 0) ex_token True 0 [] [ex_world] of
     Some (_, Inr t') \<Rightarrow>
       (let sd = ex_secdesc [ex_ace 1 2 ex_world, ex_ace 0 2 ex_user]
        in ar_granted (token_access_check ex_token sd 2 None ex_map) = 0 \<and> ar_granted (token_access_check t' sd 2 None ex_map) = 2 \<and>
           \<not> token_sid_present t' ex_world True)
   | _ \<Rightarrow> False"
proof -
  obtain p' t' where d: "token_duplicate True (1002, 0) ex_token True 0 [] [ex_world] = Some (p', Inr t')"
    by (simp add: token_duplicate_def create_token_def ex_token_def Let_def)
  have "\<not> token_sid_present t' ex_world True \<and> (\<forall>a k mapping. ace_sid a = ex_world \<longrightarrow> \<not> denies t' mapping k a)"
    by (rule deny_only_groups_ignored [OF d])
      (simp_all add: ex_token_def equal_sid_def ex_user_def ex_world_def filter_group_def)
  moreover have "ar_granted (token_access_check ex_token (ex_secdesc [ex_ace 1 2 ex_world, ex_ace 0 2 ex_user]) 2 None ex_map) = 0"
    by (simp add: token_access_check_def ex_secdesc_def check_owner_dacl_def ex_ace_def map_access_def finish_check_def)
  moreover have "tk_user t' = ex_user" "groups t' = [duplicate_group [ex_world] \<lparr>gr_attrs = 7, gr_sid = ex_world\<rparr>]"
    using token_duplicate_Inr(2,3) [OF d] by (simp_all add: ex_token_def)
  then have "token_sid_present t' ex_user False" "\<not> token_sid_present t' ex_other False"
    by (simp_all add: token_sid_present_def equal_sid_def ex_user_def ex_other_def ex_world_def duplicate_group_def filter_group_def)
  ultimately have "\<not> token_sid_present t' ex_world True"
    "ar_granted (token_access_check t' (ex_secdesc [ex_ace 1 2 ex_world, ex_ace 0 2 ex_user]) 2 None ex_map) = 2"
    "ar_granted (token_access_check ex_token (ex_secdesc [ex_ace 1 2 ex_world, ex_ace 0 2 ex_user]) 2 None ex_map) = 0"
    by (simp_all add: token_access_check_def ex_secdesc_def check_owner_dacl_def ex_ace_def map_access_def finish_check_def)
  then show ?thesis using d by simp
qed

section \<open>Lists that the server builds\<close>

definition sid_ok :: "sid \<Rightarrow> bool" where
  "sid_ok s \<longleftrightarrow> 8 \<le> length s \<and> length s = 8 + 4 * unat (s ! 1)"

lemma sid_ok_length: "sid_ok s \<Longrightarrow> 8 \<le> length s \<and> length s \<le> 1028"
  using unat_u8 [of "s ! 1"] by (simp add: sid_ok_def)

lemma rd16_wr16_at: "n < 65536 \<Longrightarrow> rd16 (pre @ wr16 n @ post) (length pre) = Some n"
  using rd16_append [of pre "wr16 n @ post" 0] rd16_wr16 by simp

lemma unat_u32: "unat (w :: u32) < 2 ^ 32"
proof -
  have "unat w < 2 ^ LENGTH(32)" by (rule unsigned_less)
  then show ?thesis by simp
qed

lemma rd16_wr16_pos: "length pre = q \<Longrightarrow> n < 65536 \<Longrightarrow> rd16 (pre @ wr16 n @ post) q = Some n"
  using rd16_wr16_at by blast

lemma nat_bytes:
  assumes "n < (2 :: nat) ^ 32"
  shows "n mod 256 + 256 * (n div 2 ^ 8 mod 256) + 65536 * (n div 2 ^ 16 mod 256 + 256 * (n div 2 ^ 24 mod 256)) = n"
proof -
  have d: "n div 2 ^ 16 = n div 256 div 256" "n div 2 ^ 24 = n div 256 div 256 div 256" "n div 2 ^ 8 = n div 256"
    by (simp_all add: div_mult2_eq [symmetric])
  define a b c where "a = n div 256" and "b = a div 256" and "c = b div 256"
  have "c < 256" using assms by (simp add: a_def b_def c_def div_mult2_eq [symmetric])
  moreover have "n = 256 * a + n mod 256" "a = 256 * b + a mod 256" "b = 256 * c + b mod 256"
    unfolding a_def b_def c_def by (simp_all only: mult_div_mod_eq)
  ultimately show ?thesis unfolding d a_def [symmetric] b_def [symmetric] c_def [symmetric] by simp
qed

lemma unat_byte: "unat (ucast (drop_bit k w) :: u8) = unat (w :: u32) div 2 ^ k mod 256"
proof -
  have "unat (ucast (drop_bit k w) :: u8) = unat (drop_bit k w) mod 2 ^ 8" by (simp add: unsigned_ucast_eq take_bit_eq_mod)
  moreover have "unat (drop_bit k w) = unat w div 2 ^ k"
    unfolding unsigned_drop_bit_eq unfolding drop_bit_eq_div using unat_u32 [of w] by (simp add: take_bit_nat_eq_self)
  ultimately show ?thesis by simp
qed

lemma wr32_len: "length (wr32 w) = 4" by (simp add: wr32_def)

lemma wr16_len: "length (wr16 n) = 2" by (simp add: wr16_def)

lemma rd32_wr32_at: "rd32 (pre @ wr32 w @ post) (length pre) = Some (unat w)"
proof -
  let ?n = "unat w"
  note lt = unat_u32 [of w]
  have b0: "unat (ucast w :: u8) = ?n mod 256" using unat_byte [of 0 w] by simp
  have "rd32 (pre @ wr32 w @ post) (length pre) = rd32 (wr32 w @ post) 0"
    using rd16_append [of pre "wr32 w @ post" 0] rd16_append [of pre "wr32 w @ post" 2] by (simp add: rd32_def numeral_2_eq_2)
  also have "\<dots> = Some (?n mod 256 + 256 * (?n div 2 ^ 8 mod 256) + 65536 * (?n div 2 ^ 16 mod 256 + 256 * (?n div 2 ^ 24 mod 256)))"
    unfolding rd32_def rd16_def rd8_def wr32_def using b0 unat_byte [of 8 w] unat_byte [of 16 w] unat_byte [of 24 w] by simp
  also have "\<dots> = Some ?n" by (simp only: nat_bytes [OF lt])
  finally show ?thesis .
qed

lemma rd32_wr32_pos: "length pre = q \<Longrightarrow> rd32 (pre @ wr32 w @ post) q = Some (unat w)"
  using rd32_wr32_at by blast

lemma aces_valid_set_ace:
  assumes s: "sid_ok s" and ty: "ty \<in> {0, 1, 2, 3, 0x11}" and sz: "8 + length s \<le> sz"
  shows "aces_valid (pre @ set_ace s ty fl mk @ post) (Suc n) (length pre) sz =
    aces_valid (pre @ set_ace s ty fl mk @ post) n (length pre + (8 + length s)) (sz - (8 + length s))"
proof -
  let ?m = "pre @ set_ace s ty fl mk @ post"
  note len = sid_ok_length [OF s]
  have size: "rd16 ?m (length pre + 2) = Some (8 + length s)"
    using rd16_wr16_at [of "8 + length s" "pre @ [ty, fl]" "wr32 mk @ s @ post"] len by (simp add: set_ace_def)
  have t: "rd8 ?m (length pre) = Some ty" using rd8_append(1) [of pre "set_ace s ty fl mk @ post" 0] by (simp add: set_ace_def)
  let ?hd = "pre @ [ty, fl] @ wr16 (8 + length s) @ wr32 mk"
  have "length ?hd = length pre + 8" by (simp add: wr16_def wr32_def)
  then have "rd8 ?m (length pre + 8 + 1) = rd8 (s @ post) 1"
    using rd8_append(1) [of ?hd "s @ post" 1] by (simp add: set_ace_def)
  moreover have "rd8 (s @ post) 1 = Some (s ! 1)" using len by (simp add: rd8_def nth_append)
  ultimately have "sid_valid_size ?m (length pre + 8) (length s) = Some True"
    using s len by (simp only: sid_valid_size_def sid_len_def) (simp add: sid_ok_def)
  moreover have "unat (word_of_nat (8 + length s) - 8 :: u32) = length s" using ace_sid_size [of "8 + length s"] len by simp
  ultimately show ?thesis using size t ty sz len by (auto simp: add.assoc)
qed

text \<open>The server's own lists pass its own validation: the default discretionary list that
  \<^verbatim>\<open>create_default_dacl\<close> builds for a user is valid, and the assertion in \<^verbatim>\<open>create_security_label_sd\<close>
  never fails, for every SID of any length.\<close>

theorem built_lists_valid:
  assumes s: "sid_ok s"
  shows "acl_is_valid (create_default_dacl s) 0 (length (create_default_dacl s)) = Some True \<and>
    sd_is_valid (create_security_label_sd s) 0 (length (create_security_label_sd s)) = Some True"
proof
  note len = sid_ok_length [OF s]
  let ?l = local_system_sid
  have l: "sid_ok ?l" "length ?l = 12" by (simp_all add: sid_ok_def local_system_sid_def wr32_def)
  let ?a = "set_ace ?l ACCESS_ALLOWED_ACE_TYPE 0 0x10000000" and ?b = "set_ace s ACCESS_ALLOWED_ACE_TYPE 0 0x10000000"
  let ?h = "[2, 0] @ wr16 (8 + 2 * 8 + length ?l + length s) @ wr16 2 @ [0, 0]"
  have d: "create_default_dacl s = ?h @ ?a @ ?b" by (simp add: create_default_dacl_def)
  have hl: "length ?h = 8" "length ?a = 20" "length ?b = 8 + length s" using l by (simp_all add: wr16_def set_ace_def wr32_def)
  have "rd16 (create_default_dacl s) 4 = Some 2"
    using rd16_wr16_pos [of "[2, 0] @ wr16 (8 + 2 * 8 + length ?l + length s)" 4 2 "[0, 0] @ ?a @ ?b"]
    by (simp add: create_default_dacl_def wr16_len)
  moreover have "aces_valid (create_default_dacl s) (Suc (Suc 0)) 8 (28 + length s) = Some True"
    unfolding d
  proof -
    have "aces_valid (?h @ ?a @ ?b) (Suc (Suc 0)) (length ?h) (28 + length s) =
        aces_valid (?h @ ?a @ ?b) (Suc 0) (length ?h + (8 + length ?l)) (28 + length s - (8 + length ?l))"
      by (rule aces_valid_set_ace) (use l in simp_all)
    also have "\<dots> = aces_valid ((?h @ ?a) @ ?b @ []) (Suc 0) (length (?h @ ?a)) (8 + length s)" using l hl by (simp del: aces_valid.simps(2))
    also have "\<dots> = aces_valid ((?h @ ?a) @ ?b @ []) 0 (length (?h @ ?a) + (8 + length s)) (8 + length s - (8 + length s))"
      by (rule aces_valid_set_ace) (use s in simp_all)
    finally show "aces_valid (?h @ ?a @ ?b) (Suc (Suc 0)) 8 (28 + length s) = Some True" using hl by (simp del: aces_valid.simps(2))
  qed
  moreover have "length (create_default_dacl s) = 36 + length s" unfolding d using hl by simp
  ultimately show "acl_is_valid (create_default_dacl s) 0 (length (create_default_dacl s)) = Some True"
    using len unfolding acl_is_valid_def by (simp add: numeral_2_eq_2 del: aces_valid.simps(2))
next
  note len = sid_ok_length [OF s]
  let ?n = "16 + length s" and ?m = "create_security_label_sd s"
  let ?a = "set_ace s SYSTEM_MANDATORY_LABEL_ACE_TYPE 0 1"
  let ?acl = "[2, 0] @ wr16 ?n @ wr16 1 @ [0, 0] @ ?a"
  let ?w = "word_of_nat ?n :: u32"
  have w: "unat ?w = ?n" using len by (simp only: unsigned_of_nat) (simp add: take_bit_nat_eq_self)
  have m: "?m = wr32 SE_SACL_PRESENT @ wr32 0 @ wr32 0 @ wr32 ?w @ wr32 0 @ ?acl" by (simp add: create_security_label_sd_def)
  have h: "rd32 ?m 0 = Some 16" "rd32 ?m 4 = Some 0" "rd32 ?m 8 = Some 0" "rd32 ?m 12 = Some ?n" "rd32 ?m 16 = Some 0"
    using rd32_wr32_pos [of "[]" 0 SE_SACL_PRESENT] rd32_wr32_pos [of "wr32 SE_SACL_PRESENT" 4 0]
      rd32_wr32_pos [of "wr32 SE_SACL_PRESENT @ wr32 0" 8 0] rd32_wr32_pos [of "wr32 SE_SACL_PRESENT @ wr32 0 @ wr32 0" 12 ?w]
      rd32_wr32_pos [of "wr32 SE_SACL_PRESENT @ wr32 0 @ wr32 0 @ wr32 ?w" 16 0] w
    unfolding m by (simp_all add: wr32_len)
  let ?hd = "wr32 SE_SACL_PRESENT @ wr32 0 @ wr32 0 @ wr32 ?w @ wr32 0"
  have cnt: "rd16 ?m 24 = Some 1"
    using rd16_wr16_pos [of "?hd @ [2, 0] @ wr16 ?n" 24 1 "[0, 0] @ ?a"] unfolding m by (simp add: wr32_len wr16_len)
  have "aces_valid ?m (Suc 0) 28 (8 + length s) = Some True"
    using aces_valid_set_ace [of s SYSTEM_MANDATORY_LABEL_ACE_TYPE "8 + length s" "?hd @ [2, 0] @ wr16 ?n @ wr16 1 @ [0, 0]" 0 1 "[]" 0] s
    unfolding m by (simp add: wr32_len wr16_len del: aces_valid.simps(2))
  then have acl: "acl_is_valid ?m 20 ?n = Some True" using cnt len by (simp add: acl_is_valid_def)
  have "length ?m = 36 + length s" unfolding m by (simp add: wr32_len wr16_len set_ace_def)
  then show "sd_is_valid ?m 0 (length ?m) = Some True"
    using h acl len by (simp add: sd_is_valid_def read_sd_header_def sd_parts part_valid_def)
qed

theorem built_lists_valid_witness: "acl_is_valid (create_default_dacl ex_user) 0 (length (create_default_dacl ex_user)) = Some True"
  using built_lists_valid [of ex_user] by (simp add: sid_ok_def ex_user_def)

text \<open>The size field of a default list is never checked: \<^verbatim>\<open>set_token_default_dacl\<close> validates a list against
  the size of the request but keeps whatever its header says, and \<^verbatim>\<open>get_token_default_dacl\<close> copies as
  many bytes as the header says. A list that claims to be longer than it is is accepted, and the next
  query reads past the end of the copy.\<close>

theorem default_dacl_overread:
  assumes valid: "acl_is_valid acl 0 (length acl) = Some True" and claim: "rd16 acl 2 = Some n" "length acl < n" "n \<le> reply_max"
  shows "\<exists>t'. req_set_token_default_dacl True acl t = Some (t', STATUS_SUCCESS) \<and> req_get_token_default_dacl reply_max t' = None"
proof -
  have "acl \<noteq> []" using valid by (auto simp: acl_is_valid_def)
  then have "req_set_token_default_dacl True acl t = Some (t\<lparr>default_dacl := Some acl\<rparr>, STATUS_SUCCESS)"
    using valid by (simp add: req_set_token_default_dacl_def)
  moreover have "req_get_token_default_dacl reply_max (t\<lparr>default_dacl := Some acl\<rparr>) = None"
    using claim by (simp add: req_get_token_default_dacl_def)
  ultimately show ?thesis by blast
qed

theorem default_dacl_overread_witness:
  "\<exists>t'. req_set_token_default_dacl True [2, 0, 0, 1, 0, 0, 0, 0] ex_token = Some (t', STATUS_SUCCESS) \<and> req_get_token_default_dacl 512 t' = None"
  by (rule default_dacl_overread [of _ 256]) (simp_all add: acl_is_valid_def rd16_def)

end
