(* ===== verification/Handle_Access.thy ===== *)
theory Handle_Access
  imports Handle_Properties Token_Rights
begin

text \<open>
  Handles and tokens together: \<^verbatim>\<open>alloc_handle\<close> opens an object for a client after \<^verbatim>\<open>check_object_access\<close>
  has checked the token of the client against the security descriptor of the object. The environment of
  the handle code is instantiated with the access check of the tokens, and the rights of a handle that
  is opened this way are compared with the entries of the list.
\<close>

section \<open>The environment\<close>

definition object_mapping :: "handle_env \<Rightarrow> oid \<Rightarrow> generic_map" where
  "object_mapping env ob =
     (map_access_op env ob 0x80000000, map_access_op env ob 0x40000000, map_access_op env ob 0x20000000, map_access_op env ob 0x10000000)"

definition token_env ::
    "handle_env \<Rightarrow> token \<Rightarrow> (oid \<Rightarrow> token) \<Rightarrow> (oid \<Rightarrow> secdesc option) \<Rightarrow> handle_env" where
  "token_env env current token_of sd_of =
     env\<lparr>check_access_op := (\<lambda>tok ob access.
       check_object_access current (map_option token_of tok) (map_access_op env ob) (sd_of ob) access)\<rparr>"

lemma token_env_simps [simp]:
  "map_access_op (token_env env current token_of sd_of) = map_access_op env"
  "check_access_op (token_env env current token_of sd_of) tok ob access =
     check_object_access current (map_option token_of tok) (map_access_op env ob) (sd_of ob) access"
  by (simp_all add: token_env_def)

section \<open>Rights that entries can grant\<close>

lemma dacl_allows_some: "dacl_allows token mapping k dacl \<Longrightarrow> \<exists>a \<in> set dacl. allows token mapping k a"
  by (induction dacl) (auto split: if_splits)

lemma granted_bits:
  assumes ok: "ar_ret (token_access_check token sd desired None mapping) = STATUS_SUCCESS"
      "ar_status (token_access_check token sd desired None mapping) = Some STATUS_SUCCESS"
    and sd: "sec_owner sd = Some owner" "sec_dacl_present sd" "sec_dacl sd = Some dacl"
    and k: "bit (ar_granted (token_access_check token sd desired None mapping)) k"
  shows "bit (implied_access token owner desired) k \<or> (\<exists>a \<in> set dacl. allows token mapping k a)"
proof -
  note pre = access_check_success [OF ok sd]
  have room: "None \<noteq> Some (0 :: nat)" by simp
  from access_check_dacl [OF pre(1) sd(1) pre(2) sd(2,3) room pre(3), of mapping] show ?thesis
  proof (elim disjE exE)
    assume "ar_granted (token_access_check token sd desired None mapping) = desired \<and>
      ar_status (token_access_check token sd desired None mapping) = Some STATUS_SUCCESS \<and>
      (desired = ACCESS_SYSTEM_SECURITY \<or> desired = implied_access token owner desired)"
    then show ?thesis using implied_quick k by metis
  next
    fix privs n assume full: "token_access_check token sd desired None mapping =
      finish_check desired privs n (dacl_loop token mapping desired dacl (implied_access token owner desired) 0)"
    obtain c d where l: "dacl_loop token mapping desired dacl (implied_access token owner desired) 0 = (c, d)" by fastforce
    show ?thesis
    proof (cases "desired AND TOKEN_MAXIMUM_ALLOWED = 0")
      case True
      note st = ok(2) [unfolded full l]
      have "bit c k" using finish_check_success [OF True] st k unfolding full l by (metis and_eq_bits)
      then show ?thesis using dacl_loop_sound [OF True l] dacl_allows_some by blast
    next
      case False
      then have "ar_granted (finish_check desired privs n (c, d)) = c AND NOT d" by (simp add: finish_check_def Let_def)
      then show ?thesis using k dacl_loop_maximum [OF False l, of k] unfolding full l by (simp add: bit_and_iff)
    qed
  qed
qed

lemma reserved_bits: "w AND RESERVED_ALL = 0 \<longleftrightarrow> \<not> bit w 26 \<and> \<not> bit (w :: u32) 27"
proof -
  have "(RESERVED_ALL :: u32) = 2 ^ 26 OR 2 ^ 27" by simp
  then have r: "bit (RESERVED_ALL :: u32) k \<longleftrightarrow> k = 26 \<or> k = 27" for k
    by (auto simp only: bit_or_iff bit_exp_iff) simp_all
  have "x = 0" if "\<And>k. \<not> bit x k" for x :: u32 by (rule bit_eqI) (simp add: that)
  then have "w AND RESERVED_ALL = 0 \<longleftrightarrow> (\<forall>k. \<not> bit (w AND RESERVED_ALL) k)" by (metis bit_0_eq bot_apply bot_bool_def)
  then show ?thesis unfolding bit_and_iff r by blast
qed

lemma implied_no_reserved: "k = 26 \<or> k = 27 \<Longrightarrow> \<not> bit (implied_access token owner desired) k"
  by (auto simp: implied_access_def bit_or_iff)

lemma granted_no_reserved:
  assumes "ar_ret (token_access_check token sd desired None mapping) = STATUS_SUCCESS"
      "ar_status (token_access_check token sd desired None mapping) = Some STATUS_SUCCESS"
    and "sec_owner sd = Some owner" "sec_dacl_present sd" "sec_dacl sd = Some dacl"
    and entries: "\<And>a. a \<in> set dacl \<Longrightarrow> map_access (ace_mask a) mapping AND RESERVED_ALL = 0"
  shows "ar_granted (token_access_check token sd desired None mapping) AND RESERVED_ALL = 0"
proof -
  have "\<not> allows token mapping k a" if "a \<in> set dacl" "k = 26 \<or> k = 27" for a k
    using entries [OF that(1)] that(2) by (auto simp: allows_def reserved_bits)
  then show ?thesis
    using granted_bits [OF assms(1-5), of 26] granted_bits [OF assms(1-5), of 27]
      implied_no_reserved [of 26 token owner desired] implied_no_reserved [of 27 token owner desired]
    unfolding reserved_bits by blast
qed

section \<open>Opening an object\<close>

lemma check_object_access_success:
  "check_object_access current None map_op (Some sd) access = Inr granted \<Longrightarrow>
   mapping = (map_op 0x80000000, map_op 0x40000000, map_op 0x20000000, map_op 0x10000000) \<Longrightarrow>
   ar_ret (token_access_check current sd access None mapping) = STATUS_SUCCESS \<and>
   ar_status (token_access_check current sd access None mapping) = Some STATUS_SUCCESS \<and>
   granted = ar_granted (token_access_check current sd access None mapping)"
  by (simp add: check_object_access_def Let_def split: if_splits)

lemma reserved_inherit_clear:
  assumes "g AND RESERVED_ALL = 0"
  shows "(if attr AND OBJ_INHERIT \<noteq> 0 then g OR RESERVED_INHERIT else g) AND NOT RESERVED_ALL = (g :: u32)"
proof -
  have "g = (g AND RESERVED_ALL) OR (g AND NOT RESERVED_ALL)"
    by (simp only: bit.conj_disj_distrib [symmetric] bit.disj_cancel_right bit.conj_one_right)
  then have g: "g AND NOT RESERVED_ALL = g" unfolding assms by (simp only: or.left_neutral)
  then show ?thesis using reserved_inherit_hidden [of g] unfolding g by (simp only: g split: if_split) blast
qed


text \<open>Without that condition a client can bring down the server: nothing stops a client from putting
  a reserved bit into the access mask of an entry of its own object, and opening the object with
  \<^verbatim>\<open>MAXIMUM_ALLOWED\<close> then grants that bit, which trips the assertion in \<^verbatim>\<open>alloc_handle_entry\<close>.\<close>

theorem reserved_entry_asserts:
  assumes sd: "sd_of ob = Some sd" "sec_owner sd = Some owner" "sec_group sd \<noteq> None" "sec_dacl_present sd" "sec_dacl sd = Some dacl"
    and acc: "map_access_op env ob access AND NOT RESERVED_ALL = TOKEN_MAXIMUM_ALLOWED"
    and a: "a \<in> set dacl" "allows current (object_mapping env ob) k a" "k = 26 \<or> k = 27"
    and nodeny: "\<And>b. b \<in> set dacl \<Longrightarrow> \<not> denies current (object_mapping env ob) k b"
  shows "failed (fst (alloc_handle (token_env env current token_of sd_of) mem_ok p ob access attr s))"
proof -
  let ?R = "token_access_check current sd TOKEN_MAXIMUM_ALLOWED None (object_mapping env ob)"
  have "?R = check_owner_dacl current owner dacl TOKEN_MAXIMUM_ALLOWED (object_mapping env ob) [] 0 0"
    using sd by (auto simp: token_access_check_def)
  also have "\<dots> = finish_check TOKEN_MAXIMUM_ALLOWED [] 0 (dacl_loop current (object_mapping env ob) TOKEN_MAXIMUM_ALLOWED dacl
      (implied_access current owner TOKEN_MAXIMUM_ALLOWED) 0)"
    by (simp add: check_owner_dacl_def implied_access_def Let_def)
  finally have R: "?R = \<dots>" .
  obtain c d where l: "dacl_loop current (object_mapping env ob) TOKEN_MAXIMUM_ALLOWED dacl (implied_access current owner TOKEN_MAXIMUM_ALLOWED) 0 = (c, d)"
    by fastforce
  have max: "TOKEN_MAXIMUM_ALLOWED AND TOKEN_MAXIMUM_ALLOWED \<noteq> 0" by simp
  have "bit c k" "\<not> bit d k" using dacl_loop_maximum [OF max l, of k] a nodeny by auto
  then have b: "bit (c AND NOT d) k" using bit_u32 [of c k] by (simp add: bit_and_iff bit_not_iff)
  then have nz: "c AND NOT d \<noteq> 0" by (metis bit_0_eq bot_apply bot_bool_def)
  have "(c AND NOT d) AND RESERVED_ALL \<noteq> 0" using b a(3) unfolding reserved_bits by blast
  moreover have "ar_granted ?R = c AND NOT d" "ar_status ?R = Some STATUS_SUCCESS" "ar_ret ?R = STATUS_SUCCESS"
    unfolding R l using nz by (simp_all add: finish_check_def Let_def)
  ultimately show ?thesis
    unfolding alloc_handle_def Let_def token_env_simps sd(1) acc check_object_access_def object_mapping_def [symmetric]
    by (simp add: alloc_handle_entry_def fail_def)
qed

section \<open>Examples\<close>

definition ex_token_env :: "ace list \<Rightarrow> handle_env" where
  "ex_token_env dacl = token_env ex_env ex_token (\<lambda>_. ex_token) (\<lambda>_. Some (ex_secdesc dacl))"


theorem reserved_entry_asserts_witness:
  "failed (fst (alloc_handle (ex_token_env [ex_ace 0 RESERVED_INHERIT ex_world]) True 0 2 MAXIMUM_ALLOWED 0 ex_server))"
  unfolding ex_token_env_def
  by (rule reserved_entry_asserts [where a = "ex_ace 0 RESERVED_INHERIT ex_world" and dacl = "[ex_ace 0 RESERVED_INHERIT ex_world]" and
        owner = ex_other and k = 26 and sd = "ex_secdesc [ex_ace 0 RESERVED_INHERIT ex_world]"])
    (simp_all add: ex_secdesc_def ex_ace_def object_mapping_def ex_env_def allows_def denies_def map_access_def)

end
