(* ===== verification/Sync.thy ===== *)
theory Sync
  imports Objects
begin

text \<open>
  Synchronization objects and waits (\<^verbatim>\<open>server/event.c\<close>, \<^verbatim>\<open>server/semaphore.c\<close>, \<^verbatim>\<open>server/mutex.c\<close> and the wait
  functions of \<^verbatim>\<open>server/thread.c\<close>). An event, semaphore or mutex object and the sync object behind it are
  one object here. A thread has a stack of waits, innermost first; an entry of the wait queue of an object
  is the thread, the identity of one of its waits and an index into the objects of that wait.

  Writes to the pipe that wakes a client succeed and are recorded in \<open>wakeups\<close>. A failed assertion sets
  \<open>sync_failed\<close>. References to the objects are counted by the handle layer. Keyed events and
  the synchronization device of the kernel are left out.
\<close>

section \<open>State\<close>

type_synonym tid = nat

record event_sync =
  ev_manual :: bool
  ev_signaled :: bool

record semaphore_sync =
  sem_count :: u32
  sem_max :: u32

record mutex_sync =
  mx_owner :: "tid option"
  mx_count :: u32
  mx_abandoned :: bool

datatype sync = Event_Sync event_sync | Semaphore_Sync semaphore_sync | Mutex_Sync mutex_sync

datatype select_opcode = SELECT_NONE | SELECT_WAIT | SELECT_WAIT_ALL | SELECT_SIGNAL_AND_WAIT

record thread_wait =
  tw_id :: nat
  tw_flags :: u32
  tw_abandoned :: bool
  tw_select :: select_opcode
  tw_cookie :: u64
  tw_when :: int
  tw_user :: bool
  tw_queues :: "oid list"

record thread_context =
  cx_cooperative :: bool
  cx_native_flags :: u32
  cx_wow_flags :: u32

record thread =
  th_waits :: "thread_wait list"
  th_mutex_list :: "oid list"
  th_system_apc :: nat
  th_user_apc :: nat
  th_context :: "thread_context option"
  th_suspend_cookie :: u64
  th_suspend :: int
  th_bypass_proc_suspend :: bool
  th_process_suspend :: int

type_synonym wait_queue_entry = "tid \<times> nat \<times> nat"

record sync_state =
  syncs :: "oid \<Rightarrow> sync"
  wait_queue :: "oid \<Rightarrow> wait_queue_entry list"
  threads :: "tid \<Rightarrow> thread"
  current_time :: int
  monotonic_time :: int
  next_wait :: nat
  wakeups :: "(tid \<times> u64 \<times> status) list"
  sync_failed :: bool

abbreviation SELECT_ALERTABLE :: u32 where "SELECT_ALERTABLE \<equiv> 1"
abbreviation SELECT_INTERRUPTIBLE :: u32 where "SELECT_INTERRUPTIBLE \<equiv> 2"
abbreviation SELECT_COOPERATIVE_SUSPEND :: u32 where "SELECT_COOPERATIVE_SUSPEND \<equiv> 4"
abbreviation MAXIMUM_WAIT_OBJECTS :: nat where "MAXIMUM_WAIT_OBJECTS \<equiv> 64"
abbreviation TIMEOUT_INFINITE :: int where "TIMEOUT_INFINITE \<equiv> 0x7fffffffffffffff"
abbreviation "STATUS_THREAD_IS_TERMINATING \<equiv> (0xC000004B :: status)"
abbreviation EVENT_MODIFY_STATE :: u32 where "EVENT_MODIFY_STATE \<equiv> 2"
abbreviation SEMAPHORE_MODIFY_STATE :: u32 where "SEMAPHORE_MODIFY_STATE \<equiv> 2"
abbreviation SYNC_SYNCHRONIZE :: u32 where "SYNC_SYNCHRONIZE \<equiv> 0x00100000"

definition upd_thread :: "tid \<Rightarrow> (thread \<Rightarrow> thread) \<Rightarrow> sync_state \<Rightarrow> sync_state" where
  "upd_thread t f s = s\<lparr>threads := (threads s)(t := f (threads s t))\<rparr>"

definition set_sync :: "oid \<Rightarrow> sync \<Rightarrow> sync_state \<Rightarrow> sync_state" where
  "set_sync ob y s = s\<lparr>syncs := (syncs s)(ob := y)\<rparr>"

definition sync_fail :: "sync_state \<Rightarrow> sync_state" where
  "sync_fail s = s\<lparr>sync_failed := True\<rparr>"

section \<open>Signaled objects\<close>

definition event_sync_signaled :: "event_sync \<Rightarrow> bool" where
  "event_sync_signaled event = ev_signaled event"

definition semaphore_sync_signaled :: "semaphore_sync \<Rightarrow> bool" where
  "semaphore_sync_signaled sem \<longleftrightarrow> sem_count sem > 0"

definition mutex_sync_signaled :: "mutex_sync \<Rightarrow> tid \<Rightarrow> bool" where
  "mutex_sync_signaled mutex t \<longleftrightarrow> mx_count mutex = 0 \<or> mx_owner mutex = Some t"

definition object_sync_signaled :: "sync_state \<Rightarrow> tid \<Rightarrow> oid \<Rightarrow> bool" where
  "object_sync_signaled s t ob =
     (case syncs s ob of
        Event_Sync event \<Rightarrow> event_sync_signaled event
      | Semaphore_Sync sem \<Rightarrow> semaphore_sync_signaled sem
      | Mutex_Sync mutex \<Rightarrow> mutex_sync_signaled mutex t)"

section \<open>Satisfied waits\<close>

definition event_sync_satisfied :: "event_sync \<Rightarrow> event_sync" where
  "event_sync_satisfied event = (if \<not> ev_manual event then event\<lparr>ev_signaled := False\<rparr> else event)"

definition semaphore_sync_satisfied :: "oid \<Rightarrow> semaphore_sync \<Rightarrow> sync_state \<Rightarrow> sync_state" where
  "semaphore_sync_satisfied ob sem s =
     (if sem_count sem = 0 then sync_fail s
      else set_sync ob (Semaphore_Sync (sem\<lparr>sem_count := sem_count sem - 1\<rparr>)) s)"

definition do_grab :: "oid \<Rightarrow> mutex_sync \<Rightarrow> tid \<Rightarrow> sync_state \<Rightarrow> mutex_sync \<times> sync_state" where
  "do_grab ob mutex t s =
     (if mx_count mutex \<noteq> 0 \<and> mx_owner mutex \<noteq> Some t then (mutex, sync_fail s)
      else let mutex' = mutex\<lparr>mx_count := mx_count mutex + 1\<rparr>
           in if mx_count mutex = 0
              then if mx_owner mutex \<noteq> None then (mutex', sync_fail s)
                   else (mutex'\<lparr>mx_owner := Some t\<rparr>, upd_thread t (\<lambda>th. th\<lparr>th_mutex_list := ob # th_mutex_list th\<rparr>) s)
              else (mutex', s))"

text \<open>Whether the wait is to be reported as abandoned is threaded along.\<close>

definition mutex_sync_satisfied :: "oid \<Rightarrow> mutex_sync \<Rightarrow> tid \<Rightarrow> sync_state \<times> bool \<Rightarrow> sync_state \<times> bool" where
  "mutex_sync_satisfied ob mutex t = (\<lambda>(s, wait_abandoned).
     case do_grab ob mutex t s of
       (mutex', s') \<Rightarrow> (set_sync ob (Mutex_Sync (mutex'\<lparr>mx_abandoned := False\<rparr>)) s', wait_abandoned \<or> mx_abandoned mutex'))"

definition object_sync_satisfied :: "tid \<Rightarrow> oid \<Rightarrow> sync_state \<times> bool \<Rightarrow> sync_state \<times> bool" where
  "object_sync_satisfied t ob = (\<lambda>(s, wait_abandoned).
     case syncs s ob of
       Event_Sync event \<Rightarrow> (set_sync ob (Event_Sync (event_sync_satisfied event)) s, wait_abandoned)
     | Semaphore_Sync sem \<Rightarrow> (semaphore_sync_satisfied ob sem s, wait_abandoned)
     | Mutex_Sync mutex \<Rightarrow> mutex_sync_satisfied ob mutex t (s, wait_abandoned))"

section \<open>Waiting\<close>

definition add_queue :: "oid \<Rightarrow> wait_queue_entry \<Rightarrow> sync_state \<Rightarrow> sync_state" where
  "add_queue ob entry s = s\<lparr>wait_queue := (wait_queue s)(ob := wait_queue s ob @ [entry])\<rparr>"

definition remove_queue :: "oid \<Rightarrow> wait_queue_entry \<Rightarrow> sync_state \<Rightarrow> sync_state" where
  "remove_queue ob entry s = s\<lparr>wait_queue := (wait_queue s)(ob := filter (\<lambda>e. e \<noteq> entry) (wait_queue s ob))\<rparr>"

definition is_thread_suspended :: "thread \<Rightarrow> bool" where
  "is_thread_suspended th =
     (if (case th_context th of None \<Rightarrow> False | Some c \<Rightarrow> cx_cooperative c) then False
      else if th_suspend th \<noteq> 0 then True
      else \<not> th_bypass_proc_suspend th \<and> th_process_suspend th \<noteq> 0)"

text \<open>The entries of a wait, with the objects they queue on.\<close>

definition wait_entries :: "tid \<Rightarrow> thread_wait \<Rightarrow> (oid \<times> wait_queue_entry) list" where
  "wait_entries t wait = map (\<lambda>i. (tw_queues wait ! i, (t, tw_id wait, i))) [0..<length (tw_queues wait)]"

text \<open>Telling the objects of a wait that it is satisfied; not done when the status is not an index.\<close>

definition satisfy_wait :: "tid \<Rightarrow> thread_wait \<Rightarrow> status \<Rightarrow> sync_state \<Rightarrow> sync_state \<times> bool" where
  "satisfy_wait t wait st s =
     (if unat st < length (tw_queues wait)
      then if tw_select wait = SELECT_WAIT_ALL
           then fold (object_sync_satisfied t) (tw_queues wait) (s, tw_abandoned wait)
           else object_sync_satisfied t (tw_queues wait ! unat st) (s, tw_abandoned wait)
      else (s, False))"

definition end_wait :: "tid \<Rightarrow> status \<Rightarrow> sync_state \<Rightarrow> sync_state \<times> status" where
  "end_wait t st s =
     (case th_waits (threads s t) of
        [] \<Rightarrow> (sync_fail s, st)
      | wait # rest \<Rightarrow>
          let s1 = upd_thread t (\<lambda>th. th\<lparr>th_waits := rest\<rparr>) s;
              (s2, abandoned) = satisfy_wait t wait st s1;
              st' = (if abandoned then st + STATUS_ABANDONED_WAIT_0 else st)
          in (fold (\<lambda>(ob, entry). remove_queue ob entry) (wait_entries t wait) s2, st'))"

text \<open>
  The condition of the innermost wait of a thread: the status to wake up with, or \<open>None\<close> to keep waiting.
  \<open>signaled\<close> are the objects that are signaled for the thread.
\<close>

definition wait_cond :: "thread \<Rightarrow> (oid \<Rightarrow> bool) \<Rightarrow> int \<Rightarrow> int \<Rightarrow> status option" where
  "wait_cond th signaled now mtime =
     (case th_waits th of
        [] \<Rightarrow> None
      | wait # rest \<Rightarrow>
          if tw_flags wait AND SELECT_INTERRUPTIBLE \<noteq> 0 \<and> th_system_apc th \<noteq> 0 then Some STATUS_KERNEL_APC
          else if tw_flags wait AND SELECT_COOPERATIVE_SUSPEND \<noteq> 0 \<and> th_context th \<noteq> None then Some STATUS_THREAD_WAS_SUSPENDED
          else if is_thread_suspended th then None
          else case (if tw_select wait = SELECT_WAIT_ALL
                     then if list_all signaled (tw_queues wait) then Some 0 else None
                     else List.find (\<lambda>i. signaled (tw_queues wait ! i)) [0..<length (tw_queues wait)]) of
                 Some i \<Rightarrow> Some (word_of_nat i)
               | None \<Rightarrow>
                   if tw_flags wait AND SELECT_ALERTABLE \<noteq> 0 \<and> th_user_apc th \<noteq> 0 then Some STATUS_USER_APC
                   else if tw_when wait \<ge> 0 \<and> tw_when wait \<le> now then Some STATUS_TIMEOUT
                   else if tw_when wait < 0 \<and> - tw_when wait \<le> mtime then Some STATUS_TIMEOUT
                   else None)"

definition wait_status :: "tid \<Rightarrow> sync_state \<Rightarrow> status option" where
  "wait_status t s = wait_cond (threads s t) (object_sync_signaled s t) (current_time s) (monotonic_time s)"

definition check_wait :: "tid \<Rightarrow> sync_state \<Rightarrow> sync_state \<times> status option" where
  "check_wait t s =
     (if th_waits (threads s t) = [] then (sync_fail s, None)
      else (if wait_status t s = Some STATUS_THREAD_WAS_SUSPENDED
            then upd_thread t (\<lambda>th. th\<lparr>th_context := map_option (\<lambda>c. c\<lparr>cx_cooperative := True\<rparr>) (th_context th)\<rparr>) s
            else s, wait_status t s))"

definition send_thread_wakeup :: "tid \<Rightarrow> u64 \<Rightarrow> status \<Rightarrow> sync_state \<Rightarrow> sync_state" where
  "send_thread_wakeup t cookie signaled s =
     (let th = threads s t;
          reply = (\<lambda>st s. s\<lparr>wakeups := wakeups s @ [(t, cookie, st)]\<rparr>)
      in case th_context th of
           Some c \<Rightarrow>
             if th_suspend_cookie th = cookie \<and> signaled \<noteq> STATUS_KERNEL_APC \<and> signaled \<noteq> STATUS_USER_APC
             then if cx_native_flags c = 0 \<and> cx_wow_flags c = 0
                  then reply signaled (upd_thread t (\<lambda>th. th\<lparr>th_context := None\<rparr>) s)
                  else reply STATUS_KERNEL_APC s
             else reply signaled s
         | None \<Rightarrow> reply signaled s)"

lemma satisfied_waits: "th_waits (threads (fst (object_sync_satisfied t ob p)) t') = th_waits (threads (fst p) t')"
  by (auto simp: object_sync_satisfied_def semaphore_sync_satisfied_def mutex_sync_satisfied_def do_grab_def sync_fail_def set_sync_def
      upd_thread_def Let_def split: prod.split sync.split)

lemma fold_satisfied_waits: "th_waits (threads (fst (fold (object_sync_satisfied t) obs p)) t') = th_waits (threads (fst p) t')"
  by (induction obs arbitrary: p) (simp_all add: satisfied_waits)

lemma fold_remove_threads: "threads (fold (\<lambda>(ob, entry). remove_queue ob entry) es s) = threads s"
  by (induction es arbitrary: s) (auto simp: remove_queue_def)

lemma satisfy_wait_waits: "th_waits (threads (fst (satisfy_wait t wait st s)) t') = th_waits (threads s t')"
  by (simp add: satisfy_wait_def satisfied_waits fold_satisfied_waits)

lemma end_wait_waits:
  "th_waits (threads (fst (end_wait t st s)) t') = (if t' = t then tl (th_waits (threads s t)) else th_waits (threads s t'))"
proof (cases "th_waits (threads s t)")
  case (Cons wait rest)
  obtain s2 ab where "satisfy_wait t wait st (upd_thread t (\<lambda>th. th\<lparr>th_waits := rest\<rparr>) s) = (s2, ab)" by fastforce
  then show ?thesis using Cons satisfy_wait_waits [of t wait st "upd_thread t (\<lambda>th. th\<lparr>th_waits := rest\<rparr>) s" t']
    by (simp add: end_wait_def fold_remove_threads upd_thread_def Let_def)
qed (simp add: end_wait_def sync_fail_def)

lemma check_wait_waits: "th_waits (threads (fst (check_wait t s)) t') = th_waits (threads s t')"
  by (simp add: check_wait_def upd_thread_def sync_fail_def)

lemma send_thread_wakeup_waits: "th_waits (threads (send_thread_wakeup t cookie st s) t') = th_waits (threads s t')"
  by (auto simp: send_thread_wakeup_def Let_def upd_thread_def split: option.split)

text \<open>One round of the loop of \<^verbatim>\<open>wake_thread\<close>, and the loop; the number counts the waits that end.\<close>

definition wake_round :: "tid \<Rightarrow> sync_state \<Rightarrow> sync_state option" where
  "wake_round t s =
     (case th_waits (threads s t) of
        [] \<Rightarrow> None
      | wait # rest \<Rightarrow>
          (case check_wait t s of
             (s1, None) \<Rightarrow> None
           | (s1, Some signaled) \<Rightarrow>
               let (s2, signaled') = end_wait t signaled s1
               in Some (if tw_cookie wait \<noteq> 0 then send_thread_wakeup t (tw_cookie wait) signaled' s2 else s2)))"

lemma wake_round_waits:
  "wake_round t s = Some s' \<Longrightarrow> th_waits (threads s t) \<noteq> [] \<and>
   th_waits (threads s' t') = (if t' = t then tl (th_waits (threads s t)) else th_waits (threads s t'))"
proof -
  assume r: "wake_round t s = Some s'"
  then obtain wait rest where w: "th_waits (threads s t) = wait # rest" by (cases "th_waits (threads s t)") (auto simp: wake_round_def)
  obtain s1 st where c: "check_wait t s = (s1, Some st)"
    using r w by (cases "check_wait t s") (auto simp: wake_round_def split: option.splits)
  obtain s2 st' where e: "end_wait t st s1 = (s2, st')" by fastforce
  have s': "s' = (if tw_cookie wait \<noteq> 0 then send_thread_wakeup t (tw_cookie wait) st' s2 else s2)"
    using r w c e by (simp add: wake_round_def)
  have "th_waits (threads s2 t') = (if t' = t then tl (th_waits (threads s t)) else th_waits (threads s t'))"
    using end_wait_waits [of t st s1 t'] check_wait_waits [of t s] unfolding e c by simp
  moreover have "th_waits (threads s' t') = th_waits (threads s2 t')" by (simp add: s' send_thread_wakeup_waits)
  ultimately show ?thesis using w by simp
qed

function wake_thread :: "tid \<Rightarrow> sync_state \<Rightarrow> sync_state \<times> nat" where
  "wake_thread t s =
     (case wake_round t s of
        None \<Rightarrow> (s, 0)
      | Some s' \<Rightarrow> (case wake_thread t s' of (s'', n) \<Rightarrow> (s'', Suc n)))"
  by pat_completeness auto
termination
proof (relation "measure (\<lambda>(t, s). length (th_waits (threads s t)))")
  fix t s s' assume "wake_round t s = Some s'"
  then show "((t, s'), (t, s)) \<in> measure (\<lambda>(t, s). length (th_waits (threads s t)))"
    using wake_round_waits [of t s s' t] by (cases "th_waits (threads s t)") auto
qed simp

declare wake_thread.simps [simp del]

section \<open>Waking up the threads that wait for an object\<close>

lemma satisfied_queues: "wait_queue (fst (object_sync_satisfied t ob p)) = wait_queue (fst p)"
  by (auto simp: object_sync_satisfied_def semaphore_sync_satisfied_def mutex_sync_satisfied_def do_grab_def sync_fail_def set_sync_def
      upd_thread_def Let_def split: prod.split sync.split)

lemma fold_satisfied_queues: "wait_queue (fst (fold (object_sync_satisfied t) obs p)) = wait_queue (fst p)"
  by (induction obs arbitrary: p) (simp_all add: satisfied_queues)

lemma satisfy_wait_queues: "wait_queue (fst (satisfy_wait t wait st s)) = wait_queue s"
  by (simp add: satisfy_wait_def satisfied_queues fold_satisfied_queues)

lemma fold_remove_queues:
  "wait_queue (fold (\<lambda>(ob, entry). remove_queue ob entry) es s) ob = filter (\<lambda>e. (ob, e) \<notin> set es) (wait_queue s ob)"
  by (induction es arbitrary: s) (auto simp: remove_queue_def intro: filter_cong)

lemma end_wait_queues:
  "wait_queue (fst (end_wait t st s)) ob =
     (case th_waits (threads s t) of [] \<Rightarrow> wait_queue s ob
      | wait # _ \<Rightarrow> filter (\<lambda>e. (ob, e) \<notin> set (wait_entries t wait)) (wait_queue s ob))"
proof (cases "th_waits (threads s t)")
  case (Cons wait rest)
  obtain s2 ab where "satisfy_wait t wait st (upd_thread t (\<lambda>th. th\<lparr>th_waits := rest\<rparr>) s) = (s2, ab)" by fastforce
  then show ?thesis using Cons satisfy_wait_queues [of t wait st "upd_thread t (\<lambda>th. th\<lparr>th_waits := rest\<rparr>) s"]
    by (simp add: end_wait_def fold_remove_queues upd_thread_def Let_def)
qed (simp add: end_wait_def sync_fail_def)

lemma check_wait_queues: "wait_queue (fst (check_wait t s)) = wait_queue s"
  by (simp add: check_wait_def upd_thread_def sync_fail_def)

lemma send_thread_wakeup_queues: "wait_queue (send_thread_wakeup t cookie st s) = wait_queue s"
  by (auto simp: send_thread_wakeup_def Let_def upd_thread_def split: option.split)

lemma wake_round_queues:
  assumes "wake_round t s = Some s'"
  shows "wait_queue s' ob = filter (\<lambda>e. (ob, e) \<notin> set (wait_entries t (hd (th_waits (threads s t))))) (wait_queue s ob)"
proof -
  obtain wait rest where w: "th_waits (threads s t) = wait # rest"
    using assms by (cases "th_waits (threads s t)") (auto simp: wake_round_def)
  obtain s1 st where c: "check_wait t s = (s1, Some st)"
    using assms w by (cases "check_wait t s") (auto simp: wake_round_def split: option.splits)
  obtain s2 st' where e: "end_wait t st s1 = (s2, st')" by fastforce
  have "wait_queue s' = wait_queue s2" using assms w c e by (auto simp: wake_round_def send_thread_wakeup_queues)
  then show ?thesis
    using end_wait_queues [of t st s1 ob] check_wait_queues [of t s] check_wait_waits [of t s t] w unfolding e c by simp
qed

lemma wake_thread_None: "wake_round t s = None \<Longrightarrow> wake_thread t s = (s, 0)"
  by (subst wake_thread.simps) simp

lemma wake_thread_Some: "wake_round t s = Some s' \<Longrightarrow> wake_thread t s = (fst (wake_thread t s'), Suc (snd (wake_thread t s')))"
  by (subst wake_thread.simps) (simp split: prod.split)

lemma wake_thread_induct [case_names None Some]:
  assumes "\<And>s. wake_round t s = None \<Longrightarrow> P s"
    and "\<And>s s'. wake_round t s = Some s' \<Longrightarrow> P s' \<Longrightarrow> P s"
  shows "P s"
proof (induction "length (th_waits (threads s t))" arbitrary: s rule: less_induct)
  case less
  show ?case
  proof (cases "wake_round t s")
    case (Some s')
    have "length (th_waits (threads s' t)) < length (th_waits (threads s t))"
      using wake_round_waits [OF Some, of t] by (cases "th_waits (threads s t)") auto
    then show ?thesis using assms(2) [OF Some] less by blast
  qed (rule assms(1))
qed

lemma wake_thread_queue_subset: "set (wait_queue (fst (wake_thread t s)) ob) \<subseteq> set (wait_queue s ob)"
proof (induction s rule: wake_thread_induct [of t])
  case (Some s s')
  then show ?case using wake_round_queues [OF Some(1), of ob] by (auto simp: wake_thread_Some)
qed (simp add: wake_thread_None)

lemma wake_thread_length:
  "length (th_waits (threads (fst (wake_thread t s)) t)) + snd (wake_thread t s) = length (th_waits (threads s t))"
proof (induction s rule: wake_thread_induct [of t])
  case (Some s s')
  have "length (th_waits (threads s t)) = Suc (length (th_waits (threads s' t)))"
    using wake_round_waits [OF Some(1), of t] by (cases "th_waits (threads s t)") auto
  then show ?case using Some by (simp add: wake_thread_Some)
qed (simp add: wake_thread_None)

lemma wake_thread_others: "t' \<noteq> t \<Longrightarrow> th_waits (threads (fst (wake_thread t s)) t') = th_waits (threads s t')"
proof (induction s rule: wake_thread_induct [of t])
  case (Some s s')
  then show ?case using wake_round_waits [OF Some(1), of t'] by (simp add: wake_thread_Some)
qed (simp add: wake_thread_None)

lemma wake_thread_0: "snd (wake_thread t s) = 0 \<Longrightarrow> fst (wake_thread t s) = s"
  by (cases "wake_round t s") (simp_all add: wake_thread_None wake_thread_Some)

text \<open>A pass of \<^verbatim>\<open>wake_up\<close> either advances in the queue or has ended waits of threads in the queue.\<close>

definition wake_work :: "oid \<Rightarrow> wait_queue_entry list \<Rightarrow> sync_state \<Rightarrow> nat" where
  "wake_work ob es s = (\<Sum>t \<in> fst ` (set es \<union> set (wait_queue s ob)). length (th_waits (threads s t)))"

definition wake_rel :: "((oid \<times> nat \<times> wait_queue_entry list \<times> sync_state) \<times> (oid \<times> nat \<times> wait_queue_entry list \<times> sync_state)) set" where
  "wake_rel = inv_image (less_than <*lex*> less_than) (\<lambda>(ob, m, es, s). (wake_work ob es s, length es))"

lemma wf_wake_rel: "wf wake_rel"
  unfolding wake_rel_def by (intro wf_inv_image wf_lex_prod wf_less_than)

lemma wake_rel_skip:
  assumes "(s', n) = wake_thread t s" and "n = 0"
  shows "((ob, m, es, s'), (ob, m, (t, w, i) # es, s)) \<in> wake_rel"
proof -
  have s': "s' = s" using wake_thread_0 [of t s] assms(2) unfolding assms(1) [symmetric] by simp
  have "wake_work ob es s \<le> wake_work ob ((t, w, i) # es) s" unfolding wake_work_def by (rule sum_mono2) auto
  then show ?thesis unfolding s' by (auto simp: wake_rel_def le_less)
qed

lemma wake_rel_wake:
  assumes w: "(s', n) = wake_thread t s" and n: "n \<noteq> 0"
  shows "((ob, m', wait_queue s' ob, s'), (ob, m, (t, w, i) # es, s)) \<in> wake_rel"
proof -
  let ?A = "fst ` (set (wait_queue s' ob) \<union> set (wait_queue s' ob))" and ?B = "fst ` (set ((t, w, i) # es) \<union> set (wait_queue s ob))"
  note sh = wake_thread_queue_subset [of t s, unfolded w [symmetric] fst_conv snd_conv]
    wake_thread_length [of t s, unfolded w [symmetric] fst_conv snd_conv]
    wake_thread_others [of _ t s, unfolded w [symmetric] fst_conv snd_conv]
  have sub: "?A \<subseteq> ?B" using sh(1) [of ob] by auto
  have le: "length (th_waits (threads s' u)) \<le> length (th_waits (threads s u))" for u
    using sh(2) sh(3) [of u] by (cases "u = t") auto
  have "(\<Sum>t \<in> ?A. length (th_waits (threads s' t))) \<le> (\<Sum>t \<in> ?B. length (th_waits (threads s' t)))"
    by (rule sum_mono2) (use sub in auto)
  also have "\<dots> < (\<Sum>t \<in> ?B. length (th_waits (threads s t)))"
  proof (rule sum_strict_mono_ex1)
    show "\<exists>u \<in> ?B. length (th_waits (threads s' u)) < length (th_waits (threads s u))"
      using sh(2) n by (intro bexI [of _ t]) auto
  qed (use le in auto)
  finally show ?thesis by (simp add: wake_rel_def wake_work_def)
qed

text \<open>
  The loop of \<^verbatim>\<open>wake_up\<close>: the rest of the queue in this pass; it starts over when a thread has been woken.
  No limit is 0.
\<close>

function wake_pass :: "oid \<Rightarrow> nat \<Rightarrow> wait_queue_entry list \<Rightarrow> sync_state \<Rightarrow> sync_state" where
  "wake_pass ob max_wake [] s = s"
| "wake_pass ob max_wake ((t, w, i) # es) s =
     (case wake_thread t s of
        (s', n) \<Rightarrow>
          if n = 0 then wake_pass ob max_wake es s'
          else if max_wake = 1 then s'
          else wake_pass ob (max_wake - 1) (wait_queue s' ob) s')"
  by pat_completeness auto
termination
  by (relation wake_rel) (rule wf_wake_rel, (blast intro: wake_rel_skip wake_rel_wake)+)

definition wake_up :: "oid \<Rightarrow> nat \<Rightarrow> sync_state \<Rightarrow> sync_state" where
  "wake_up ob max_wake s = wake_pass ob max_wake (wait_queue s ob) s"

section \<open>Events\<close>

definition create_event_sync :: "bool \<Rightarrow> bool \<Rightarrow> oid \<Rightarrow> sync_state \<Rightarrow> sync_state" where
  "create_event_sync manual signaled ob s = set_sync ob (Event_Sync \<lparr>ev_manual = manual, ev_signaled = signaled\<rparr>) s"

definition event_sync_signal :: "oid \<Rightarrow> event_sync \<Rightarrow> bool \<Rightarrow> sync_state \<Rightarrow> sync_state" where
  "event_sync_signal ob event signal s =
     (let s1 = set_sync ob (Event_Sync (event\<lparr>ev_signaled := signal\<rparr>)) s
      in if signal then wake_up ob (if ev_manual event then 0 else 1) s1 else s1)"

text \<open>The object of an event request is an event; \<open>syncs s ob\<close> is read again by each call.\<close>

definition set_event :: "oid \<Rightarrow> sync_state \<Rightarrow> sync_state" where
  "set_event ob s = (case syncs s ob of Event_Sync event \<Rightarrow> event_sync_signal ob event True s | _ \<Rightarrow> sync_fail s)"

definition reset_event :: "oid \<Rightarrow> sync_state \<Rightarrow> sync_state" where
  "reset_event ob s = (case syncs s ob of Event_Sync event \<Rightarrow> event_sync_signal ob event False s | _ \<Rightarrow> sync_fail s)"

definition event_signal :: "oid \<Rightarrow> event_sync \<Rightarrow> u32 \<Rightarrow> sync_state \<Rightarrow> sync_state \<times> status" where
  "event_signal ob event access s =
     (if access AND EVENT_MODIFY_STATE = 0 then (s, STATUS_ACCESS_DENIED) else (event_sync_signal ob event True s, STATUS_SUCCESS))"

datatype event_opcode = PULSE_EVENT | SET_EVENT | RESET_EVENT | Other_Event_Op

definition req_event_op :: "event_opcode \<Rightarrow> oid \<Rightarrow> sync_state \<Rightarrow> sync_state \<times> bool \<times> status" where
  "req_event_op op ob s =
     (case syncs s ob of
        Event_Sync event \<Rightarrow>
          (case op of
             PULSE_EVENT \<Rightarrow> (reset_event ob (set_event ob s), ev_signaled event, STATUS_SUCCESS)
           | SET_EVENT \<Rightarrow> (set_event ob s, ev_signaled event, STATUS_SUCCESS)
           | RESET_EVENT \<Rightarrow> (reset_event ob s, ev_signaled event, STATUS_SUCCESS)
           | Other_Event_Op \<Rightarrow> (s, ev_signaled event, STATUS_INVALID_PARAMETER))
      | _ \<Rightarrow> (sync_fail s, False, STATUS_SUCCESS))"

definition req_query_event :: "oid \<Rightarrow> sync_state \<Rightarrow> (bool \<times> bool) option" where
  "req_query_event ob s = (case syncs s ob of Event_Sync event \<Rightarrow> Some (ev_manual event, ev_signaled event) | _ \<Rightarrow> None)"

section \<open>Semaphores\<close>

definition create_semaphore :: "u32 \<Rightarrow> u32 \<Rightarrow> oid \<Rightarrow> sync_state \<Rightarrow> sync_state \<times> status" where
  "create_semaphore initial maximum ob s =
     (if maximum = 0 \<or> initial > maximum then (s, STATUS_INVALID_PARAMETER)
      else (set_sync ob (Semaphore_Sync \<lparr>sem_count = initial, sem_max = maximum\<rparr>) s, STATUS_SUCCESS))"

definition release_semaphore :: "oid \<Rightarrow> semaphore_sync \<Rightarrow> u32 \<Rightarrow> sync_state \<Rightarrow> sync_state \<times> status" where
  "release_semaphore ob sem n s =
     (if sem_count sem + n < sem_count sem \<or> sem_count sem + n > sem_max sem then (s, STATUS_SEMAPHORE_LIMIT_EXCEEDED)
      else if sem_count sem \<noteq> 0 then (set_sync ob (Semaphore_Sync (sem\<lparr>sem_count := sem_count sem + n\<rparr>)) s, STATUS_SUCCESS)
      else (wake_up ob (unat n) (set_sync ob (Semaphore_Sync (sem\<lparr>sem_count := n\<rparr>)) s), STATUS_SUCCESS))"

definition semaphore_signal :: "oid \<Rightarrow> semaphore_sync \<Rightarrow> u32 \<Rightarrow> sync_state \<Rightarrow> sync_state \<times> status" where
  "semaphore_signal ob sem access s =
     (if access AND SEMAPHORE_MODIFY_STATE = 0 then (s, STATUS_ACCESS_DENIED) else release_semaphore ob sem 1 s)"

definition req_release_semaphore :: "u32 \<Rightarrow> oid \<Rightarrow> sync_state \<Rightarrow> sync_state \<times> u32 \<times> status" where
  "req_release_semaphore n ob s =
     (case syncs s ob of
        Semaphore_Sync sem \<Rightarrow> (case release_semaphore ob sem n s of (s', st) \<Rightarrow> (s', sem_count sem, st))
      | _ \<Rightarrow> (sync_fail s, 0, STATUS_SUCCESS))"

definition req_query_semaphore :: "oid \<Rightarrow> sync_state \<Rightarrow> (u32 \<times> u32) option" where
  "req_query_semaphore ob s = (case syncs s ob of Semaphore_Sync sem \<Rightarrow> Some (sem_count sem, sem_max sem) | _ \<Rightarrow> None)"

section \<open>Mutexes\<close>

definition create_mutex_sync :: "bool \<Rightarrow> tid \<Rightarrow> oid \<Rightarrow> sync_state \<Rightarrow> sync_state" where
  "create_mutex_sync owned t ob s =
     (let mutex = \<lparr>mx_owner = None, mx_count = 0, mx_abandoned = False\<rparr>;
          (mutex', s') = (if owned then do_grab ob mutex t s else (mutex, s))
      in set_sync ob (Mutex_Sync mutex') s')"

definition do_release :: "oid \<Rightarrow> mutex_sync \<Rightarrow> tid \<Rightarrow> u32 \<Rightarrow> sync_state \<Rightarrow> sync_state \<times> status" where
  "do_release ob mutex t n s =
     (if mx_count mutex = 0 \<or> mx_owner mutex \<noteq> Some t then (s, STATUS_MUTANT_NOT_OWNED)
      else let mutex' = mutex\<lparr>mx_count := mx_count mutex - n\<rparr>
           in if mx_count mutex' = 0
              then (wake_up ob 0
                     (set_sync ob (Mutex_Sync (mutex'\<lparr>mx_owner := None\<rparr>))
                       (upd_thread t (\<lambda>th. th\<lparr>th_mutex_list := filter (\<lambda>m. m \<noteq> ob) (th_mutex_list th)\<rparr>) s)), STATUS_SUCCESS)
              else (set_sync ob (Mutex_Sync mutex') s, STATUS_SUCCESS))"

text \<open>
  The loop over the mutexes of a thread; \<open>n\<close> bounds the number of rounds. A thread that no longer waits
  gets no mutex back, so that as many rounds as it has mutexes are enough.
\<close>

fun abandon_loop :: "nat \<Rightarrow> tid \<Rightarrow> sync_state \<Rightarrow> sync_state" where
  "abandon_loop 0 t s = s"
| "abandon_loop (Suc n) t s =
     (case th_mutex_list (threads s t) of
        [] \<Rightarrow> s
      | ob # obs \<Rightarrow>
          (case syncs s ob of
             Mutex_Sync mutex \<Rightarrow>
               if mx_owner mutex \<noteq> Some t then sync_fail s
               else abandon_loop n t (fst (do_release ob (mutex\<lparr>mx_abandoned := True\<rparr>) t (mx_count mutex) s))
           | _ \<Rightarrow> sync_fail s))"

definition abandon_mutexes :: "tid \<Rightarrow> sync_state \<Rightarrow> sync_state" where
  "abandon_mutexes t s = abandon_loop (length (th_mutex_list (threads s t))) t s"

definition mutex_signal :: "oid \<Rightarrow> mutex_sync \<Rightarrow> tid \<Rightarrow> u32 \<Rightarrow> sync_state \<Rightarrow> sync_state \<times> status" where
  "mutex_signal ob mutex t access s =
     (if access AND SYNC_SYNCHRONIZE = 0 then (s, STATUS_ACCESS_DENIED) else do_release ob mutex t 1 s)"

definition req_release_mutex :: "tid \<Rightarrow> oid \<Rightarrow> sync_state \<Rightarrow> sync_state \<times> u32 \<times> status" where
  "req_release_mutex t ob s =
     (case syncs s ob of
        Mutex_Sync mutex \<Rightarrow> (case do_release ob mutex t 1 s of (s', st) \<Rightarrow> (s', mx_count mutex, st))
      | _ \<Rightarrow> (sync_fail s, 0, STATUS_SUCCESS))"

definition req_query_mutex :: "tid \<Rightarrow> oid \<Rightarrow> sync_state \<Rightarrow> (u32 \<times> bool \<times> bool) option" where
  "req_query_mutex t ob s =
     (case syncs s ob of
        Mutex_Sync mutex \<Rightarrow> Some (mx_count mutex, mx_owner mutex = Some t, mx_abandoned mutex)
      | _ \<Rightarrow> None)"

section \<open>Select requests\<close>

definition wait_on :: "bool \<Rightarrow> tid \<Rightarrow> select_opcode \<Rightarrow> oid list \<Rightarrow> u32 \<Rightarrow> int \<Rightarrow> sync_state \<Rightarrow> sync_state result" where
  "wait_on mem_ok t op obs flags wh s =
     (if \<not> mem_ok then Inl STATUS_NO_MEMORY
      else let wait = \<lparr>tw_id = next_wait s, tw_flags = flags, tw_abandoned = False, tw_select = op, tw_cookie = 0,
                       tw_when = wh, tw_user = False, tw_queues = obs\<rparr>;
               s1 = upd_thread t (\<lambda>th. th\<lparr>th_waits := wait # th_waits th\<rparr>) (s\<lparr>next_wait := next_wait s + 1\<rparr>)
           in Inr (fold (\<lambda>(ob, entry). add_queue ob entry) (wait_entries t wait) s1))"

text \<open>
  \<open>wait_obj\<close> looks up a handle for waiting (\<^verbatim>\<open>get_handle_obj\<close> with \<^verbatim>\<open>SYNCHRONIZE\<close> access); the first handle that
  cannot be used ends the request.
\<close>

fun lookup_handles :: "(u32 \<Rightarrow> oid result) \<Rightarrow> u32 list \<Rightarrow> oid list result" where
  "lookup_handles wait_obj [] = Inr []"
| "lookup_handles wait_obj (h # hs) =
     (case wait_obj h of
        Inl err \<Rightarrow> Inl err
      | Inr ob \<Rightarrow> (case lookup_handles wait_obj hs of Inl err \<Rightarrow> Inl err | Inr obs \<Rightarrow> Inr (ob # obs)))"

definition wait_on_handles ::
    "(u32 \<Rightarrow> oid result) \<Rightarrow> bool \<Rightarrow> tid \<Rightarrow> select_opcode \<Rightarrow> u32 list \<Rightarrow> u32 \<Rightarrow> int \<Rightarrow> sync_state \<Rightarrow> sync_state result" where
  "wait_on_handles wait_obj mem_ok t op hs flags wh s =
     (case lookup_handles wait_obj hs of
        Inl err \<Rightarrow> Inl err
      | Inr obs \<Rightarrow> wait_on mem_ok t op obs flags wh s)"

text \<open>\<open>signal_obj\<close> looks up a handle without an access check and gives the access it has.\<close>

definition signal_object :: "(u32 \<Rightarrow> (oid \<times> u32) result) \<Rightarrow> tid \<Rightarrow> u32 \<Rightarrow> sync_state \<Rightarrow> sync_state \<times> status" where
  "signal_object signal_obj t h s =
     (case signal_obj h of
        Inl err \<Rightarrow> (s, err)
      | Inr (ob, access) \<Rightarrow>
          (case syncs s ob of
             Event_Sync event \<Rightarrow> event_signal ob event access s
           | Semaphore_Sync sem \<Rightarrow> semaphore_signal ob sem access s
           | Mutex_Sync mutex \<Rightarrow> mutex_signal ob mutex t access s))"

datatype select_op =
    Select_None
  | Select_Wait "u32 list"
  | Select_Wait_All "u32 list"
  | Select_Signal_And_Wait u32 u32
  | Select_Invalid

text \<open>The end of \<^verbatim>\<open>select_on\<close>: return at once when the condition holds, else set the timer and the cookie.\<close>

definition select_check :: "bool \<Rightarrow> tid \<Rightarrow> u64 \<Rightarrow> sync_state \<Rightarrow> sync_state \<times> bool \<times> status" where
  "select_check timer_ok t cookie s =
     (case check_wait t s of
        (s1, Some ret) \<Rightarrow> (case end_wait t ret s1 of (s2, st) \<Rightarrow> (s2, True, st))
      | (s1, None) \<Rightarrow>
          let timed = tw_when (hd (th_waits (threads s1 t))) \<noteq> TIMEOUT_INFINITE
          in if timed \<and> \<not> timer_ok then (fst (end_wait t STATUS_NO_MEMORY s1), True, STATUS_NO_MEMORY)
             else (upd_thread t (\<lambda>th. th\<lparr>th_waits := (hd (th_waits th))\<lparr>tw_user := timed, tw_cookie := cookie\<rparr> # tl (th_waits th)\<rparr>) s1,
                   False, STATUS_PENDING))"

record select_env =
  wait_obj :: "u32 \<Rightarrow> oid result"
  signal_obj :: "u32 \<Rightarrow> (oid \<times> u32) result"
  wait_mem_ok :: bool
  timer_ok :: bool

definition select_on :: "select_env \<Rightarrow> tid \<Rightarrow> select_op \<Rightarrow> u64 \<Rightarrow> u32 \<Rightarrow> int \<Rightarrow> sync_state \<Rightarrow> sync_state \<times> bool \<times> status" where
  "select_on env t op cookie flags wh s =
     (let check = select_check (timer_ok env) t cookie;
          wait = (\<lambda>opcode hs.
            if length hs > MAXIMUM_WAIT_OBJECTS then (s, True, STATUS_INVALID_PARAMETER)
            else case wait_on_handles (wait_obj env) (wait_mem_ok env) t opcode hs flags wh s of
                   Inl err \<Rightarrow> (s, True, err)
                 | Inr s1 \<Rightarrow> check s1)
      in case op of
           Select_None \<Rightarrow>
             (case wait_on (wait_mem_ok env) t SELECT_NONE [] flags wh s of
                Inl err \<Rightarrow> (s, True, err)
              | Inr s1 \<Rightarrow> check s1)
         | Select_Wait hs \<Rightarrow> wait SELECT_WAIT hs
         | Select_Wait_All hs \<Rightarrow> wait SELECT_WAIT_ALL hs
         | Select_Signal_And_Wait wait_handle signal_handle \<Rightarrow>
             (case wait_on_handles (wait_obj env) (wait_mem_ok env) t SELECT_SIGNAL_AND_WAIT [wait_handle] flags wh s of
                Inl err \<Rightarrow> (s, True, err)
              | Inr s1 \<Rightarrow>
                  if signal_handle = 0 then check s1
                  else case signal_object (signal_obj env) t signal_handle s1 of
                         (s2, err) \<Rightarrow>
                           if err \<noteq> STATUS_SUCCESS then (fst (end_wait t err s2), True, err)
                           else if th_waits (threads s2 t) = [] then (s2, True, STATUS_SUCCESS)
                           else check s2)
         | Select_Invalid \<Rightarrow> (s, True, STATUS_INVALID_PARAMETER))"

section \<open>Timeouts and the end of a thread\<close>

definition thread_timeout :: "tid \<Rightarrow> nat \<Rightarrow> sync_state \<Rightarrow> sync_state" where
  "thread_timeout t w s =
     (let s1 = upd_thread t (\<lambda>th. th\<lparr>th_waits := map (\<lambda>wait. if tw_id wait = w then wait\<lparr>tw_user := False\<rparr> else wait) (th_waits th)\<rparr>) s
      in case th_waits (threads s1 t) of
           [] \<Rightarrow> s1
         | wait # rest \<Rightarrow>
             if tw_id wait \<noteq> w then s1
             else if is_thread_suspended (threads s1 t) then s1
             else let s2 = fst (end_wait t STATUS_TIMEOUT s1)
                  in if tw_cookie wait = 0 then sync_fail s2
                     else fst (wake_thread t (send_thread_wakeup t (tw_cookie wait) STATUS_TIMEOUT s2)))"

text \<open>The part of \<^verbatim>\<open>kill_thread\<close> that deals with waits and mutexes.\<close>

definition kill_thread_waits :: "tid \<Rightarrow> status \<Rightarrow> sync_state \<Rightarrow> sync_state" where
  "kill_thread_waits t exit_code s =
     (let n = length (th_waits (threads s t));
          s1 = ((\<lambda>s. fst (end_wait t STATUS_THREAD_IS_TERMINATING s)) ^^ n) s
      in abandon_mutexes t (if n \<noteq> 0 then send_thread_wakeup t 0 exit_code s1 else s1))"

end
