(* ===== verification/Sync_Correct.thy ===== *)
theory Sync_Correct
  imports Sync
begin

text \<open>
  Invariants of the synchronization objects. A thread is at rest when it does not wait or the condition of
  its innermost wait does not hold; the wake-up functions are shown to leave every thread at rest, because
  ending a wait only ever takes objects out of the signaled state.
\<close>

section \<open>The condition of a wait\<close>

text \<open>The condition in three parts: what comes before the objects, the objects, and what comes after them.\<close>

definition early_status :: "thread \<Rightarrow> thread_wait \<Rightarrow> status option" where
  "early_status th wait =
     (if tw_flags wait AND SELECT_INTERRUPTIBLE \<noteq> 0 \<and> th_system_apc th \<noteq> 0 then Some STATUS_KERNEL_APC
      else if tw_flags wait AND SELECT_COOPERATIVE_SUSPEND \<noteq> 0 \<and> th_context th \<noteq> None then Some STATUS_THREAD_WAS_SUSPENDED
      else None)"

definition signaled_index :: "(oid \<Rightarrow> bool) \<Rightarrow> thread_wait \<Rightarrow> nat option" where
  "signaled_index sig wait =
     (if tw_select wait = SELECT_WAIT_ALL
      then if list_all sig (tw_queues wait) then Some 0 else None
      else List.find (\<lambda>i. sig (tw_queues wait ! i)) [0..<length (tw_queues wait)])"

definition late_status :: "thread \<Rightarrow> thread_wait \<Rightarrow> int \<Rightarrow> int \<Rightarrow> status option" where
  "late_status th wait now mt =
     (if tw_flags wait AND SELECT_ALERTABLE \<noteq> 0 \<and> th_user_apc th \<noteq> 0 then Some STATUS_USER_APC
      else if tw_when wait \<ge> 0 \<and> tw_when wait \<le> now then Some STATUS_TIMEOUT
      else if tw_when wait < 0 \<and> - tw_when wait \<le> mt then Some STATUS_TIMEOUT
      else None)"

lemma wait_cond_parts:
  "th_waits th = wait # rest \<Longrightarrow> wait_cond th sig now mt =
     (if early_status th wait \<noteq> None then early_status th wait else if is_thread_suspended th then None
      else case signaled_index sig wait of Some i \<Rightarrow> Some (word_of_nat i) | None \<Rightarrow> late_status th wait now mt)"
  unfolding wait_cond_def early_status_def signaled_index_def late_status_def by simp

lemma signaled_index_mono:
  assumes "signaled_index sig wait = None" and "\<And>ob. ob \<in> set (tw_queues wait) \<Longrightarrow> sig' ob \<Longrightarrow> sig ob"
  shows "signaled_index sig' wait = None"
  using assms by (auto simp: signaled_index_def list_all_iff find_None_iff split: if_splits)

lemma wait_cond_mono:
  assumes none: "wait_cond th sig now mt = None"
    and less: "\<And>ob. th_waits th \<noteq> [] \<Longrightarrow> ob \<in> set (tw_queues (hd (th_waits th))) \<Longrightarrow> sig' ob \<Longrightarrow> sig ob"
  shows "wait_cond th sig' now mt = None"
proof (cases "th_waits th")
  case (Cons wait rest)
  have "signaled_index sig' wait = None" if "signaled_index sig wait = None"
    by (rule signaled_index_mono [OF that]) (use less Cons in auto)
  then show ?thesis using none unfolding wait_cond_parts [OF Cons] by (auto split: if_splits option.splits)
qed (simp add: wait_cond_def)

text \<open>The objects that a wait takes when it ends with a status.\<close>

definition consumed :: "thread_wait \<Rightarrow> status \<Rightarrow> oid list" where
  "consumed wait st =
     (if unat st < length (tw_queues wait)
      then if tw_select wait = SELECT_WAIT_ALL then tw_queues wait else [tw_queues wait ! unat st]
      else [])"

definition wait_ok :: "thread_wait \<Rightarrow> bool" where
  "wait_ok wait \<longleftrightarrow> length (tw_queues wait) \<le> MAXIMUM_WAIT_OBJECTS \<and>
     (tw_select wait = SELECT_WAIT_ALL \<longrightarrow> distinct (tw_queues wait))"

lemma wait_cond_consumed:
  assumes ok: "wait_ok wait" and w: "th_waits th = wait # rest" and st: "wait_cond th sig now mt = Some st"
  shows "distinct (consumed wait st)" and "set (consumed wait st) \<subseteq> set (tw_queues wait)"
    and "\<And>ob. ob \<in> set (consumed wait st) \<Longrightarrow> sig ob"
    and "wait_cond th sig' now mt = None \<Longrightarrow> (\<And>o'. o' \<noteq> ob \<Longrightarrow> sig o' \<Longrightarrow> sig' o') \<Longrightarrow> ob \<in> set (consumed wait st)"
proof -
  have len: "length (tw_queues wait) \<le> 64" using ok by (simp add: wait_ok_def)
  then have early: "consumed wait x = []" if "early_status th wait = Some x" for x
    using that by (auto simp: consumed_def early_status_def split: if_splits)
  have late: "consumed wait x = []" if "late_status th wait now mt = Some x" for x
    using that len by (auto simp: consumed_def late_status_def split: if_splits)
  show "distinct (consumed wait st)" using ok by (auto simp: consumed_def wait_ok_def)
  show "set (consumed wait st) \<subseteq> set (tw_queues wait)" by (auto simp: consumed_def)
  have index: "set (consumed wait st) \<subseteq> Collect sig \<and> (signaled_index sig' wait = None \<longrightarrow>
      (\<forall>o'. o' \<noteq> ob \<longrightarrow> sig o' \<longrightarrow> sig' o') \<longrightarrow> ob \<in> set (consumed wait st))"
    if "signaled_index sig wait = Some i" "st = word_of_nat i" for i sig' ob
  proof (cases "tw_select wait = SELECT_WAIT_ALL")
    case True
    then show ?thesis using that by (auto simp: signaled_index_def consumed_def list_all_iff split: if_splits)
  next
    case False
    then have i: "i < length (tw_queues wait)" "sig (tw_queues wait ! i)"
      using that(1) by (auto simp: signaled_index_def find_Some_iff)
    have "unat st = i" using i(1) len that(2) by (simp add: unat_of_nat take_bit_nat_eq_self)
    then show ?thesis using False i by (auto simp: consumed_def signaled_index_def find_None_iff)
  qed
  have parts: "(consumed wait st = [] \<and> (early_status th wait = Some st \<or> (\<not> is_thread_suspended th \<and> late_status th wait now mt = Some st \<and>
        signaled_index sig wait = None \<and> early_status th wait = None))) \<or>
      (\<exists>i. \<not> is_thread_suspended th \<and> early_status th wait = None \<and> signaled_index sig wait = Some i \<and> st = word_of_nat i)"
    using st early late unfolding wait_cond_parts [OF w] by (auto split: if_splits option.splits)
  show "sig ob" if "ob \<in> set (consumed wait st)" for ob
    using parts index that by auto
  show "ob \<in> set (consumed wait st)" if none: "wait_cond th sig' now mt = None" and other: "\<And>o'. o' \<noteq> ob \<Longrightarrow> sig o' \<Longrightarrow> sig' o'"
  proof -
    have "early_status th wait = None" "is_thread_suspended th \<or> (signaled_index sig' wait = None \<and> late_status th wait now mt = None)"
      using none unfolding wait_cond_parts [OF w] by (auto split: if_splits option.splits)
    then show ?thesis using parts index [of _ sig' ob] other by fastforce
  qed
qed

section \<open>Taking objects\<close>

text \<open>What taking a signaled object does to it, and to the list of mutexes of the thread.\<close>

fun taken :: "tid \<Rightarrow> sync \<Rightarrow> sync" where
  "taken t (Event_Sync event) = Event_Sync (event_sync_satisfied event)"
| "taken t (Semaphore_Sync sem) = Semaphore_Sync (sem\<lparr>sem_count := sem_count sem - 1\<rparr>)"
| "taken t (Mutex_Sync mutex) = Mutex_Sync \<lparr>mx_owner = Some t, mx_count = mx_count mutex + 1, mx_abandoned = False\<rparr>"

definition free_mutex :: "sync \<Rightarrow> bool" where
  "free_mutex y \<longleftrightarrow> (case y of Mutex_Sync mutex \<Rightarrow> mx_count mutex = 0 | _ \<Rightarrow> False)"

definition take_all :: "tid \<Rightarrow> oid list \<Rightarrow> sync_state \<Rightarrow> sync_state" where
  "take_all t C s = s\<lparr>syncs := \<lambda>ob. if ob \<in> set C then taken t (syncs s ob) else syncs s ob,
     threads := (threads s)(t := (threads s t)\<lparr>th_mutex_list := rev (filter (\<lambda>ob. free_mutex (syncs s ob)) C) @ th_mutex_list (threads s t)\<rparr>)\<rparr>"

definition mutexes_ok :: "sync_state \<Rightarrow> bool" where
  "mutexes_ok s \<longleftrightarrow> (\<forall>ob mutex. syncs s ob = Mutex_Sync mutex \<longrightarrow> (mx_count mutex = 0 \<longleftrightarrow> mx_owner mutex = None))"

lemma take_one:
  assumes ok: "mutexes_ok s" and sig: "object_sync_signaled s t ob"
  shows "fst (object_sync_satisfied t ob (s, ab)) = take_all t [ob] s"
proof (cases "syncs s ob")
  case (Event_Sync event)
  then show ?thesis by (simp add: object_sync_satisfied_def set_sync_def take_all_def free_mutex_def fun_eq_iff)
next
  case (Semaphore_Sync sem)
  then have "sem_count sem \<noteq> 0" using sig by (simp add: object_sync_signaled_def semaphore_sync_signaled_def)
  then show ?thesis using Semaphore_Sync
    by (simp add: object_sync_satisfied_def semaphore_sync_satisfied_def set_sync_def take_all_def free_mutex_def fun_eq_iff)
next
  case (Mutex_Sync mutex)
  have m: "mx_count mutex = 0 \<longleftrightarrow> mx_owner mutex = None" using ok Mutex_Sync by (simp add: mutexes_ok_def)
  have "mx_count mutex = 0 \<or> mx_owner mutex = Some t" using sig Mutex_Sync by (simp add: object_sync_signaled_def mutex_sync_signaled_def)
  then show ?thesis
  proof
    assume c: "mx_count mutex = 0"
    then show ?thesis using m Mutex_Sync
      by (simp add: object_sync_satisfied_def mutex_sync_satisfied_def do_grab_def set_sync_def upd_thread_def take_all_def free_mutex_def fun_eq_iff)
  next
    assume o: "mx_owner mutex = Some t"
    then have "mx_count mutex \<noteq> 0" using m by simp
    then show ?thesis using o Mutex_Sync
      by (simp add: object_sync_satisfied_def mutex_sync_satisfied_def do_grab_def set_sync_def upd_thread_def take_all_def free_mutex_def fun_eq_iff)
  qed
qed

lemma take_all_nil [simp]: "take_all t [] s = s"
  by (simp add: take_all_def)

lemma take_all_sel [simp]:
  "syncs (take_all t C s) ob = (if ob \<in> set C then taken t (syncs s ob) else syncs s ob)"
  "threads (take_all t C s) t' = (if t' = t
     then (threads s t)\<lparr>th_mutex_list := rev (filter (\<lambda>ob. free_mutex (syncs s ob)) C) @ th_mutex_list (threads s t)\<rparr> else threads s t')"
  "wait_queue (take_all t C s) = wait_queue s" "current_time (take_all t C s) = current_time s"
  "monotonic_time (take_all t C s) = monotonic_time s" "next_wait (take_all t C s) = next_wait s"
  "wakeups (take_all t C s) = wakeups s" "sync_failed (take_all t C s) = sync_failed s"
  by (simp_all add: take_all_def)

lemma take_all_append:
  assumes "set C \<inter> set D = {}"
  shows "take_all t D (take_all t C s) = take_all t (C @ D) s"
proof (rule sync_state.equality)
  have "filter (\<lambda>ob. free_mutex (syncs (take_all t C s) ob)) D = filter (\<lambda>ob. free_mutex (syncs s ob)) D"
    using assms by (intro filter_cong) auto
  then show "threads (take_all t D (take_all t C s)) = threads (take_all t (C @ D) s)" by (intro ext) simp
  show "syncs (take_all t D (take_all t C s)) = syncs (take_all t (C @ D) s)" using assms by (intro ext) auto
qed simp_all

text \<open>A mutex that is not about to overflow.\<close>

definition takeable :: "sync \<Rightarrow> bool" where
  "takeable y \<longleftrightarrow> (case y of Mutex_Sync mutex \<Rightarrow> mx_count mutex + 1 \<noteq> 0 | _ \<Rightarrow> True)"

lemma take_all_mutexes_ok:
  assumes "mutexes_ok s" and "\<And>ob. ob \<in> set C \<Longrightarrow> takeable (syncs s ob)"
  shows "mutexes_ok (take_all t C s)"
  unfolding mutexes_ok_def
proof (intro allI impI)
  fix ob mutex assume "syncs (take_all t C s) ob = Mutex_Sync mutex"
  then show "(mx_count mutex = 0) = (mx_owner mutex = None)"
    using assms(1) assms(2) [of ob] by (cases "syncs s ob") (auto simp: mutexes_ok_def takeable_def split: if_splits)
qed

lemma take_fold:
  assumes "mutexes_ok s" and "distinct C" and "\<And>ob. ob \<in> set C \<Longrightarrow> object_sync_signaled s t ob \<and> takeable (syncs s ob)"
  shows "fst (fold (object_sync_satisfied t) C (s, ab)) = take_all t C s"
  using assms
proof (induction C arbitrary: s ab)
  case (Cons ob C)
  let ?s' = "take_all t [ob] s"
  have one: "fst (object_sync_satisfied t ob (s, ab)) = ?s'" by (rule take_one) (use Cons.prems in auto)
  obtain ab' where ab': "object_sync_satisfied t ob (s, ab) = (?s', ab')" using one by (metis prod.collapse)
  have ok: "mutexes_ok ?s'" by (rule take_all_mutexes_ok) (use Cons.prems in auto)
  have "object_sync_signaled ?s' t o' \<and> takeable (syncs ?s' o')" if "o' \<in> set C" for o'
    using Cons.prems that by (auto simp: object_sync_signaled_def take_all_def)
  then have "fst (fold (object_sync_satisfied t) C (?s', ab')) = take_all t C ?s'"
    by (intro Cons.IH ok) (use Cons.prems(2) in auto)
  then show ?case using take_all_append [of "[ob]" C t s] Cons.prems(2) by (simp add: ab')
qed simp

lemma satisfy_wait_take:
  assumes "mutexes_ok s" and "distinct (consumed wait st)"
    and "\<And>ob. ob \<in> set (consumed wait st) \<Longrightarrow> object_sync_signaled s t ob \<and> takeable (syncs s ob)"
  shows "fst (satisfy_wait t wait st s) = take_all t (consumed wait st) s"
proof (cases "unat st < length (tw_queues wait)")
  case True
  show ?thesis
  proof (cases "tw_select wait = SELECT_WAIT_ALL")
    case True
    then show ?thesis using take_fold [OF assms] \<open>unat st < _\<close> by (simp add: satisfy_wait_def consumed_def)
  next
    case False
    then show ?thesis using take_one [OF assms(1)] assms(3) True by (simp add: satisfy_wait_def consumed_def)
  qed
qed (simp add: satisfy_wait_def consumed_def)

text \<open>Taking signaled objects only ever makes objects unsignaled.\<close>

lemma taken_signaled:
  assumes "mutexes_ok s" and C: "\<And>ob. ob \<in> set C \<Longrightarrow> object_sync_signaled s t ob \<and> takeable (syncs s ob)"
    and sig: "object_sync_signaled (take_all t C s) t' ob"
  shows "object_sync_signaled s t' ob"
proof (cases "ob \<in> set C")
  case True
  note tk = C [OF True]
  show ?thesis
  proof (cases "syncs s ob")
    case (Event_Sync event)
    then show ?thesis using tk by (simp add: object_sync_signaled_def)
  next
    case (Semaphore_Sync sem)
    then show ?thesis using tk by (simp add: object_sync_signaled_def)
  next
    case (Mutex_Sync mutex)
    then show ?thesis using tk sig True
      by (auto simp: object_sync_signaled_def take_all_def mutex_sync_signaled_def takeable_def)
  qed
next
  case False
  then show ?thesis using sig by (simp add: object_sync_signaled_def take_all_def)
qed

section \<open>The invariant\<close>

text \<open>
  The recursion count of a mutex does not overflow: a thread takes a mutex at most once for each wait, so
  the count together with the waits of the owner stays below the limit.
\<close>

definition counts_ok :: "sync_state \<Rightarrow> bool" where
  "counts_ok s \<longleftrightarrow> (\<forall>t. length (th_waits (threads s t)) < 2 ^ 32 \<and>
     (\<forall>ob mutex. syncs s ob = Mutex_Sync mutex \<longrightarrow> mx_owner mutex = Some t \<longrightarrow>
        unat (mx_count mutex) + length (th_waits (threads s t)) < 2 ^ 32))"

definition lists_ok :: "sync_state \<Rightarrow> bool" where
  "lists_ok s \<longleftrightarrow> (\<forall>t. distinct (th_mutex_list (threads s t)) \<and>
     (\<forall>ob. ob \<in> set (th_mutex_list (threads s t)) \<longleftrightarrow> (\<exists>mutex. syncs s ob = Mutex_Sync mutex \<and> mx_owner mutex = Some t)))"

definition sems_ok :: "sync_state \<Rightarrow> bool" where
  "sems_ok s \<longleftrightarrow> (\<forall>ob sem. syncs s ob = Semaphore_Sync sem \<longrightarrow> sem_count sem \<le> sem_max sem)"

definition waits_ok :: "sync_state \<Rightarrow> bool" where
  "waits_ok s \<longleftrightarrow> (\<forall>t. distinct (map tw_id (th_waits (threads s t))) \<and>
     (\<forall>wait \<in> set (th_waits (threads s t)). wait_ok wait \<and> tw_id wait < next_wait s))"

definition queues_ok :: "sync_state \<Rightarrow> bool" where
  "queues_ok s \<longleftrightarrow> (\<forall>ob entry. entry \<in> set (wait_queue s ob) \<longleftrightarrow>
     (\<exists>wait \<in> set (th_waits (threads s (fst entry))). (ob, entry) \<in> set (wait_entries (fst entry) wait)))"

definition sync_inv :: "sync_state \<Rightarrow> bool" where
  "sync_inv s \<longleftrightarrow> mutexes_ok s \<and> counts_ok s \<and> lists_ok s \<and> sems_ok s \<and> waits_ok s \<and> queues_ok s \<and> \<not> sync_failed s"

lemma in_wait_entries:
  "(ob, entry) \<in> set (wait_entries t wait) \<longleftrightarrow>
     (\<exists>i < length (tw_queues wait). entry = (t, tw_id wait, i) \<and> tw_queues wait ! i = ob)"
  by (auto simp: wait_entries_def)

lemma waits_okD:
  assumes "sync_inv s" and "th_waits (threads s t) = wait # rest"
  shows "wait_ok wait" and "tw_id wait < next_wait s" and "\<And>w. w \<in> set rest \<Longrightarrow> wait_ok w \<and> tw_id w < next_wait s \<and> tw_id w \<noteq> tw_id wait"
    and "distinct (map tw_id rest)"
proof -
  have *: "distinct (map tw_id (wait # rest)) \<and> (\<forall>w \<in> set (wait # rest). wait_ok w \<and> tw_id w < next_wait s)"
    using assms unfolding sync_inv_def waits_ok_def by metis
  then show "wait_ok wait" "tw_id wait < next_wait s" "distinct (map tw_id rest)" by auto
  show "wait_ok w \<and> tw_id w < next_wait s \<and> tw_id w \<noteq> tw_id wait" if "w \<in> set rest" for w
  proof -
    have "tw_id wait \<notin> tw_id ` set rest" using * by simp
    then have "tw_id w \<noteq> tw_id wait" using that by (metis imageI)
    then show ?thesis using * that by simp
  qed
qed

lemma queues_okD:
  "queues_ok s \<Longrightarrow> entry \<in> set (wait_queue s ob) \<longleftrightarrow>
     (\<exists>wait \<in> set (th_waits (threads s (fst entry))). (ob, entry) \<in> set (wait_entries (fst entry) wait))"
  unfolding queues_ok_def by blast

lemma in_queue_of_waiter:
  assumes "queues_ok s" and "th_waits (threads s t) = wait # rest" and "ob \<in> set (tw_queues wait)"
  shows "\<exists>w i. (t, w, i) \<in> set (wait_queue s ob)"
proof -
  obtain i where "i < length (tw_queues wait)" "tw_queues wait ! i = ob" using assms(3) by (auto simp: in_set_conv_nth)
  then have "(t, tw_id wait, i) \<in> set (wait_queue s ob)" using assms(1,2) by (auto simp: queues_ok_def in_wait_entries)
  then show ?thesis by blast
qed

text \<open>The invariant looks at these parts of the state only.\<close>

definition same_sync :: "sync_state \<Rightarrow> sync_state \<Rightarrow> bool" where
  "same_sync s' s \<longleftrightarrow> syncs s' = syncs s \<and> wait_queue s' = wait_queue s \<and> next_wait s' = next_wait s \<and> sync_failed s' = sync_failed s \<and>
     (\<forall>t. th_waits (threads s' t) = th_waits (threads s t) \<and> th_mutex_list (threads s' t) = th_mutex_list (threads s t))"

lemma sync_inv_same: "same_sync s' s \<Longrightarrow> sync_inv s' = sync_inv s"
  by (simp add: same_sync_def sync_inv_def mutexes_ok_def counts_ok_def lists_ok_def sems_ok_def waits_ok_def queues_ok_def)

lemma signaled_same: "syncs s' = syncs s \<Longrightarrow> object_sync_signaled s' t ob = object_sync_signaled s t ob"
  by (simp add: object_sync_signaled_def)

section \<open>Ending a wait\<close>

lemma takeable_waiter:
  assumes inv: "sync_inv s" and w: "th_waits (threads s t) \<noteq> []" and sig: "object_sync_signaled s t ob"
  shows "takeable (syncs s ob)"
proof (cases "syncs s ob")
  case (Mutex_Sync mutex)
  have "mx_count mutex + 1 \<noteq> 0"
  proof (cases "mx_count mutex = 0")
    case False
    then have "mx_owner mutex = Some t" using sig Mutex_Sync by (simp add: object_sync_signaled_def mutex_sync_signaled_def)
    then have "unat (mx_count mutex) + length (th_waits (threads s t)) < 2 ^ 32"
      using inv Mutex_Sync by (simp add: sync_inv_def counts_ok_def)
    then have "Suc (unat (mx_count mutex)) < 2 ^ 32" using w by (cases "th_waits (threads s t)") auto
    then have "unat (mx_count mutex + 1) = Suc (unat (mx_count mutex))" by (simp add: unat_plus_if')
    then show ?thesis by (metis nat.distinct(1) unat_0)
  qed simp
  then show ?thesis using Mutex_Sync by (simp add: takeable_def)
qed (simp_all add: takeable_def)

definition pop_wait :: "tid \<Rightarrow> sync_state \<Rightarrow> sync_state" where
  "pop_wait t s = upd_thread t (\<lambda>th. th\<lparr>th_waits := tl (th_waits th)\<rparr>) s
     \<lparr>wait_queue := \<lambda>ob. filter (\<lambda>e. (ob, e) \<notin> set (wait_entries t (hd (th_waits (threads s t))))) (wait_queue s ob)\<rparr>"

lemma pop_wait_sel [simp]:
  "syncs (pop_wait t s) = syncs s"
  "threads (pop_wait t s) t' = (if t' = t then (threads s t)\<lparr>th_waits := tl (th_waits (threads s t))\<rparr> else threads s t')"
  "wait_queue (pop_wait t s) ob = filter (\<lambda>e. (ob, e) \<notin> set (wait_entries t (hd (th_waits (threads s t))))) (wait_queue s ob)"
  "current_time (pop_wait t s) = current_time s" "monotonic_time (pop_wait t s) = monotonic_time s"
  "next_wait (pop_wait t s) = next_wait s" "wakeups (pop_wait t s) = wakeups s" "sync_failed (pop_wait t s) = sync_failed s"
  by (simp_all add: pop_wait_def upd_thread_def)

lemma fold_remove_sel:
  "syncs (fold (\<lambda>(ob, entry). remove_queue ob entry) es s) = syncs s"
  "current_time (fold (\<lambda>(ob, entry). remove_queue ob entry) es s) = current_time s"
  "monotonic_time (fold (\<lambda>(ob, entry). remove_queue ob entry) es s) = monotonic_time s"
  "next_wait (fold (\<lambda>(ob, entry). remove_queue ob entry) es s) = next_wait s"
  "wakeups (fold (\<lambda>(ob, entry). remove_queue ob entry) es s) = wakeups s"
  "sync_failed (fold (\<lambda>(ob, entry). remove_queue ob entry) es s) = sync_failed s"
  by (induction es arbitrary: s) (auto simp: remove_queue_def)

lemma end_wait_form:
  assumes inv: "sync_inv s" and w: "th_waits (threads s t) = wait # rest"
    and sig: "\<And>ob. ob \<in> set (consumed wait st) \<Longrightarrow> object_sync_signaled s t ob"
  shows "fst (end_wait t st s) = take_all t (consumed wait st) (pop_wait t s)"
proof -
  let ?s1 = "upd_thread t (\<lambda>th. th\<lparr>th_waits := rest\<rparr>) s"
  note ok = waits_okD(1) [OF inv w]
  have same: "syncs ?s1 = syncs s" by (simp add: upd_thread_def)
  have "mutexes_ok ?s1" using inv same by (simp add: sync_inv_def mutexes_ok_def)
  moreover have "distinct (consumed wait st)" using ok by (auto simp: consumed_def wait_ok_def)
  moreover have "object_sync_signaled ?s1 t ob \<and> takeable (syncs ?s1 ob)" if "ob \<in> set (consumed wait st)" for ob
    using sig [OF that] takeable_waiter [OF inv _ sig [OF that]] w same signaled_same [OF same] by simp
  ultimately have f: "fst (satisfy_wait t wait st ?s1) = take_all t (consumed wait st) ?s1" by (rule satisfy_wait_take)
  obtain ab where sw: "satisfy_wait t wait st ?s1 = (take_all t (consumed wait st) ?s1, ab)" using f by (metis prod.collapse)
  let ?r = "fold (\<lambda>(ob, entry). remove_queue ob entry) (wait_entries t wait) (take_all t (consumed wait st) ?s1)"
  have "fst (end_wait t st s) = ?r" unfolding end_wait_def w list.case Let_def sw by simp
  also have "?r = take_all t (consumed wait st) (pop_wait t s)"
  proof (rule sync_state.equality)
    show "syncs ?r = syncs (take_all t (consumed wait st) (pop_wait t s))" by (intro ext) (simp add: fold_remove_sel same)
    show "wait_queue ?r = wait_queue (take_all t (consumed wait st) (pop_wait t s))"
      by (intro ext) (simp add: fold_remove_queues w upd_thread_def)
    show "threads ?r = threads (take_all t (consumed wait st) (pop_wait t s))"
      by (intro ext) (simp add: fold_remove_threads w same, simp add: upd_thread_def)
  qed (simp_all add: fold_remove_sel upd_thread_def)
  finally show ?thesis .
qed

lemma pop_wait_inv:
  assumes inv: "sync_inv s" and w: "th_waits (threads s t) = wait # rest"
  shows "sync_inv (pop_wait t s)"
proof -
  note i = inv [unfolded sync_inv_def]
  have "mutexes_ok (pop_wait t s)" "lists_ok (pop_wait t s)" "sems_ok (pop_wait t s)"
    using i by (simp_all add: mutexes_ok_def lists_ok_def sems_ok_def)
  moreover have "counts_ok (pop_wait t s)"
    unfolding counts_ok_def
  proof (intro allI conjI impI)
    fix t'
    have le: "length (th_waits (threads (pop_wait t s) t')) \<le> length (th_waits (threads s t'))" by simp
    show "length (th_waits (threads (pop_wait t s) t')) < 2 ^ 32" using i le by (meson counts_ok_def le_less_trans)
    fix ob mutex assume "syncs (pop_wait t s) ob = Mutex_Sync mutex" "mx_owner mutex = Some t'"
    then have "unat (mx_count mutex) + length (th_waits (threads s t')) < 2 ^ 32" using i by (simp add: counts_ok_def)
    then show "unat (mx_count mutex) + length (th_waits (threads (pop_wait t s) t')) < 2 ^ 32" using le by linarith
  qed
  moreover have "waits_ok (pop_wait t s)" using i w waits_okD [OF inv w] by (simp add: waits_ok_def)
  moreover have "queues_ok (pop_wait t s)"
    unfolding queues_ok_def
  proof (intro allI)
    fix ob entry
    have ids: "tw_id w' \<noteq> tw_id wait" if "w' \<in> set rest" for w' using waits_okD(3) [OF inv w that] by simp
    show "entry \<in> set (wait_queue (pop_wait t s) ob) \<longleftrightarrow>
      (\<exists>wait \<in> set (th_waits (threads (pop_wait t s) (fst entry))). (ob, entry) \<in> set (wait_entries (fst entry) wait))"
    proof (cases "fst entry = t")
      case True
      have "entry \<in> set (wait_queue s ob) \<longleftrightarrow> (ob, entry) \<in> set (wait_entries t wait) \<or> (\<exists>w' \<in> set rest. (ob, entry) \<in> set (wait_entries t w'))"
        using queues_okD [of s entry ob] i True w by auto
      moreover have "\<not> ((ob, entry) \<in> set (wait_entries t wait) \<and> (\<exists>w' \<in> set rest. (ob, entry) \<in> set (wait_entries t w')))"
        unfolding in_wait_entries using ids by (metis prod.inject)
      ultimately show ?thesis using True w by auto
    next
      case False
      then have "(ob, entry) \<notin> set (wait_entries t wait)" by (auto simp: in_wait_entries)
      then show ?thesis using queues_okD [of s entry ob] False i w by simp
    qed
  qed
  ultimately show ?thesis using i by (simp add: sync_inv_def)
qed

lemma signaled_mutex:
  assumes "mutexes_ok s" and "syncs s ob = Mutex_Sync mutex" and "object_sync_signaled s t ob"
  shows "(mx_count mutex = 0 \<and> mx_owner mutex = None) \<or> (mx_count mutex \<noteq> 0 \<and> mx_owner mutex = Some t)"
  using assms by (auto simp: mutexes_ok_def object_sync_signaled_def mutex_sync_signaled_def)

lemma take_all_lists_ok:
  assumes mx: "mutexes_ok s" and lists: "lists_ok s" and dist: "distinct C"
    and sig: "\<And>ob. ob \<in> set C \<Longrightarrow> object_sync_signaled s t ob"
  shows "lists_ok (take_all t C s)"
proof -
  have ml: "ob \<in> set (th_mutex_list (threads s u)) \<longleftrightarrow> (\<exists>m. syncs s ob = Mutex_Sync m \<and> mx_owner m = Some u)" for ob u
    using lists by (simp add: lists_ok_def)
  have free: "ob \<notin> set (th_mutex_list (threads s u))" if "free_mutex (syncs s ob)" for ob u
    using that mx ml by (auto simp: free_mutex_def mutexes_ok_def split: sync.splits)
  have "distinct (th_mutex_list (threads (take_all t C s) u))" for u
  proof -
    have d: "distinct (th_mutex_list (threads s v))" for v using lists by (simp add: lists_ok_def)
    have "set (filter (\<lambda>ob. free_mutex (syncs s ob)) C) \<inter> set (th_mutex_list (threads s v)) = {}" for v using free by auto
    then show ?thesis using d dist by simp
  qed
  moreover have "ob \<in> set (th_mutex_list (threads (take_all t C s) u)) \<longleftrightarrow>
      (\<exists>m. syncs (take_all t C s) ob = Mutex_Sync m \<and> mx_owner m = Some u)" for ob u
  proof (cases "ob \<in> set C")
    case True
    show ?thesis
    proof (cases "syncs s ob")
      case (Mutex_Sync m)
      then show ?thesis using signaled_mutex [OF mx Mutex_Sync sig [OF True]] True by (auto simp: ml free_mutex_def)
    qed (simp_all add: True ml free_mutex_def)
  qed (simp add: ml)
  ultimately show ?thesis by (simp add: lists_ok_def)
qed

lemma take_all_inv:
  assumes inv: "sync_inv s" and dist: "distinct C" and sig: "\<And>ob. ob \<in> set C \<Longrightarrow> object_sync_signaled s t ob"
    and room: "length (th_waits (threads s t)) + 1 < 2 ^ 32"
    and mroom: "\<And>ob mutex. syncs s ob = Mutex_Sync mutex \<Longrightarrow> mx_owner mutex = Some t \<Longrightarrow>
      unat (mx_count mutex) + length (th_waits (threads s t)) + 1 < 2 ^ 32"
  shows "sync_inv (take_all t C s)"
proof -
  note i = inv [unfolded sync_inv_def]
  have mx: "mutexes_ok s" using i by simp
  have count: "unat (mx_count mutex + 1) = unat (mx_count mutex) + 1 \<and> unat (mx_count mutex) + length (th_waits (threads s t)) + 1 < 2 ^ 32"
    if "ob \<in> set C" "syncs s ob = Mutex_Sync mutex" for ob mutex
  proof -
    have *: "unat (mx_count mutex) + length (th_waits (threads s t)) + 1 < 2 ^ 32"
      using signaled_mutex [OF mx that(2) sig [OF that(1)]] mroom [OF that(2)] room by auto
    then have "unat (mx_count mutex) + 1 < 2 ^ 32" by linarith
    then show ?thesis using * by (simp add: unat_plus_if')
  qed
  have "mutexes_ok (take_all t C s)"
  proof (rule take_all_mutexes_ok [OF mx])
    fix ob assume ob: "ob \<in> set C"
    show "takeable (syncs s ob)"
    proof (cases "syncs s ob")
      case (Mutex_Sync mutex)
      have "mx_count mutex + 1 \<noteq> 0" using count [OF ob Mutex_Sync] by (metis add_is_0 one_neq_zero unat_0)
      then show ?thesis using Mutex_Sync by (simp add: takeable_def)
    qed (simp_all add: takeable_def)
  qed
  moreover have "counts_ok (take_all t C s)"
    unfolding counts_ok_def
  proof (intro allI conjI impI)
    fix t'
    show "length (th_waits (threads (take_all t C s) t')) < 2 ^ 32" using i by (simp add: counts_ok_def)
    fix ob mutex assume m: "syncs (take_all t C s) ob = Mutex_Sync mutex" and own: "mx_owner mutex = Some t'"
    show "unat (mx_count mutex) + length (th_waits (threads (take_all t C s) t')) < 2 ^ 32"
    proof (cases "ob \<in> set C")
      case True
      then obtain m0 where m0: "syncs s ob = Mutex_Sync m0" using m by (cases "syncs s ob") auto
      then have "mutex = \<lparr>mx_owner = Some t, mx_count = mx_count m0 + 1, mx_abandoned = False\<rparr>" using m True by simp
      then show ?thesis using count [OF True m0] own by simp
    next
      case False
      then show ?thesis using m own i by (simp add: counts_ok_def)
    qed
  qed
  moreover have "sems_ok (take_all t C s)"
    unfolding sems_ok_def
  proof (intro allI impI)
    fix ob sem assume m: "syncs (take_all t C s) ob = Semaphore_Sync sem"
    show "sem_count sem \<le> sem_max sem"
    proof (cases "ob \<in> set C")
      case True
      then obtain m0 where m0: "syncs s ob = Semaphore_Sync m0" using m by (cases "syncs s ob") auto
      then have pos: "sem_count m0 \<noteq> 0" using sig [OF True] by (simp add: object_sync_signaled_def semaphore_sync_signaled_def)
      have "sem_count m0 \<le> sem_max m0" using i m0 by (simp add: sems_ok_def)
      moreover have "sem_count m0 - 1 \<le> sem_count m0" using pos by (simp add: word_le_nat_alt unat_minus_one)
      moreover have "sem = m0\<lparr>sem_count := sem_count m0 - 1\<rparr>" using m m0 True by simp
      ultimately show ?thesis by simp
    next
      case False
      then show ?thesis using m i by (simp add: sems_ok_def)
    qed
  qed
  moreover have "waits_ok (take_all t C s)" "queues_ok (take_all t C s)" using i by (simp_all add: waits_ok_def queues_ok_def)
  moreover have "lists_ok (take_all t C s)" using take_all_lists_ok [OF mx _ dist sig] i by simp
  ultimately show ?thesis using i by (simp add: sync_inv_def)
qed

text \<open>The state has fewer signaled objects than before.\<close>

definition fewer :: "sync_state \<Rightarrow> sync_state \<Rightarrow> bool" where
  "fewer s' s \<longleftrightarrow> (\<forall>t ob. object_sync_signaled s' t ob \<longrightarrow> object_sync_signaled s t ob) \<and>
     current_time s' = current_time s \<and> monotonic_time s' = monotonic_time s"

lemma fewer_refl [simp]: "fewer s s"
  by (simp add: fewer_def)

lemma fewer_trans: "fewer s'' s' \<Longrightarrow> fewer s' s \<Longrightarrow> fewer s'' s"
  by (auto simp: fewer_def)

definition at_rest :: "sync_state \<Rightarrow> tid \<Rightarrow> bool" where
  "at_rest s t \<longleftrightarrow> wait_status t s = None"

lemma at_rest_fewer: "at_rest s t \<Longrightarrow> fewer s' s \<Longrightarrow> threads s' t = threads s t \<Longrightarrow> at_rest s' t"
  unfolding at_rest_def wait_status_def fewer_def by (auto intro: wait_cond_mono)

lemma end_wait_spec:
  assumes inv: "sync_inv s" and w: "th_waits (threads s t) = wait # rest"
    and sig: "\<And>ob. ob \<in> set (consumed wait st) \<Longrightarrow> object_sync_signaled s t ob"
  shows "sync_inv (fst (end_wait t st s))" and "fewer (fst (end_wait t st s)) s"
    and "\<And>ob. syncs (fst (end_wait t st s)) ob = (if ob \<in> set (consumed wait st) then taken t (syncs s ob) else syncs s ob)"
    and "\<And>t'. t' \<noteq> t \<Longrightarrow> threads (fst (end_wait t st s)) t' = threads s t'"
    and "th_waits (threads (fst (end_wait t st s)) t) = rest"
    and "\<exists>ml. threads (fst (end_wait t st s)) t = (threads s t)\<lparr>th_waits := rest, th_mutex_list := ml\<rparr>"
    and "next_wait (fst (end_wait t st s)) = next_wait s"
proof -
  have form: "fst (end_wait t st s) = take_all t (consumed wait st) (pop_wait t s)" by (rule end_wait_form [OF inv w]) (rule sig)
  note i = inv [unfolded sync_inv_def]
  have same: "syncs (pop_wait t s) = syncs s" by simp
  have sig': "object_sync_signaled (pop_wait t s) t ob" if "ob \<in> set (consumed wait st)" for ob
    using sig [OF that] signaled_same [OF same] by simp
  have cnt: "length (th_waits (threads s t)) < 2 ^ 32"
    "\<And>ob mutex. syncs s ob = Mutex_Sync mutex \<Longrightarrow> mx_owner mutex = Some t \<Longrightarrow> unat (mx_count mutex) + length (th_waits (threads s t)) < 2 ^ 32"
    using i by (simp_all add: counts_ok_def)
  have "distinct (consumed wait st)" using waits_okD(1) [OF inv w] by (auto simp: consumed_def wait_ok_def)
  then show "sync_inv (fst (end_wait t st s))"
    unfolding form by (intro take_all_inv pop_wait_inv [OF inv w] sig') (use cnt w in auto)
  have "takeable (syncs s ob)" if "ob \<in> set (consumed wait st)" for ob using takeable_waiter [OF inv _ sig [OF that]] w by simp
  moreover have "mutexes_ok (pop_wait t s)" using i by (simp add: mutexes_ok_def)
  ultimately have "object_sync_signaled (pop_wait t s) t' ob" if "object_sync_signaled (fst (end_wait t st s)) t' ob" for t' ob
    using taken_signaled [of "pop_wait t s" "consumed wait st" t t' ob] sig' that unfolding form by simp
  then show "fewer (fst (end_wait t st s)) s"
    unfolding fewer_def signaled_same [OF same] by (simp add: form)
  show "\<exists>ml. threads (fst (end_wait t st s)) t = (threads s t)\<lparr>th_waits := rest, th_mutex_list := ml\<rparr>"
    unfolding form using w by auto
  show "syncs (fst (end_wait t st s)) ob = (if ob \<in> set (consumed wait st) then taken t (syncs s ob) else syncs s ob)" for ob
    by (simp add: form)
  show "t' \<noteq> t \<Longrightarrow> threads (fst (end_wait t st s)) t' = threads s t'" for t' by (simp add: form)
qed (simp_all add: end_wait_form [OF inv w] sig w)

section \<open>Waking up a thread\<close>

lemma check_wait_same: "same_sync (fst (check_wait t s)) s \<or> th_waits (threads s t) = []"
  "t' \<noteq> t \<Longrightarrow> threads (fst (check_wait t s)) t' = threads s t'"
  "current_time (fst (check_wait t s)) = current_time s" "monotonic_time (fst (check_wait t s)) = monotonic_time s"
  "syncs (fst (check_wait t s)) = syncs s"
  by (simp_all add: check_wait_def same_sync_def upd_thread_def sync_fail_def)

lemma send_thread_wakeup_same: "same_sync (send_thread_wakeup t cookie st s) s"
  "t' \<noteq> t \<Longrightarrow> threads (send_thread_wakeup t cookie st s) t' = threads s t'"
  "current_time (send_thread_wakeup t cookie st s) = current_time s"
  "monotonic_time (send_thread_wakeup t cookie st s) = monotonic_time s"
  "syncs (send_thread_wakeup t cookie st s) = syncs s"
  by (auto simp: send_thread_wakeup_def same_sync_def upd_thread_def Let_def split: option.split)

lemma fewer_same: "syncs s' = syncs s \<Longrightarrow> current_time s' = current_time s \<Longrightarrow> monotonic_time s' = monotonic_time s \<Longrightarrow> fewer s' s"
  by (simp add: fewer_def object_sync_signaled_def)

lemma wake_round_spec:
  assumes inv: "sync_inv s" and r: "wake_round t s = Some s'"
  obtains wait rest st where "th_waits (threads s t) = wait # rest" and "wait_status t s = Some st" and "sync_inv s'" and "fewer s' s"
    and "\<And>t'. t' \<noteq> t \<Longrightarrow> threads s' t' = threads s t'"
    and "\<And>ob. syncs s' ob = (if ob \<in> set (consumed wait st) then taken t (syncs s ob) else syncs s ob)"
proof -
  obtain wait rest where w: "th_waits (threads s t) = wait # rest" using r by (cases "th_waits (threads s t)") (auto simp: wake_round_def)
  obtain s1 st where c: "check_wait t s = (s1, Some st)"
    using r w by (cases "check_wait t s") (auto simp: wake_round_def split: option.splits)
  obtain s2 st' where e: "end_wait t st s1 = (s2, st')" by fastforce
  have st: "wait_status t s = Some st" using c w by (simp add: check_wait_def)
  have s': "s' = s2 \<or> s' = send_thread_wakeup t (tw_cookie wait) st' s2" using r w c e by (auto simp: wake_round_def)
  note cs = check_wait_same(1,3-5) [of t s, unfolded c fst_conv] check_wait_same(2) [of _ t s, unfolded c fst_conv]
  have same: "same_sync s1 s" using cs(1) w by simp
  then have inv1: "sync_inv s1" and w1: "th_waits (threads s1 t) = wait # rest"
    using sync_inv_same inv w by (auto simp: same_sync_def)
  have sig: "object_sync_signaled s1 t ob" if "ob \<in> set (consumed wait st)" for ob
    using wait_cond_consumed(3) [OF waits_okD(1) [OF inv w] w st [unfolded wait_status_def] that] signaled_same [OF cs(4)] by simp
  note ew = end_wait_spec [OF inv1 w1, of st, unfolded e fst_conv]
  have inv': "sync_inv s'" using s' ew(1) [OF sig] sync_inv_same [OF send_thread_wakeup_same(1)] by auto
  have sy: "syncs s' = syncs s2" using s' send_thread_wakeup_same(5) by auto
  have "fewer s2 s1" by (rule ew(2)) (rule sig)
  moreover have "fewer s' s2" using s' by (auto intro!: fewer_same simp: send_thread_wakeup_same)
  moreover have "fewer s1 s" by (rule fewer_same) (use cs in auto)
  ultimately have "fewer s' s" by (blast intro: fewer_trans)
  moreover have "threads s' t' = threads s t'" if "t' \<noteq> t" for t'
    using s' ew(4) [OF sig that] cs(5) [OF that] send_thread_wakeup_same(2) [OF that] by auto
  moreover have "syncs s' ob = (if ob \<in> set (consumed wait st) then taken t (syncs s ob) else syncs s ob)" for ob
    using ew(3) [OF sig] cs(4) by (simp add: sy)
  ultimately show ?thesis using that w st inv' by blast
qed

lemma wake_round_rest: "wake_round t s = None \<longleftrightarrow> at_rest s t"
proof (cases "th_waits (threads s t)")
  case Nil
  then show ?thesis by (simp add: wake_round_def at_rest_def wait_status_def wait_cond_def)
next
  case (Cons wait rest)
  then show ?thesis by (auto simp: wake_round_def at_rest_def check_wait_def Let_def split: option.split prod.split)
qed

lemma wake_thread_spec:
  assumes "sync_inv s"
  shows "sync_inv (fst (wake_thread t s))" and "fewer (fst (wake_thread t s)) s"
    and "t' \<noteq> t \<Longrightarrow> threads (fst (wake_thread t s)) t' = threads s t'"
    and "at_rest (fst (wake_thread t s)) t"
proof -
  have "sync_inv s \<longrightarrow> sync_inv (fst (wake_thread t s)) \<and> fewer (fst (wake_thread t s)) s \<and>
    (t' \<noteq> t \<longrightarrow> threads (fst (wake_thread t s)) t' = threads s t') \<and> at_rest (fst (wake_thread t s)) t"
  proof (induction s rule: wake_thread_induct [of t])
    case (None s)
    then show ?case by (simp add: wake_thread_None wake_round_rest)
  next
    case (Some s s')
    show ?case
    proof
      assume inv: "sync_inv s"
      obtain "sync_inv s'" "fewer s' s" "t' \<noteq> t \<Longrightarrow> threads s' t' = threads s t'"
        by (rule wake_round_spec [OF inv Some(1)]) blast
      then show "sync_inv (fst (wake_thread t s)) \<and> fewer (fst (wake_thread t s)) s \<and>
        (t' \<noteq> t \<longrightarrow> threads (fst (wake_thread t s)) t' = threads s t') \<and> at_rest (fst (wake_thread t s)) t"
        using Some fewer_trans by (auto simp: wake_thread_Some)
    qed
  qed
  then show "sync_inv (fst (wake_thread t s))" "fewer (fst (wake_thread t s)) s"
    "t' \<noteq> t \<Longrightarrow> threads (fst (wake_thread t s)) t' = threads s t'" "at_rest (fst (wake_thread t s)) t"
    using assms by auto
qed

section \<open>Waking up the threads that wait for an object\<close>

text \<open>Objects that can satisfy a limited number of waits: auto-reset events and semaphores.\<close>

definition limited :: "sync \<Rightarrow> bool" where
  "limited y \<longleftrightarrow> (case y of Event_Sync event \<Rightarrow> \<not> ev_manual event | Semaphore_Sync sem \<Rightarrow> True | Mutex_Sync mutex \<Rightarrow> False)"

definition available :: "sync \<Rightarrow> nat" where
  "available y = (case y of Event_Sync event \<Rightarrow> (if ev_signaled event then 1 else 0) | Semaphore_Sync sem \<Rightarrow> unat (sem_count sem) | Mutex_Sync mutex \<Rightarrow> 0)"

lemma limited_taken: "limited (taken t y) = limited y"
  by (cases y) (auto simp: limited_def event_sync_satisfied_def)

lemma limited_signaled: "limited (syncs s ob) \<Longrightarrow> object_sync_signaled s t ob \<longleftrightarrow> 0 < available (syncs s ob)"
  by (auto simp: limited_def available_def object_sync_signaled_def event_sync_signaled_def semaphore_sync_signaled_def
      unat_gt_0 word_neq_0_conv split: sync.splits)

lemma available_taken:
  assumes "limited y" and "0 < available y"
  shows "available (taken t y) = available y - 1"
proof (cases y)
  case (Event_Sync event)
  then show ?thesis using assms by (simp add: limited_def available_def event_sync_satisfied_def)
next
  case (Semaphore_Sync sem)
  then have "sem_count sem \<noteq> 0" using assms(2) by (auto simp: available_def)
  then show ?thesis using Semaphore_Sync by (simp add: available_def unat_minus_one)
next
  case (Mutex_Sync mutex)
  then show ?thesis using assms by (simp add: limited_def)
qed

lemma wake_round_available:
  assumes inv: "sync_inv s" and r: "wake_round t s = Some s'" and lim: "limited (syncs s ob)"
  shows "limited (syncs s' ob)" and "available (syncs s' ob) \<le> available (syncs s ob)"
    and "wait_cond (threads s t) (\<lambda>o'. o' \<noteq> ob \<and> object_sync_signaled s t o') (current_time s) (monotonic_time s) = None \<Longrightarrow>
      available (syncs s' ob) < available (syncs s ob)"
proof -
  obtain wait rest st where w: "th_waits (threads s t) = wait # rest" and st: "wait_status t s = Some st"
    and sy: "\<And>ob. syncs s' ob = (if ob \<in> set (consumed wait st) then taken t (syncs s ob) else syncs s ob)"
    by (rule wake_round_spec [OF inv r]) blast
  note c = wait_cond_consumed [OF waits_okD(1) [OF inv w] w st [unfolded wait_status_def]]
  have pos: "0 < available (syncs s ob)" if "ob \<in> set (consumed wait st)"
    using c(3) [OF that] limited_signaled [OF lim] by simp
  show "limited (syncs s' ob)" using lim by (simp add: sy limited_taken)
  show "available (syncs s' ob) \<le> available (syncs s ob)" using available_taken [OF lim pos] by (simp add: sy)
  assume "wait_cond (threads s t) (\<lambda>o'. o' \<noteq> ob \<and> object_sync_signaled s t o') (current_time s) (monotonic_time s) = None"
  then have "ob \<in> set (consumed wait st)" by (rule c(4)) simp
  then show "available (syncs s' ob) < available (syncs s ob)" using available_taken [OF lim pos] pos by (simp add: sy)
qed

lemma wake_thread_available:
  assumes "sync_inv s" and "limited (syncs s ob)"
  shows "limited (syncs (fst (wake_thread t s)) ob)" and "available (syncs (fst (wake_thread t s)) ob) \<le> available (syncs s ob)"
    and "snd (wake_thread t s) \<noteq> 0 \<Longrightarrow>
      wait_cond (threads s t) (\<lambda>o'. o' \<noteq> ob \<and> object_sync_signaled s t o') (current_time s) (monotonic_time s) = None \<Longrightarrow>
      available (syncs (fst (wake_thread t s)) ob) < available (syncs s ob)"
proof -
  have less: "sync_inv s \<longrightarrow> limited (syncs s ob) \<longrightarrow> limited (syncs (fst (wake_thread t s)) ob) \<and>
    available (syncs (fst (wake_thread t s)) ob) \<le> available (syncs s ob)" for s
  proof (induction s rule: wake_thread_induct [of t])
    case (Some s s')
    show ?case
    proof (intro impI)
      assume inv: "sync_inv s" and lim: "limited (syncs s ob)"
      have "sync_inv s'" by (rule wake_round_spec [OF inv Some(1)])
      then show "limited (syncs (fst (wake_thread t s)) ob) \<and> available (syncs (fst (wake_thread t s)) ob) \<le> available (syncs s ob)"
        using wake_round_available(1,2) [OF inv Some(1) lim] Some(2) by (auto simp: wake_thread_Some [OF Some(1)])
    qed
  qed (simp add: wake_thread_None)
  then show "limited (syncs (fst (wake_thread t s)) ob)" "available (syncs (fst (wake_thread t s)) ob) \<le> available (syncs s ob)"
    using assms by auto
  assume n: "snd (wake_thread t s) \<noteq> 0" and none: "wait_cond (threads s t) (\<lambda>o'. o' \<noteq> ob \<and> object_sync_signaled s t o') (current_time s) (monotonic_time s) = None"
  obtain s' where r: "wake_round t s = Some s'" using n by (cases "wake_round t s") (auto simp: wake_thread_None)
  have "sync_inv s'" by (rule wake_round_spec [OF assms(1) r])
  then show "available (syncs (fst (wake_thread t s)) ob) < available (syncs s ob)"
    using less [of s'] wake_round_available [OF assms(1) r assms(2)] none by (auto simp: wake_thread_Some [OF r])
qed

text \<open>A thread that would be at rest if the object were not signaled.\<close>

definition rest_without :: "oid \<Rightarrow> sync_state \<Rightarrow> tid \<Rightarrow> bool" where
  "rest_without ob s t \<longleftrightarrow>
     wait_cond (threads s t) (\<lambda>o'. o' \<noteq> ob \<and> object_sync_signaled s t o') (current_time s) (monotonic_time s) = None"

lemma rest_without_fewer: "rest_without ob s t \<Longrightarrow> fewer s' s \<Longrightarrow> threads s' t = threads s t \<Longrightarrow> rest_without ob s' t"
  unfolding rest_without_def fewer_def by (auto elim!: wait_cond_mono)

lemma at_rest_without: "at_rest s t \<Longrightarrow> rest_without ob s t"
  unfolding rest_without_def at_rest_def wait_status_def by (erule wait_cond_mono) auto

lemma rest_without_unsignaled: "rest_without ob s t \<Longrightarrow> \<not> object_sync_signaled s t ob \<Longrightarrow> at_rest s t"
  unfolding rest_without_def at_rest_def wait_status_def by (erule wait_cond_mono) auto

lemma rest_without_not_waiting:
  assumes inv: "sync_inv s" and rest: "rest_without ob s t" and out: "t \<notin> fst ` set (wait_queue s ob)"
  shows "at_rest s t"
  unfolding at_rest_def wait_status_def
proof (rule wait_cond_mono [OF rest [unfolded rest_without_def]])
  fix o' assume w: "th_waits (threads s t) \<noteq> []" and o': "o' \<in> set (tw_queues (hd (th_waits (threads s t))))" and sig: "object_sync_signaled s t o'"
  have "queues_ok s" using inv by (simp add: sync_inv_def)
  then obtain w' i where "(t, w', i) \<in> set (wait_queue s o')"
    using in_queue_of_waiter [of s t "hd (th_waits (threads s t))" "tl (th_waits (threads s t))" o'] w o' by auto
  then have "o' \<noteq> ob" using out by (force intro: rev_image_eqI)
  then show "o' \<noteq> ob \<and> object_sync_signaled s t o'" using sig by simp
qed

text \<open>
  \<open>T\<close> are the threads of interest, among them those in the queue. A limit on the number of threads must
  not be smaller than the number of waits that the object can satisfy.
\<close>

lemma wake_pass_spec:
  assumes "sync_inv s" and "\<And>t. t \<in> T \<Longrightarrow> rest_without ob s t" and "\<And>t. t \<in> T \<Longrightarrow> t \<notin> fst ` set es \<Longrightarrow> at_rest s t"
    and "set es \<subseteq> set (wait_queue s ob)" and "fst ` set (wait_queue s ob) \<subseteq> T"
    and "m = 0 \<or> (limited (syncs s ob) \<and> available (syncs s ob) \<le> m)"
  shows "sync_inv (wake_pass ob m es s) \<and> fewer (wake_pass ob m es s) s \<and>
    (\<forall>t \<in> T. at_rest (wake_pass ob m es s) t) \<and> (\<forall>t. t \<notin> T \<longrightarrow> threads (wake_pass ob m es s) t = threads s t)"
  using assms
proof (induction ob m es s rule: wake_pass.induct)
  case (1 ob m s)
  then show ?case by auto
next
  case (2 ob m t w i es s)
  obtain s' n where wt: "wake_thread t s = (s', n)" by fastforce
  note spec = wake_thread_spec(1,2,4) [OF 2(3), of t, unfolded wt fst_conv] wake_thread_spec(3) [OF 2(3), of _ t, unfolded wt fst_conv]
  have tT: "t \<in> T" using 2(6,7) by force
  note rw = 2(4) [OF tT]
  show ?case
  proof (cases "n = 0")
    case True
    have s': "s' = s" using wake_thread_0 [of t s] wt True by simp
    have "at_rest s t' " if "t' \<in> T" "t' \<notin> fst ` set es" for t'
      using 2(5) [OF that(1)] that(2) spec(3) s' by (cases "t' = t") auto
    then show ?thesis using 2(1) [OF wt [symmetric] True] 2(3,4,6-8) wt True s' by simp
  next
    case n: False
    have less: "limited (syncs s' ob) \<and> available (syncs s' ob) < available (syncs s ob)" if "limited (syncs s ob)"
      using wake_thread_available [OF 2(3) that, of t] wt n rw by (simp add: rest_without_def)
    have rw': "rest_without ob s' t'" if "t' \<in> T" for t'
      using that spec(3) at_rest_without rest_without_fewer [OF 2(4) [OF that] spec(2)] spec(4) by (cases "t' = t") auto
    have out: "threads s' t' = threads s t'" if "t' \<notin> T" for t' by (rule spec(4)) (use that tT in auto)
    show ?thesis
    proof (cases "m = 1")
      case True
      then have lim: "limited (syncs s ob)" "available (syncs s ob) \<le> 1" using 2(8) by auto
      have "\<not> object_sync_signaled s' t' ob" for t' using less [OF lim(1)] lim(2) limited_signaled [of s' ob t'] by simp
      then have "at_rest s' t'" if "t' \<in> T" for t' using rw' [OF that] rest_without_unsignaled by blast
      then show ?thesis using spec(1,2) out wt n True by simp
    next
      case False
      have q: "fst ` set (wait_queue s' ob) \<subseteq> T" using wake_thread_queue_subset [of t s ob] wt 2(7) by auto
      have rest: "at_rest s' t'" if "t' \<in> T" "t' \<notin> fst ` set (wait_queue s' ob)" for t'
        by (rule rest_without_not_waiting [OF spec(1) rw' [OF that(1)] that(2)])
      have "m - 1 = 0 \<or> (limited (syncs s' ob) \<and> available (syncs s' ob) \<le> m - 1)" using 2(8) less by fastforce
      then have "sync_inv (wake_pass ob (m - 1) (wait_queue s' ob) s') \<and> fewer (wake_pass ob (m - 1) (wait_queue s' ob) s') s' \<and>
          (\<forall>t \<in> T. at_rest (wake_pass ob (m - 1) (wait_queue s' ob) s') t) \<and>
          (\<forall>t. t \<notin> T \<longrightarrow> threads (wake_pass ob (m - 1) (wait_queue s' ob) s') t = threads s' t)"
        by (intro 2(2) [OF wt [symmetric] n False spec(1)]) (use rw' rest q in auto)
      then show ?thesis using wt n False out spec(2) by (auto intro: fewer_trans)
    qed
  qed
qed

lemma wake_up_spec:
  assumes inv: "sync_inv s" and rw: "\<And>t. t \<in> T \<Longrightarrow> rest_without ob s t" and q: "fst ` set (wait_queue s ob) \<subseteq> T"
    and m: "m = 0 \<or> (limited (syncs s ob) \<and> available (syncs s ob) \<le> m)"
  shows "sync_inv (wake_up ob m s)" and "fewer (wake_up ob m s) s" and "\<And>t. t \<in> T \<Longrightarrow> at_rest (wake_up ob m s) t"
    and "\<And>t. t \<notin> T \<Longrightarrow> threads (wake_up ob m s) t = threads s t"
  using wake_pass_spec [OF inv rw _ subset_refl q m] rest_without_not_waiting [OF inv rw] unfolding wake_up_def by blast+

end
