(* ===== verification/Sync_Steps.thy ===== *)
theory Sync_Steps
  imports Sync_Correct
begin

text \<open>
  The requests on synchronization objects as steps of the server, and that every step keeps the invariant
  and leaves every thread at rest.
\<close>

section \<open>Changing an object\<close>

definition is_mutex :: "sync \<Rightarrow> bool" where
  "is_mutex y \<longleftrightarrow> (case y of Mutex_Sync mutex \<Rightarrow> True | _ \<Rightarrow> False)"

lemma set_sync_sel [simp]:
  "syncs (set_sync ob y s) o' = (if o' = ob then y else syncs s o')" "wait_queue (set_sync ob y s) = wait_queue s"
  "threads (set_sync ob y s) = threads s" "current_time (set_sync ob y s) = current_time s"
  "monotonic_time (set_sync ob y s) = monotonic_time s" "next_wait (set_sync ob y s) = next_wait s"
  "sync_failed (set_sync ob y s) = sync_failed s"
  by (simp_all add: set_sync_def)

lemma set_sync_inv:
  assumes inv: "sync_inv s" and old: "\<not> is_mutex (syncs s ob)" and new: "\<not> is_mutex y"
    and sem: "\<And>sem. y = Semaphore_Sync sem \<Longrightarrow> sem_count sem \<le> sem_max sem"
  shows "sync_inv (set_sync ob y s)"
proof -
  note i = inv [unfolded sync_inv_def]
  have nm: "y \<noteq> Mutex_Sync m" "syncs s ob \<noteq> Mutex_Sync m" for m using old new by (auto simp: is_mutex_def)
  have "mutexes_ok (set_sync ob y s)" "counts_ok (set_sync ob y s)" using i nm by (auto simp: mutexes_ok_def counts_ok_def)
  moreover have "lists_ok (set_sync ob y s)" using i nm by (auto simp: lists_ok_def)
  moreover have "sems_ok (set_sync ob y s)" using i sem by (auto simp: sems_ok_def)
  moreover have "waits_ok (set_sync ob y s)" "queues_ok (set_sync ob y s)" using i by (simp_all add: waits_ok_def queues_ok_def)
  ultimately show ?thesis using i by (simp add: sync_inv_def)
qed

lemma rest_without_set_sync [simp]: "rest_without ob (set_sync ob y s) t = rest_without ob s t"
proof -
  have "(\<lambda>o'. o' \<noteq> ob \<and> object_sync_signaled (set_sync ob y s) t o') = (\<lambda>o'. o' \<noteq> ob \<and> object_sync_signaled s t o')"
    by (auto simp: object_sync_signaled_def)
  then show ?thesis by (simp add: rest_without_def)
qed

lemma fewer_set_sync:
  assumes "\<And>t. object_sync_signaled (set_sync ob y s) t ob \<Longrightarrow> object_sync_signaled s t ob"
  shows "fewer (set_sync ob y s) s"
  unfolding fewer_def
proof (intro conjI allI impI)
  fix t o' assume "object_sync_signaled (set_sync ob y s) t o'"
  then show "object_sync_signaled s t o'" using assms by (cases "o' = ob") (auto simp: object_sync_signaled_def)
qed simp_all

text \<open>
  What a request keeps: the invariant, the rest of the threads in \<open>T\<close>, which are all threads that wait for
  the object, and the other threads.
\<close>

definition keeps_rest :: "tid set \<Rightarrow> sync_state \<Rightarrow> sync_state \<Rightarrow> bool" where
  "keeps_rest T s s' \<longleftrightarrow> sync_inv s' \<and> (\<forall>t \<in> T. at_rest s' t) \<and> (\<forall>t. t \<notin> T \<longrightarrow> threads s' t = threads s t) \<and>
     current_time s' = current_time s \<and> monotonic_time s' = monotonic_time s"

lemma wake_up_keeps:
  assumes "sync_inv (set_sync ob y s)" and "\<And>t. t \<in> T \<Longrightarrow> at_rest s t" and "fst ` set (wait_queue s ob) \<subseteq> T"
    and "m = 0 \<or> (limited y \<and> available y \<le> m)"
  shows "keeps_rest T s (wake_up ob m (set_sync ob y s))"
proof -
  have rw: "rest_without ob (set_sync ob y s) t" if "t \<in> T" for t using assms(2) [OF that] by (simp add: at_rest_without)
  have q: "fst ` set (wait_queue (set_sync ob y s) ob) \<subseteq> T" using assms(3) by simp
  have m: "m = 0 \<or> limited (syncs (set_sync ob y s) ob) \<and> available (syncs (set_sync ob y s) ob) \<le> m" using assms(4) by simp
  note w = wake_up_spec [OF assms(1) rw q m]
  show ?thesis using w(1-4) by (auto simp: keeps_rest_def fewer_def)
qed

lemma set_sync_keeps:
  assumes "sync_inv (set_sync ob y s)" and "\<And>t. t \<in> T \<Longrightarrow> at_rest s t"
    and "\<And>t. object_sync_signaled (set_sync ob y s) t ob \<Longrightarrow> object_sync_signaled s t ob"
  shows "keeps_rest T s (set_sync ob y s)"
  using assms(1) at_rest_fewer [OF assms(2) fewer_set_sync [OF assms(3)]] by (auto simp: keeps_rest_def)

section \<open>Events and semaphores\<close>

lemma event_sync_signal_keeps:
  assumes inv: "sync_inv s" and ob: "syncs s ob = Event_Sync event" and rest: "\<And>t. t \<in> T \<Longrightarrow> at_rest s t"
    and q: "fst ` set (wait_queue s ob) \<subseteq> T"
  shows "keeps_rest T s (event_sync_signal ob event b s)"
proof -
  have i: "sync_inv (set_sync ob (Event_Sync (event\<lparr>ev_signaled := b\<rparr>)) s)"
    by (rule set_sync_inv [OF inv]) (simp_all add: is_mutex_def ob)
  show ?thesis
  proof (cases b)
    case True
    have "keeps_rest T s (wake_up ob (if ev_manual event then 0 else 1) (set_sync ob (Event_Sync (event\<lparr>ev_signaled := b\<rparr>)) s))"
      by (rule wake_up_keeps [OF i rest q]) (auto simp: limited_def available_def)
    then show ?thesis using True by (simp add: event_sync_signal_def)
  next
    case False
    have "keeps_rest T s (set_sync ob (Event_Sync (event\<lparr>ev_signaled := b\<rparr>)) s)"
      by (rule set_sync_keeps [OF i rest]) (simp_all add: object_sync_signaled_def event_sync_signaled_def False)
    then show ?thesis using False by (simp add: event_sync_signal_def)
  qed
qed

lemma release_semaphore_keeps:
  assumes inv: "sync_inv s" and ob: "syncs s ob = Semaphore_Sync sem" and rest: "\<And>t. t \<in> T \<Longrightarrow> at_rest s t"
    and q: "fst ` set (wait_queue s ob) \<subseteq> T"
  shows "keeps_rest T s (fst (release_semaphore ob sem n s))"
proof (cases "sem_count sem + n < sem_count sem \<or> sem_count sem + n > sem_max sem")
  case True
  then show ?thesis using inv rest by (simp add: release_semaphore_def keeps_rest_def)
next
  case False
  then have le: "sem_count sem + n \<le> sem_max sem" "sem_count sem \<le> sem_count sem + n" by auto
  have i: "sync_inv (set_sync ob (Semaphore_Sync (sem\<lparr>sem_count := c\<rparr>)) s)" if "c \<le> sem_max sem" for c
    by (rule set_sync_inv [OF inv]) (use that in \<open>simp_all add: is_mutex_def ob\<close>)
  show ?thesis
  proof (cases "sem_count sem = 0")
    case True
    have "keeps_rest T s (wake_up ob (unat n) (set_sync ob (Semaphore_Sync (sem\<lparr>sem_count := n\<rparr>)) s))"
      by (rule wake_up_keeps [OF i rest q]) (use le True in \<open>simp_all add: limited_def available_def\<close>)
    then show ?thesis using False True by (simp add: release_semaphore_def)
  next
    case nz: False
    have "keeps_rest T s (set_sync ob (Semaphore_Sync (sem\<lparr>sem_count := sem_count sem + n\<rparr>)) s)"
      by (rule set_sync_keeps [OF i [OF le(1)] rest])
        (use nz in \<open>simp_all add: object_sync_signaled_def semaphore_sync_signaled_def ob word_neq_0_conv\<close>)
    then show ?thesis using False nz by (simp add: release_semaphore_def)
  qed
qed

section \<open>Mutexes\<close>

definition drop_mutex :: "oid \<Rightarrow> tid \<Rightarrow> sync_state \<Rightarrow> sync_state" where
  "drop_mutex ob t s = upd_thread t (\<lambda>th. th\<lparr>th_mutex_list := filter (\<lambda>m. m \<noteq> ob) (th_mutex_list th)\<rparr>) s"

lemma drop_mutex_sel [simp]:
  "syncs (drop_mutex ob t s) = syncs s" "wait_queue (drop_mutex ob t s) = wait_queue s"
  "threads (drop_mutex ob t s) t' = (if t' = t then (threads s t)\<lparr>th_mutex_list := filter (\<lambda>m. m \<noteq> ob) (th_mutex_list (threads s t))\<rparr> else threads s t')"
  "current_time (drop_mutex ob t s) = current_time s" "monotonic_time (drop_mutex ob t s) = monotonic_time s"
  "next_wait (drop_mutex ob t s) = next_wait s" "sync_failed (drop_mutex ob t s) = sync_failed s"
  by (simp_all add: drop_mutex_def upd_thread_def)

lemma wait_cond_mutex_list [simp]: "wait_cond (th\<lparr>th_mutex_list := l\<rparr>) sig now mt = wait_cond th sig now mt"
proof (cases "th_waits th")
  case (Cons wait rest)
  then have "th_waits (th\<lparr>th_mutex_list := l\<rparr>) = wait # rest" by simp
  moreover have "early_status (th\<lparr>th_mutex_list := l\<rparr>) wait = early_status th wait"
    "late_status (th\<lparr>th_mutex_list := l\<rparr>) wait now mt = late_status th wait now mt"
    "is_thread_suspended (th\<lparr>th_mutex_list := l\<rparr>) = is_thread_suspended th"
    by (simp_all add: early_status_def late_status_def is_thread_suspended_def)
  ultimately show ?thesis by (simp add: wait_cond_parts Cons split: option.split)
qed (simp add: wait_cond_def)

lemma at_rest_drop_mutex [simp]: "at_rest (drop_mutex ob t s) t' = at_rest s t'"
  by (simp add: at_rest_def wait_status_def object_sync_signaled_def [abs_def])

lemma mutex_freed_inv:
  assumes inv: "sync_inv s" and ob: "syncs s ob = Mutex_Sync mutex" and own: "mx_owner mutex = Some t"
    and free: "mx_count m' = 0" "mx_owner m' = None"
  shows "sync_inv (set_sync ob (Mutex_Sync m') (drop_mutex ob t s))"
proof -
  let ?s = "set_sync ob (Mutex_Sync m') (drop_mutex ob t s)"
  note i = inv [unfolded sync_inv_def]
  have "mutexes_ok ?s" "counts_ok ?s" "sems_ok ?s" "waits_ok ?s" "queues_ok ?s"
    using i free by (auto simp: mutexes_ok_def counts_ok_def sems_ok_def waits_ok_def queues_ok_def)
  moreover have "lists_ok ?s"
  proof -
    have l: "distinct (th_mutex_list (threads s u))"
      "o' \<in> set (th_mutex_list (threads s u)) \<longleftrightarrow> (\<exists>m. syncs s o' = Mutex_Sync m \<and> mx_owner m = Some u)" for u o'
      using i by (simp_all add: lists_ok_def)
    have "ob \<notin> set (th_mutex_list (threads s u))" if "u \<noteq> t" for u using l(2) ob own that by auto
    then show ?thesis unfolding lists_ok_def using l free by auto
  qed
  ultimately show ?thesis using i by (simp add: sync_inv_def)
qed

lemma mutex_count_inv:
  assumes inv: "sync_inv s" and ob: "syncs s ob = Mutex_Sync mutex" and own: "mx_owner mutex = Some t"
    and m': "mx_owner m' = Some t" "mx_count m' \<noteq> 0" "unat (mx_count m') \<le> unat (mx_count mutex)"
  shows "sync_inv (set_sync ob (Mutex_Sync m') s)"
proof -
  let ?s = "set_sync ob (Mutex_Sync m') s"
  note i = inv [unfolded sync_inv_def]
  have "mutexes_ok ?s" "sems_ok ?s" "waits_ok ?s" "queues_ok ?s"
    using i m' by (auto simp: mutexes_ok_def sems_ok_def waits_ok_def queues_ok_def)
  moreover have "counts_ok ?s"
  proof -
    have c: "length (th_waits (threads s u)) < 2 ^ 32"
      "syncs s o' = Mutex_Sync m \<Longrightarrow> mx_owner m = Some u \<Longrightarrow> unat (mx_count m) + length (th_waits (threads s u)) < 2 ^ 32" for u o' m
      using i by (simp_all add: counts_ok_def)
    have "unat (mx_count m') + length (th_waits (threads s t)) < 2 ^ 32" using c(2) [OF ob own] m'(3) by linarith
    then show ?thesis unfolding counts_ok_def using c m'(1) by (auto split: if_splits)
  qed
  moreover have "lists_ok ?s" unfolding lists_ok_def
  proof (intro allI conjI)
    fix u show "distinct (th_mutex_list (threads ?s u))" using i by (simp add: lists_ok_def)
    fix o' show "o' \<in> set (th_mutex_list (threads ?s u)) \<longleftrightarrow> (\<exists>m. syncs ?s o' = Mutex_Sync m \<and> mx_owner m = Some u)"
      using i ob own m'(1) by (simp add: lists_ok_def)
  qed
  ultimately show ?thesis using i by (simp add: sync_inv_def)
qed

text \<open>
  Releasing a mutex \<open>n\<close> times. The mutex may have been marked as abandoned before. The state that \<open>keeps_rest\<close>
  starts from has the mutex removed from the list of the thread, if it is released for good.
\<close>

lemma do_release_keeps:
  assumes inv: "sync_inv s" and ob: "syncs s ob = Mutex_Sync m0" and m: "mutex = m0\<lparr>mx_abandoned := ab\<rparr>"
    and n: "mx_owner m0 = Some t \<Longrightarrow> n \<noteq> 0 \<and> n \<le> mx_count m0"
    and rest: "\<And>t. t \<in> T \<Longrightarrow> at_rest s t" and q: "fst ` set (wait_queue s ob) \<subseteq> T"
  shows "keeps_rest T (if mx_owner m0 = Some t \<and> n = mx_count m0 then drop_mutex ob t s else s) (fst (do_release ob mutex t n s))"
proof (cases "mx_owner m0 = Some t")
  case False
  then show ?thesis using inv rest by (simp add: do_release_def m keeps_rest_def)
next
  case own: True
  have cnt: "mx_count m0 \<noteq> 0" using inv ob own by (simp add: sync_inv_def mutexes_ok_def)
  show ?thesis
  proof (cases "n = mx_count m0")
    case True
    let ?m = "m0\<lparr>mx_abandoned := ab, mx_count := 0, mx_owner := None\<rparr>"
    have "keeps_rest T (drop_mutex ob t s) (wake_up ob 0 (set_sync ob (Mutex_Sync ?m) (drop_mutex ob t s)))"
      by (rule wake_up_keeps [OF mutex_freed_inv [OF inv ob own]]) (use rest q in simp_all)
    then show ?thesis using True own cnt by (simp add: do_release_def m drop_mutex_def)
  next
    case False
    let ?m = "m0\<lparr>mx_abandoned := ab, mx_count := mx_count m0 - n\<rparr>"
    have nz: "mx_count m0 - n \<noteq> 0" using False by simp
    have "unat (mx_count m0 - n) \<le> unat (mx_count m0)" using n [OF own] by (simp add: unat_sub word_le_nat_alt)
    then have "sync_inv (set_sync ob (Mutex_Sync ?m) s)" by (intro mutex_count_inv [OF inv ob own]) (use own nz in simp_all)
    then have "keeps_rest T s (set_sync ob (Mutex_Sync ?m) s)"
      by (rule set_sync_keeps) (use rest nz own in \<open>auto simp: object_sync_signaled_def mutex_sync_signaled_def ob\<close>)
    then show ?thesis using False own cnt nz by (simp add: do_release_def m)
  qed
qed

section \<open>Waits\<close>

text \<open>The invariant looks at these fields of a wait only.\<close>

definition wait_core :: "thread_wait \<Rightarrow> nat \<times> select_opcode \<times> oid list" where
  "wait_core wait = (tw_id wait, tw_select wait, tw_queues wait)"

lemma wait_core_eqD:
  "wait_core w = wait_core w' \<Longrightarrow> tw_id w = tw_id w' \<and> wait_ok w = wait_ok w' \<and> wait_entries t w = wait_entries t w'"
  by (simp add: wait_core_def wait_ok_def wait_entries_def)

lemma same_cores:
  assumes "map wait_core xs = map wait_core ys" and "x \<in> set xs"
  obtains y where "y \<in> set ys" "wait_core x = wait_core y"
proof -
  have "wait_core x \<in> set (map wait_core ys)" using assms by (metis image_eqI set_map)
  then show ?thesis using that by auto
qed

lemma bex_entries_cores:
  assumes "map wait_core xs = map wait_core ys" and "\<exists>w \<in> set xs. e \<in> set (wait_entries t w)"
  shows "\<exists>w \<in> set ys. e \<in> set (wait_entries t w)"
proof -
  obtain x where x: "x \<in> set xs" "e \<in> set (wait_entries t x)" using assms(2) by blast
  then obtain y where "y \<in> set ys" "wait_core x = wait_core y" by (rule_tac same_cores [OF assms(1)])
  then show ?thesis using x(2) wait_core_eqD [of x y t] by auto
qed

lemma sync_inv_cores:
  assumes inv: "sync_inv s" and eq: "syncs s' = syncs s" "wait_queue s' = wait_queue s" "next_wait s' = next_wait s" "sync_failed s' = sync_failed s"
    and th: "\<And>t. th_mutex_list (threads s' t) = th_mutex_list (threads s t) \<and>
      map wait_core (th_waits (threads s' t)) = map wait_core (th_waits (threads s t))"
  shows "sync_inv s'"
proof -
  note i = inv [unfolded sync_inv_def]
  have len: "length (th_waits (threads s' t)) = length (th_waits (threads s t))" for t using th by (metis length_map)
  have core: "map wait_core (th_waits (threads s' t)) = map wait_core (th_waits (threads s t))" for t using th by blast
  have ids: "map tw_id (th_waits (threads s' t)) = map tw_id (th_waits (threads s t))" for t
  proof -
    have "map (fst \<circ> wait_core) (th_waits (threads s' t)) = map (fst \<circ> wait_core) (th_waits (threads s t))"
      by (simp only: map_map [symmetric] core)
    then show ?thesis by (simp add: wait_core_def comp_def)
  qed
  have "mutexes_ok s'" "counts_ok s'" "lists_ok s'" "sems_ok s'"
    using i eq th len by (simp_all add: mutexes_ok_def counts_ok_def lists_ok_def sems_ok_def)
  moreover have "waits_ok s'"
    unfolding waits_ok_def
  proof (intro allI conjI ballI)
    fix t show "distinct (map tw_id (th_waits (threads s' t)))" using i by (simp add: ids waits_ok_def)
    fix w assume "w \<in> set (th_waits (threads s' t))"
    then obtain w' where "w' \<in> set (th_waits (threads s t))" "wait_core w = wait_core w'" by (rule same_cores [OF core])
    then show "wait_ok w" "tw_id w < next_wait s'" using i eq wait_core_eqD [of w w'] by (auto simp: waits_ok_def)
  qed
  moreover have "queues_ok s'"
    unfolding queues_ok_def
  proof (intro allI)
    fix ob entry
    have "(\<exists>w \<in> set (th_waits (threads s' t)). (ob, entry) \<in> set (wait_entries t w)) \<longleftrightarrow>
        (\<exists>w \<in> set (th_waits (threads s t)). (ob, entry) \<in> set (wait_entries t w))" for t
      using bex_entries_cores [OF core [of t]] bex_entries_cores [OF core [of t, symmetric]] by blast
    then show "entry \<in> set (wait_queue s' ob) \<longleftrightarrow>
        (\<exists>w \<in> set (th_waits (threads s' (fst entry))). (ob, entry) \<in> set (wait_entries (fst entry) w))"
      using queues_okD [of s entry ob] i eq by simp
  qed
  ultimately show ?thesis using i eq by (simp add: sync_inv_def)
qed

text \<open>A new wait. The guard keeps the recursion counts of mutexes from overflowing.\<close>

definition wait_room :: "sync_state \<Rightarrow> tid \<Rightarrow> bool" where
  "wait_room s t \<longleftrightarrow> length (th_waits (threads s t)) + 1 < 2 ^ 32 \<and>
     (\<forall>ob mutex. syncs s ob = Mutex_Sync mutex \<longrightarrow> mx_owner mutex = Some t \<longrightarrow>
        unat (mx_count mutex) + length (th_waits (threads s t)) + 1 < 2 ^ 32)"

lemma fold_add_sel:
  "syncs (fold (\<lambda>(ob, entry). add_queue ob entry) es s) = syncs s" "threads (fold (\<lambda>(ob, entry). add_queue ob entry) es s) = threads s"
  "current_time (fold (\<lambda>(ob, entry). add_queue ob entry) es s) = current_time s"
  "monotonic_time (fold (\<lambda>(ob, entry). add_queue ob entry) es s) = monotonic_time s"
  "next_wait (fold (\<lambda>(ob, entry). add_queue ob entry) es s) = next_wait s"
  "sync_failed (fold (\<lambda>(ob, entry). add_queue ob entry) es s) = sync_failed s"
  by (induction es arbitrary: s) (auto simp: add_queue_def)

lemma fold_add_queue:
  "set (wait_queue (fold (\<lambda>(ob, entry). add_queue ob entry) es s) ob) = set (wait_queue s ob) \<union> {e. (ob, e) \<in> set es}"
proof (induction es arbitrary: s)
  case (Cons x es)
  obtain o' e where x: "x = (o', e)" by (cases x)
  have "set (wait_queue (add_queue o' e s) ob) = set (wait_queue s ob) \<union> (if ob = o' then {e} else {})" by (simp add: add_queue_def)
  then show ?case using Cons [of "add_queue o' e s"] by (auto simp: x split: if_splits)
qed simp

lemma wait_on_spec:
  assumes inv: "sync_inv s" and room: "wait_room s t" and len: "length obs \<le> MAXIMUM_WAIT_OBJECTS"
    and dist: "op = SELECT_WAIT_ALL \<longrightarrow> distinct obs" and res: "wait_on mem_ok t op obs flags wh s = Inr s1"
  obtains wait where "threads s1 = (threads s)(t := (threads s t)\<lparr>th_waits := wait # th_waits (threads s t)\<rparr>)"
    and "tw_queues wait = obs" and "tw_flags wait = flags" and "tw_select wait = op" and "sync_inv s1" and "syncs s1 = syncs s"
    and "current_time s1 = current_time s" and "monotonic_time s1 = monotonic_time s"
    and "\<And>ob. fst ` set (wait_queue s1 ob) \<subseteq> fst ` set (wait_queue s ob) \<union> (if ob \<in> set obs then {t} else {})"
proof -
  define wait where "wait = \<lparr>tw_id = next_wait s, tw_flags = flags, tw_abandoned = False, tw_select = op, tw_cookie = 0,
    tw_when = wh, tw_user = False, tw_queues = obs\<rparr>"
  define s0 where "s0 = upd_thread t (\<lambda>th. th\<lparr>th_waits := wait # th_waits th\<rparr>) (s\<lparr>next_wait := next_wait s + 1\<rparr>)"
  have s1: "s1 = fold (\<lambda>(ob, entry). add_queue ob entry) (wait_entries t wait) s0"
    using res by (simp add: wait_on_def Let_def wait_def s0_def split: if_splits)
  note sel = fold_add_sel [of "wait_entries t wait" s0, folded s1] fold_add_queue [of "wait_entries t wait" s0, folded s1]
  have s0: "syncs s0 = syncs s" "wait_queue s0 = wait_queue s" "next_wait s0 = next_wait s + 1" "sync_failed s0 = sync_failed s"
    "threads s0 = (threads s)(t := (threads s t)\<lparr>th_waits := wait # th_waits (threads s t)\<rparr>)"
    "current_time s0 = current_time s" "monotonic_time s0 = monotonic_time s"
    by (simp_all add: s0_def upd_thread_def)
  note i = inv [unfolded sync_inv_def]
  have "mutexes_ok s1" "lists_ok s1" "sems_ok s1" using i by (simp_all add: sel s0 mutexes_ok_def lists_ok_def sems_ok_def)
  moreover have "counts_ok s1" using i room by (auto simp: counts_ok_def wait_room_def sel s0)
  moreover have "waits_ok s1"
  proof -
    have w: "distinct (map tw_id (th_waits (threads s u)))" "\<forall>x \<in> set (th_waits (threads s u)). wait_ok x \<and> tw_id x < next_wait s" for u
      using i by (simp_all add: waits_ok_def)
    have new: "wait_ok wait" "tw_id wait = next_wait s" using len dist by (simp_all add: wait_ok_def wait_def)
    have "next_wait s \<notin> tw_id ` set (th_waits (threads s t))" using w(2) [of t] by (metis imageE less_irrefl)
    moreover have "tw_id x < next_wait s + 1" if "x \<in> set (th_waits (threads s u))" for x u using w(2) [of u] that by fastforce
    ultimately show ?thesis using w new by (simp add: waits_ok_def sel s0)
  qed
  moreover have "queues_ok s1"
    unfolding queues_ok_def
  proof (intro allI)
    fix ob entry
    have "(ob, entry) \<in> set (wait_entries t wait) \<Longrightarrow> fst entry = t" by (auto simp: in_wait_entries)
    then show "entry \<in> set (wait_queue s1 ob) \<longleftrightarrow>
        (\<exists>w \<in> set (th_waits (threads s1 (fst entry))). (ob, entry) \<in> set (wait_entries (fst entry) w))"
      using queues_okD [of s entry ob] i by (cases "fst entry = t") (auto simp: sel s0)
  qed
  ultimately have "sync_inv s1" using i by (simp add: sync_inv_def sel s0)
  moreover have "fst ` set (wait_queue s1 ob) \<subseteq> fst ` set (wait_queue s ob) \<union> (if ob \<in> set obs then {t} else {})" for ob
    by (auto simp: sel s0 in_wait_entries wait_def)
  ultimately show ?thesis using that [of wait] by (simp add: sel s0) (simp add: wait_def)
qed

text \<open>Waking up threads only ends waits.\<close>

lemma wake_thread_waits: "set (th_waits (threads (fst (wake_thread t s)) t')) \<subseteq> set (th_waits (threads s t'))"
proof (induction s rule: wake_thread_induct [of t])
  case (Some s s')
  have "set (th_waits (threads s' t')) \<subseteq> set (th_waits (threads s t'))"
    using wake_round_waits [OF Some(1), of t'] by (auto dest: list.set_sel(2) split: if_splits)
  then show ?case using Some by (simp add: wake_thread_Some)
qed (simp add: wake_thread_None)

lemma wake_pass_waits: "set (th_waits (threads (wake_pass ob m es s) t')) \<subseteq> set (th_waits (threads s t'))"
proof (induction ob m es s rule: wake_pass.induct)
  case (2 ob m t w i es s)
  obtain s' n where wt: "wake_thread t s = (s', n)" by fastforce
  have "set (th_waits (threads s' t')) \<subseteq> set (th_waits (threads s t'))" using wake_thread_waits [of t s t'] wt by simp
  then show ?case using 2(1) [OF wt [symmetric]] 2(2) [OF wt [symmetric]] wt by (simp split: if_splits) blast
qed simp

lemma wake_up_waits: "set (th_waits (threads (wake_up ob m s) t')) \<subseteq> set (th_waits (threads s t'))"
  unfolding wake_up_def by (rule wake_pass_waits)

lemma wake_up_set_sync_waits: "x \<in> set (th_waits (threads (wake_up ob m (set_sync ob y s)) t')) \<Longrightarrow> x \<in> set (th_waits (threads s t'))"
  using wake_up_waits [of ob m "set_sync ob y s" t'] by auto

lemma event_sync_signal_waits: "set (th_waits (threads (event_sync_signal ob event b s) t')) \<subseteq> set (th_waits (threads s t'))"
  by (auto simp: event_sync_signal_def Let_def dest: wake_up_set_sync_waits)

lemma release_semaphore_waits: "set (th_waits (threads (fst (release_semaphore ob sem n s)) t')) \<subseteq> set (th_waits (threads s t'))"
  by (auto simp: release_semaphore_def dest: wake_up_set_sync_waits)

lemma do_release_waits: "set (th_waits (threads (fst (do_release ob mutex t n s)) t')) \<subseteq> set (th_waits (threads s t'))"
  by (auto simp: do_release_def Let_def drop_mutex_def [symmetric] dest: wake_up_set_sync_waits split: if_splits)

definition cookies_ok :: "sync_state \<Rightarrow> bool" where
  "cookies_ok s \<longleftrightarrow> (\<forall>t. \<forall>wait \<in> set (th_waits (threads s t)). tw_cookie wait \<noteq> 0)"

lemma cookies_ok_subset: "cookies_ok s \<Longrightarrow> (\<And>t. set (th_waits (threads s' t)) \<subseteq> set (th_waits (threads s t))) \<Longrightarrow> cookies_ok s'"
  unfolding cookies_ok_def by blast

text \<open>The invariant between requests.\<close>

definition settled :: "sync_state \<Rightarrow> bool" where
  "settled s \<longleftrightarrow> sync_inv s \<and> (\<forall>t. at_rest s t) \<and> cookies_ok s"

lemma keeps_rest_settled:
  assumes "keeps_rest UNIV s s'" and "cookies_ok s0" and "\<And>t. set (th_waits (threads s' t)) \<subseteq> set (th_waits (threads s0 t))"
  shows "settled s'"
  using assms cookies_ok_subset by (auto simp: settled_def keeps_rest_def)

lemma end_wait_settled:
  assumes inv: "sync_inv s" and w: "th_waits (threads s t) = wait # rest"
    and sig: "\<And>ob. ob \<in> set (consumed wait st) \<Longrightarrow> object_sync_signaled s t ob"
    and others: "\<And>t'. t' \<noteq> t \<Longrightarrow> at_rest s t'"
    and outer: "rest = [] \<or> wait_cond ((threads s t)\<lparr>th_waits := rest\<rparr>) (object_sync_signaled s t) (current_time s) (monotonic_time s) = None"
    and cookies: "\<And>t'. t' \<noteq> t \<Longrightarrow> \<forall>wait \<in> set (th_waits (threads s t')). tw_cookie wait \<noteq> 0" "\<forall>wait \<in> set rest. tw_cookie wait \<noteq> 0"
  shows "settled (fst (end_wait t st s))"
proof -
  let ?s = "fst (end_wait t st s)"
  note e = end_wait_spec [OF inv w, of st, OF sig]
  obtain ml where th: "threads ?s t = (threads s t)\<lparr>th_waits := rest, th_mutex_list := ml\<rparr>" using e(6) by blast
  have few: "fewer ?s s" by (rule e(2))
  have "at_rest ?s t"
  proof (cases "rest = []")
    case True
    then show ?thesis by (simp add: at_rest_def wait_status_def th wait_cond_def)
  next
    case False
    then have "wait_cond (threads ?s t) (object_sync_signaled s t) (current_time s) (monotonic_time s) = None" using outer by (simp add: th)
    then show ?thesis unfolding at_rest_def wait_status_def using few by (auto simp: fewer_def intro: wait_cond_mono)
  qed
  moreover have "at_rest ?s t'" if "t' \<noteq> t" for t' by (rule at_rest_fewer [OF others [OF that] few e(4) [OF _ that]])
  moreover have "cookies_ok ?s" unfolding cookies_ok_def
  proof
    fix t' show "\<forall>wait \<in> set (th_waits (threads ?s t')). tw_cookie wait \<noteq> 0"
      using cookies e(4) [of t'] by (cases "t' = t") (simp_all add: th)
  qed
  ultimately show ?thesis using e(1) by (metis settled_def)
qed

end
