(* ===== verification/Sync_Select.thy ===== *)
theory Sync_Select
  imports Sync_Steps
begin

text \<open>
  Select requests, timeouts and the end of waits: each leaves every thread at rest, as long as time stands
  still.
\<close>

section \<open>Select\<close>

lemma not_suspended_status:
  assumes ok: "wait_ok wait" and w: "th_waits th = wait # rest" and flags: "tw_flags wait AND SELECT_COOPERATIVE_SUSPEND = 0"
    and st: "wait_cond th sig now mt = Some st"
  shows "st \<noteq> STATUS_THREAD_WAS_SUSPENDED"
proof -
  have early: "early_status th wait \<noteq> Some STATUS_THREAD_WAS_SUSPENDED" using flags by (auto simp: early_status_def)
  have late: "late_status th wait now mt \<noteq> Some STATUS_THREAD_WAS_SUSPENDED" by (auto simp: late_status_def)
  have "word_of_nat i \<noteq> STATUS_THREAD_WAS_SUSPENDED" if "signaled_index sig wait = Some i" for i
  proof -
    have "i < 65" using that ok by (auto simp: signaled_index_def wait_ok_def find_Some_iff split: if_splits)
    then have "unat (word_of_nat i :: status) = i" by (simp add: unat_of_nat take_bit_nat_eq_self)
    then show ?thesis using \<open>i < 65\<close> by (auto simp: word_unat_eq_iff)
  qed
  then show ?thesis using st early late unfolding wait_cond_parts [OF w] by (auto split: if_splits option.splits)
qed

lemma wait_cond_cookie:
  assumes w: "th_waits th = wait # rest" and w': "wait' = wait\<lparr>tw_user := u, tw_cookie := c\<rparr>"
  shows "wait_cond (th\<lparr>th_waits := wait' # rest\<rparr>) sig now mt = wait_cond th sig now mt"
proof -
  have "early_status (th\<lparr>th_waits := wait' # rest\<rparr>) wait' = early_status th wait"
    "late_status (th\<lparr>th_waits := wait' # rest\<rparr>) wait' now mt = late_status th wait now mt"
    "is_thread_suspended (th\<lparr>th_waits := wait' # rest\<rparr>) = is_thread_suspended th" "signaled_index sig wait' = signaled_index sig wait"
    by (simp_all add: w' early_status_def late_status_def is_thread_suspended_def signaled_index_def)
  then show ?thesis by (simp add: wait_cond_parts [OF w] wait_cond_parts [of "th\<lparr>th_waits := wait' # rest\<rparr>" wait' rest] split: option.split)
qed

lemma select_check_settled:
  assumes inv: "sync_inv s" and w: "th_waits (threads s t) = wait # rest" and others: "\<And>t'. t' \<noteq> t \<Longrightarrow> at_rest s t'"
    and outer: "wait_cond ((threads s t)\<lparr>th_waits := rest\<rparr>) (object_sync_signaled s t) (current_time s) (monotonic_time s) = None"
    and coop: "rest = [] \<or> tw_flags wait AND SELECT_COOPERATIVE_SUSPEND = 0" and cookie: "cookie \<noteq> 0"
    and cookies: "\<And>t'. t' \<noteq> t \<Longrightarrow> \<forall>wait \<in> set (th_waits (threads s t')). tw_cookie wait \<noteq> 0" "\<forall>wait \<in> set rest. tw_cookie wait \<noteq> 0"
  shows "settled (fst (select_check timer t cookie s))"
proof (cases "wait_status t s")
  case (Some ret)
  define s1 where "s1 = fst (check_wait t s)"
  have chk: "check_wait t s = (s1, Some ret)" using w Some by (simp add: check_wait_def s1_def)
  have s1: "rest = [] \<or> s1 = s"
    using coop not_suspended_status [OF waits_okD(1) [OF inv w] w _ Some [unfolded wait_status_def]] w Some
    by (auto simp: s1_def check_wait_def)
  note cs = check_wait_same(1,3-5) [of t s, folded s1_def] check_wait_same(2) [of _ t s, folded s1_def]
  have same: "same_sync s1 s" using cs(1) w by simp
  have "settled (fst (end_wait t ret s1))"
  proof (rule end_wait_settled)
    show "sync_inv s1" using sync_inv_same [OF same] inv by simp
    show "th_waits (threads s1 t) = wait # rest" using same w by (simp add: same_sync_def)
    show "object_sync_signaled s1 t ob" if "ob \<in> set (consumed wait ret)" for ob
      using wait_cond_consumed(3) [OF waits_okD(1) [OF inv w] w Some [unfolded wait_status_def] that] signaled_same [OF cs(4)] by simp
    show "at_rest s1 t'" if "t' \<noteq> t" for t' by (rule at_rest_fewer [OF others [OF that] fewer_same cs(5) [OF that]]) (use cs in auto)
    show "rest = [] \<or> wait_cond ((threads s1 t)\<lparr>th_waits := rest\<rparr>) (object_sync_signaled s1 t) (current_time s1) (monotonic_time s1) = None"
      using s1 outer by auto
  qed (use cookies same in \<open>auto simp: same_sync_def\<close>)
  then show ?thesis using chk by (cases "end_wait t ret s1") (simp add: select_check_def)
next
  case None
  have chk: "check_wait t s = (s, None)" using w None by (simp add: check_wait_def)
  have ok: "wait_ok wait" by (rule waits_okD(1) [OF inv w])
  show ?thesis
  proof (cases "tw_when wait \<noteq> TIMEOUT_INFINITE \<and> \<not> timer")
    case True
    have "settled (fst (end_wait t STATUS_NO_MEMORY s))"
      by (rule end_wait_settled [OF inv w]) (use ok others outer cookies in \<open>auto simp: consumed_def wait_ok_def\<close>)
    then show ?thesis using True w by (simp add: select_check_def chk)
  next
    case False
    let ?w = "wait\<lparr>tw_user := tw_when wait \<noteq> TIMEOUT_INFINITE, tw_cookie := cookie\<rparr>"
    let ?s = "s\<lparr>threads := (threads s)(t := (threads s t)\<lparr>th_waits := ?w # rest\<rparr>)\<rparr>"
    have res: "fst (select_check timer t cookie s) = ?s" using False w by (auto simp: select_check_def chk upd_thread_def Let_def)
    have "sync_inv ?s" by (rule sync_inv_cores [OF inv]) (simp_all add: w wait_core_def)
    moreover have "at_rest ?s t'" for t'
    proof (cases "t' = t")
      case True
      have "wait_status t ?s = wait_status t s"
        using wait_cond_cookie [OF w refl] by (simp add: wait_status_def object_sync_signaled_def [abs_def])
      then show ?thesis using None True by (simp add: at_rest_def)
    next
      case False
      then show ?thesis by (intro at_rest_fewer [OF others fewer_same]) simp_all
    qed
    moreover have "cookies_ok ?s" unfolding cookies_ok_def using cookies cookie by simp
    ultimately show ?thesis unfolding res settled_def by blast
  qed
qed

lemma settledD:
  "settled s \<Longrightarrow> sync_inv s" "settled s \<Longrightarrow> at_rest s t" "settled s \<Longrightarrow> wait \<in> set (th_waits (threads s t)) \<Longrightarrow> tw_cookie wait \<noteq> 0"
  by (auto simp: settled_def cookies_ok_def)

lemma wait_on_check_settled:
  assumes s: "settled s" and room: "wait_room s t" and len: "length obs \<le> MAXIMUM_WAIT_OBJECTS"
    and dist: "op = SELECT_WAIT_ALL \<longrightarrow> distinct obs" and coop: "th_waits (threads s t) = [] \<or> flags AND SELECT_COOPERATIVE_SUSPEND = 0"
    and cookie: "cookie \<noteq> 0" and res: "wait_on mem_ok t op obs flags wh s = Inr s1"
  shows "settled (fst (select_check timer t cookie s1))"
proof -
  obtain wait where th: "threads s1 = (threads s)(t := (threads s t)\<lparr>th_waits := wait # th_waits (threads s t)\<rparr>)"
    and fl: "tw_flags wait = flags" and inv: "sync_inv s1" and sy: "syncs s1 = syncs s"
    and tm: "current_time s1 = current_time s" "monotonic_time s1 = monotonic_time s"
    by (rule wait_on_spec [OF settledD(1) [OF s] room len dist res]) blast
  show ?thesis
  proof (rule select_check_settled [OF inv _ _ _ _ cookie])
    show "th_waits (threads s1 t) = wait # th_waits (threads s t)" by (simp add: th)
    show "at_rest s1 t'" if "t' \<noteq> t" for t' by (rule at_rest_fewer [OF settledD(2) [OF s] fewer_same [OF sy tm]]) (simp add: th that)
    show "wait_cond ((threads s1 t)\<lparr>th_waits := th_waits (threads s t)\<rparr>) (object_sync_signaled s1 t) (current_time s1) (monotonic_time s1) = None"
      using settledD(2) [OF s, of t] by (simp add: th sy tm at_rest_def wait_status_def object_sync_signaled_def [abs_def])
  qed (use coop fl settledD(3) [OF s] in \<open>auto simp: th\<close>)
qed

lemma signal_object_keeps:
  assumes inv: "sync_inv s" and rest: "\<And>t'. t' \<in> T \<Longrightarrow> at_rest s t'"
    and q: "\<And>ob access. sig h = Inr (ob, access) \<Longrightarrow> fst ` set (wait_queue s ob) \<subseteq> T"
  shows "\<exists>s0. keeps_rest T s0 (fst (signal_object sig t h s)) \<and> (\<forall>t'. \<exists>ml. threads s0 t' = (threads s t')\<lparr>th_mutex_list := ml\<rparr>) \<and>
    current_time s0 = current_time s \<and> monotonic_time s0 = monotonic_time s"
proof -
  have same: "\<forall>t'. \<exists>ml. threads s t' = (threads s t')\<lparr>th_mutex_list := ml\<rparr>"
  proof
    fix t' show "\<exists>ml. threads s t' = (threads s t')\<lparr>th_mutex_list := ml\<rparr>" by (rule exI [of _ "th_mutex_list (threads s t')"]) simp
  qed
  have stay: "keeps_rest T s s" using inv rest by (simp add: keeps_rest_def)
  show ?thesis
  proof (cases "sig h")
    case (Inl err)
    then show ?thesis using stay same by (auto simp: signal_object_def)
  next
    case (Inr p)
    obtain ob access where p: "sig h = Inr (ob, access)" using Inr by (cases p) auto
    show ?thesis
    proof (cases "syncs s ob")
      case (Event_Sync event)
      then show ?thesis using stay same event_sync_signal_keeps [OF inv Event_Sync rest q [OF p]] p
        by (auto simp: signal_object_def event_signal_def)
    next
      case (Semaphore_Sync sem)
      then show ?thesis using stay same release_semaphore_keeps [OF inv Semaphore_Sync rest q [OF p]] p
        by (auto simp: signal_object_def semaphore_signal_def)
    next
      case (Mutex_Sync m)
      have n: "(1 :: u32) \<noteq> 0 \<and> 1 \<le> mx_count m" if "mx_owner m = Some t"
        using inv Mutex_Sync that by (auto simp: sync_inv_def mutexes_ok_def word_le_nat_alt unat_gt_0 Suc_le_eq)
      let ?s0 = "if mx_owner m = Some t \<and> 1 = mx_count m then drop_mutex ob t s else s"
      have rel: "keeps_rest T ?s0 (fst (do_release ob m t 1 s))"
        by (rule do_release_keeps [OF inv Mutex_Sync _ n rest q [OF p], where ab = "mx_abandoned m"]) simp_all
      have "\<forall>t'. \<exists>ml. threads (drop_mutex ob t s) t' = (threads s t')\<lparr>th_mutex_list := ml\<rparr>" using same by auto
      then have s0: "\<forall>t'. \<exists>ml. threads ?s0 t' = (threads s t')\<lparr>th_mutex_list := ml\<rparr>" using same by presburger
      show ?thesis
      proof (cases "access AND SYNC_SYNCHRONIZE = 0")
        case True
        then show ?thesis using p Mutex_Sync stay same by (auto simp: signal_object_def mutex_signal_def)
      next
        case False
        then have "fst (signal_object sig t h s) = fst (do_release ob m t 1 s)"
          using p Mutex_Sync by (simp add: signal_object_def mutex_signal_def)
        then show ?thesis using rel s0 by (intro exI [of _ ?s0]) simp
      qed
    qed
  qed
qed

text \<open>
  What a select request must not do: overflow a recursion count, wait for all of several objects that are
  not distinct, and, inside another wait, signal an object or suspend cooperatively; and the object that
  is signaled is not the one that is waited for.
\<close>

definition select_guard :: "select_env \<Rightarrow> tid \<Rightarrow> select_op \<Rightarrow> u32 \<Rightarrow> sync_state \<Rightarrow> bool" where
  "select_guard env t op flags s \<longleftrightarrow>
     wait_room s t \<and> (th_waits (threads s t) = [] \<or> flags AND SELECT_COOPERATIVE_SUSPEND = 0) \<and>
     (case op of
        Select_Wait_All hs \<Rightarrow> (case lookup_handles (wait_obj env) hs of Inl err \<Rightarrow> True | Inr obs \<Rightarrow> distinct obs)
      | Select_Signal_And_Wait wait_handle signal_handle \<Rightarrow>
          th_waits (threads s t) = [] \<and>
          (case (wait_obj env wait_handle, signal_obj env signal_handle) of (Inr ob, Inr (ob', access)) \<Rightarrow> ob \<noteq> ob' | _ \<Rightarrow> True)
      | _ \<Rightarrow> True)"

lemma lookup_handles_length: "lookup_handles f hs = Inr obs \<Longrightarrow> length obs = length hs"
  by (induction hs arbitrary: obs) (auto split: sum.splits)

lemma not_queued: "sync_inv s \<Longrightarrow> th_waits (threads s t) = [] \<Longrightarrow> t \<notin> fst ` set (wait_queue s ob)"
  using queues_okD [of s _ ob] by (fastforce simp: sync_inv_def)

lemma signal_object_waits: "set (th_waits (threads (fst (signal_object sig t h s)) t')) \<subseteq> set (th_waits (threads s t'))"
proof (cases "sig h")
  case (Inr p)
  then show ?thesis
    using event_sync_signal_waits [of "fst p" _ True s t'] release_semaphore_waits [of "fst p" _ 1 s t'] do_release_waits [of "fst p" _ t 1 s t']
    by (cases p; cases "syncs s (fst p)") (simp_all add: signal_object_def event_signal_def semaphore_signal_def mutex_signal_def)
qed (simp add: signal_object_def)

lemma signal_and_wait_settled:
  assumes s: "settled s" and room: "wait_room s t" and alone: "th_waits (threads s t) = []" and cookie: "cookie \<noteq> 0"
    and res: "wait_on mem_ok t SELECT_SIGNAL_AND_WAIT [wob] flags wh s = Inr s1"
    and diff: "\<And>ob access. sig h = Inr (ob, access) \<Longrightarrow> ob \<noteq> wob" and sg: "signal_object sig t h s1 = (s2, err)"
  shows "th_waits (threads s2 t) \<noteq> []" and "settled (fst (select_check timer t cookie s2))" and "err \<noteq> 0 \<Longrightarrow> settled (fst (end_wait t err s2))"
proof -
  let ?T = "UNIV - {t}"
  obtain wait where th: "threads s1 = (threads s)(t := (threads s t)\<lparr>th_waits := wait # th_waits (threads s t)\<rparr>)"
    and q: "tw_queues wait = [wob]" "tw_select wait = SELECT_SIGNAL_AND_WAIT" and inv: "sync_inv s1" and sy: "syncs s1 = syncs s"
    and tm: "current_time s1 = current_time s" "monotonic_time s1 = monotonic_time s"
    and qs: "\<And>ob. fst ` set (wait_queue s1 ob) \<subseteq> fst ` set (wait_queue s ob) \<union> (if ob \<in> set [wob] then {t} else {})"
    by (rule wait_on_spec [OF settledD(1) [OF s] room _ _ res]) (simp, simp, blast)
  have rest1: "at_rest s1 t'" if "t' \<in> ?T" for t'
    by (rule at_rest_fewer [OF settledD(2) [OF s] fewer_same [OF sy tm]]) (use that in \<open>simp add: th\<close>)
  have q1: "fst ` set (wait_queue s1 ob) \<subseteq> ?T" if "sig h = Inr (ob, access)" for ob access
    using qs [of ob] diff [OF that] not_queued [OF settledD(1) [OF s] alone, of ob] by (auto split: if_splits)
  obtain s0 where k: "keeps_rest ?T s0 s2" and s0: "\<forall>t'. \<exists>ml. threads s0 t' = (threads s1 t')\<lparr>th_mutex_list := ml\<rparr>"
    using signal_object_keeps [of s1 ?T sig h t] inv rest1 q1 sg by auto
  obtain ml where th2: "threads s2 t = (threads s1 t)\<lparr>th_mutex_list := ml\<rparr>" using k s0 by (auto simp: keeps_rest_def)
  have w: "th_waits (threads s2 t) = [wait]" by (simp add: th2 th alone)
  then show "th_waits (threads s2 t) \<noteq> []" by simp
  have inv2: "sync_inv s2" and rest2: "\<And>t'. t' \<noteq> t \<Longrightarrow> at_rest s2 t'" using k by (auto simp: keeps_rest_def)
  have sub: "set (th_waits (threads s2 t')) \<subseteq> set (th_waits (threads s1 t'))" for t'
    using signal_object_waits [of sig t h s1 t'] sg by simp
  have ck: "\<forall>wait \<in> set (th_waits (threads s2 t')). tw_cookie wait \<noteq> 0" if "t' \<noteq> t" for t'
    using sub [of t'] settledD(3) [OF s, of _ t'] that by (auto simp: th)
  show "settled (fst (select_check timer t cookie s2))"
    by (rule select_check_settled [OF inv2 w rest2 _ _ cookie ck]) (simp_all add: wait_cond_def)
  show "settled (fst (end_wait t err s2))" if "err \<noteq> 0"
  proof -
    have "consumed wait err = []" using that q unat_gt_0 [of err] by (simp add: consumed_def)
    then show ?thesis by (intro end_wait_settled [OF inv2 w _ rest2 _ ck]) simp_all
  qed
qed

lemma select_on_settled:
  assumes s: "settled s" and guard: "select_guard env t op flags s" and cookie: "cookie \<noteq> 0"
  shows "settled (fst (select_on env t op cookie flags wh s))"
proof -
  have room: "wait_room s t" and coop: "th_waits (threads s t) = [] \<or> flags AND SELECT_COOPERATIVE_SUSPEND = 0"
    using guard by (simp_all add: select_guard_def)
  have check: "settled (fst (select_check timer t cookie s1))"
    if "wait_on mem t opc obs flags wh s = Inr s1" "length obs \<le> MAXIMUM_WAIT_OBJECTS" "opc = SELECT_WAIT_ALL \<longrightarrow> distinct obs" for timer mem opc obs s1
    by (rule wait_on_check_settled [OF s room that(2,3) coop cookie that(1)])
  have handles: "settled (fst (if length hs > MAXIMUM_WAIT_OBJECTS then (s, True, STATUS_INVALID_PARAMETER)
      else case wait_on_handles (wait_obj env) mem t opc hs flags wh s of Inl err \<Rightarrow> (s, True, err) | Inr s1 \<Rightarrow> select_check timer t cookie s1))"
    if "opc = SELECT_WAIT_ALL \<longrightarrow> (\<forall>obs. lookup_handles (wait_obj env) hs = Inr obs \<longrightarrow> distinct obs)" for hs mem opc timer
    using s that check lookup_handles_length [of "wait_obj env" hs] by (auto simp: wait_on_handles_def split: sum.split)
  show ?thesis
  proof (cases op)
    case Select_None
    then show ?thesis using s check [of _ SELECT_NONE "[]"] by (auto simp: select_on_def split: sum.split)
  next
    case (Select_Wait hs)
    then show ?thesis using handles [of SELECT_WAIT hs] by (simp add: select_on_def Let_def)
  next
    case (Select_Wait_All hs)
    then have "\<forall>obs. lookup_handles (wait_obj env) hs = Inr obs \<longrightarrow> distinct obs" using guard by (simp add: select_guard_def split: sum.splits)
    then show ?thesis using handles [of SELECT_WAIT_ALL hs] Select_Wait_All by (simp add: select_on_def Let_def)
  next
    case (Select_Signal_And_Wait wait_handle signal_handle)
    show ?thesis
    proof (cases "wait_on_handles (wait_obj env) (wait_mem_ok env) t SELECT_SIGNAL_AND_WAIT [wait_handle] flags wh s")
      case (Inl err)
      then show ?thesis using s Select_Signal_And_Wait by (simp add: select_on_def Let_def)
    next
      case (Inr s1)
      then obtain wob where wob: "wait_obj env wait_handle = Inr wob" and on: "wait_on (wait_mem_ok env) t SELECT_SIGNAL_AND_WAIT [wob] flags wh s = Inr s1"
        by (auto simp: wait_on_handles_def split: sum.splits)
      obtain s2 err where sg: "signal_object (signal_obj env) t signal_handle s1 = (s2, err)" by fastforce
      have alone: "th_waits (threads s t) = []" and diff: "\<And>ob access. signal_obj env signal_handle = Inr (ob, access) \<Longrightarrow> ob \<noteq> wob"
        using guard Select_Signal_And_Wait wob by (auto simp: select_guard_def)
      note sw = signal_and_wait_settled [OF s room alone cookie on diff sg]
      show ?thesis using Select_Signal_And_Wait Inr sg sw check [OF on] by (simp add: select_on_def Let_def)
    qed
  next
    case Select_Invalid
    then show ?thesis using s by (simp add: select_on_def)
  qed
qed

section \<open>Timeouts\<close>

lemma end_wait_unsatisfied:
  assumes inv: "sync_inv s" and w: "th_waits (threads s t) = wait # rest" and st: "unat st \<ge> MAXIMUM_WAIT_OBJECTS"
  shows "sync_inv (fst (end_wait t st s))" and "fewer (fst (end_wait t st s)) s"
    and "\<And>t'. t' \<noteq> t \<Longrightarrow> threads (fst (end_wait t st s)) t' = threads s t'" and "th_waits (threads (fst (end_wait t st s)) t) = rest"
proof -
  have "consumed wait st = []" using waits_okD(1) [OF inv w] st by (simp add: consumed_def wait_ok_def)
  then show "sync_inv (fst (end_wait t st s))" "fewer (fst (end_wait t st s)) s"
    "\<And>t'. t' \<noteq> t \<Longrightarrow> threads (fst (end_wait t st s)) t' = threads s t'" "th_waits (threads (fst (end_wait t st s)) t) = rest"
    using end_wait_spec [OF inv w, of st] by simp_all
qed

text \<open>A timer of a thread expires; all other threads are at rest at that time.\<close>

lemma thread_timeout_settled:
  assumes inv: "sync_inv s" and cookies: "cookies_ok s" and others: "\<And>t'. t' \<noteq> t \<Longrightarrow> at_rest s t'"
    and w: "th_waits (threads s t) = wait # rest" and self: "tw_id wait \<noteq> w \<or> is_thread_suspended (threads s t) \<Longrightarrow> at_rest s t"
  shows "settled (thread_timeout t w s)"
proof -
  let ?f = "\<lambda>x. if tw_id x = w then x\<lparr>tw_user := False\<rparr> else x"
  define s1 where "s1 = s\<lparr>threads := (threads s)(t := (threads s t)\<lparr>th_waits := map ?f (wait # rest)\<rparr>)\<rparr>"
  have s1: "upd_thread t (\<lambda>th. th\<lparr>th_waits := map ?f (th_waits th)\<rparr>) s = s1" by (simp add: upd_thread_def s1_def w)
  have f: "tw_id (?f wait) = tw_id wait" "tw_cookie (?f x) = tw_cookie x" for x by simp_all
  have inv1: "sync_inv s1"
    by (rule sync_inv_cores [OF inv]) (simp_all add: s1_def w wait_core_def comp_def cong: map_cong)
  have w1: "th_waits (threads s1 t) = ?f wait # map ?f rest" by (simp add: s1_def)
  have few1: "fewer s1 s" by (rule fewer_same) (simp_all add: s1_def)
  have th1: "threads s1 t' = threads s t'" if "t' \<noteq> t" for t' using that by (simp add: s1_def)
  have ckw: "\<forall>x \<in> set (wait # rest). tw_cookie x \<noteq> 0" using cookies w unfolding cookies_ok_def by metis
  then have ck1: "cookies_ok s1" using cookies by (auto simp: cookies_ok_def s1_def)
  have susp: "is_thread_suspended (threads s1 t) = is_thread_suspended (threads s t)" by (simp add: s1_def is_thread_suspended_def)
  show ?thesis
  proof (cases "tw_id wait \<noteq> w \<or> is_thread_suspended (threads s t)")
    case True
    have "wait_cond (threads s1 t) sig now mt = wait_cond (threads s t) sig now mt" for sig now mt
    proof -
      have "early_status (threads s1 t) (?f wait) = early_status (threads s t) wait"
        "late_status (threads s1 t) (?f wait) now mt = late_status (threads s t) wait now mt" "signaled_index sig (?f wait) = signaled_index sig wait"
        by (simp_all add: s1_def early_status_def late_status_def signaled_index_def)
      then show ?thesis unfolding wait_cond_parts [OF w1] wait_cond_parts [OF w] susp by (simp only:)
    qed
    then have "at_rest s1 t" using self [OF True] by (simp add: at_rest_def wait_status_def s1_def object_sync_signaled_def [abs_def])
    then have "at_rest s1 t'" for t' using at_rest_fewer [OF others few1 th1] by (cases "t' = t") auto
    moreover have "thread_timeout t w s = s1" using True susp by (auto simp: thread_timeout_def s1 w1 Let_def)
    ultimately show ?thesis using inv1 ck1 by (simp add: settled_def)
  next
    case False
    let ?s2 = "fst (end_wait t STATUS_TIMEOUT s1)"
    let ?s3 = "send_thread_wakeup t (tw_cookie (?f wait)) STATUS_TIMEOUT ?s2"
    note e = end_wait_unsatisfied [OF inv1 w1, of STATUS_TIMEOUT]
    have nz: "tw_cookie (?f wait) \<noteq> 0" using ckw by simp
    have res: "thread_timeout t w s = fst (wake_thread t ?s3)" using False susp nz by (simp add: thread_timeout_def s1 w1 Let_def)
    have inv3: "sync_inv ?s3" using e(1) sync_inv_same [OF send_thread_wakeup_same(1)] by simp
    note wk = wake_thread_spec [OF inv3, of t]
    have few: "fewer (fst (wake_thread t ?s3)) s"
      using fewer_trans [OF wk(2) fewer_trans [OF fewer_same fewer_trans [OF e(2) few1]]] by (simp add: send_thread_wakeup_same)
    have "at_rest (fst (wake_thread t ?s3)) t'" for t'
    proof (cases "t' = t")
      case False
      have "threads (fst (wake_thread t ?s3)) t' = threads s t'"
        using wake_thread_spec(3) [OF inv3 False] send_thread_wakeup_same(2) [OF False] e(3) [OF _ False] th1 [OF False] by simp
      then show ?thesis by (rule at_rest_fewer [OF others [OF False] few])
    qed (use wk(4) in simp)
    moreover have "cookies_ok (fst (wake_thread t ?s3))"
    proof (rule cookies_ok_subset [OF ck1])
      fix t'
      have "set (th_waits (threads ?s3 t')) \<subseteq> set (th_waits (threads s1 t'))"
        using e(3) [of t'] e(4) w1 by (cases "t' = t") (auto simp: send_thread_wakeup_waits)
      then show "set (th_waits (threads (fst (wake_thread t ?s3)) t')) \<subseteq> set (th_waits (threads s1 t'))"
        using wake_thread_waits [of t ?s3 t'] by blast
    qed
    ultimately show ?thesis unfolding res settled_def using wk(1) by blast
  qed
qed

end
