(* ===== verification/Sync_Properties.thy ===== *)
theory Sync_Properties
  imports Sync_Select
begin

text \<open>
  The end of threads and new objects, the step relation of the synchronization objects, and the
  properties with a small state to evaluate them on.
\<close>

section \<open>The end of a thread\<close>

text \<open>While a thread is being killed its own waits do not matter.\<close>

definition settled_but :: "tid \<Rightarrow> sync_state \<Rightarrow> bool" where
  "settled_but t s \<longleftrightarrow> sync_inv s \<and> (\<forall>t'. t' \<noteq> t \<longrightarrow> at_rest s t') \<and> cookies_ok s"

lemma settled_but_end:
  assumes "settled_but t s" and w: "th_waits (threads s t) = wait # rest"
  shows "settled_but t (fst (end_wait t STATUS_THREAD_IS_TERMINATING s))"
    and "th_waits (threads (fst (end_wait t STATUS_THREAD_IS_TERMINATING s)) t) = rest"
proof -
  have inv: "sync_inv s" using assms(1) by (simp add: settled_but_def)
  note e = end_wait_unsatisfied [OF inv w, of STATUS_THREAD_IS_TERMINATING]
  let ?s = "fst (end_wait t STATUS_THREAD_IS_TERMINATING s)"
  have "at_rest ?s t'" if "t' \<noteq> t" for t'
    by (rule at_rest_fewer [OF _ e(2) e(3) [OF _ that]]) (use assms(1) that in \<open>simp_all add: settled_but_def\<close>)
  moreover have "cookies_ok ?s"
    by (rule cookies_ok_subset [of s]) (use assms(1) w in \<open>auto simp: settled_but_def end_wait_waits split: if_splits\<close>)
  ultimately show "settled_but t ?s" using e(1) by (simp add: settled_but_def)
  show "th_waits (threads ?s t) = rest" by (rule e(4)) simp
qed

lemma end_all_waits:
  assumes "settled_but t s" and "n = length (th_waits (threads s t))"
  shows "settled_but t (((\<lambda>s. fst (end_wait t STATUS_THREAD_IS_TERMINATING s)) ^^ n) s) \<and>
    th_waits (threads (((\<lambda>s. fst (end_wait t STATUS_THREAD_IS_TERMINATING s)) ^^ n) s) t) = []"
  using assms
proof (induction n arbitrary: s)
  case (Suc n)
  then obtain wait rest where w: "th_waits (threads s t) = wait # rest" "length rest = n" by (auto simp: Suc_length_conv)
  let ?s = "fst (end_wait t STATUS_THREAD_IS_TERMINATING s)"
  have "settled_but t ?s" "n = length (th_waits (threads ?s t))" using settled_but_end [OF Suc.prems(1) w(1)] w(2) by simp_all
  from Suc.IH [OF this] show ?case by (simp add: funpow_Suc_right del: funpow.simps)
qed simp

lemma abandon_loop_settled:
  assumes "settled_but t s" and "th_waits (threads s t) = []" and "n = length (th_mutex_list (threads s t))"
  shows "settled (abandon_loop n t s) \<and> th_waits (threads (abandon_loop n t s) t) = [] \<and> th_mutex_list (threads (abandon_loop n t s) t) = []"
  using assms
proof (induction n arbitrary: s)
  case 0
  have "at_rest s t" using 0 by (simp add: at_rest_def wait_status_def wait_cond_def)
  then have "at_rest s t'" for t' using 0 by (cases "t' = t") (simp_all add: settled_but_def)
  then show ?case using 0 by (simp add: settled_but_def settled_def)
next
  case (Suc n)
  then obtain ob obs where ml: "th_mutex_list (threads s t) = ob # obs" "length obs = n" by (auto simp: Suc_length_conv)
  have inv: "sync_inv s" using Suc.prems(1) by (simp add: settled_but_def)
  then have l: "distinct (ob # obs)" "\<exists>m. syncs s ob = Mutex_Sync m \<and> mx_owner m = Some t"
    unfolding sync_inv_def lists_ok_def using ml(1) by (metis, metis list.set_intros(1))
  then obtain m where m: "syncs s ob = Mutex_Sync m" "mx_owner m = Some t" by blast
  have nz: "mx_count m \<noteq> 0" using inv m by (simp add: sync_inv_def mutexes_ok_def)
  let ?s = "fst (do_release ob (m\<lparr>mx_abandoned := True\<rparr>) t (mx_count m) s)"
  have q: "fst ` set (wait_queue s ob) \<subseteq> UNIV - {t}" using not_queued [OF inv Suc.prems(2), of ob] by auto
  have "keeps_rest (UNIV - {t}) (if mx_owner m = Some t \<and> mx_count m = mx_count m then drop_mutex ob t s else s) ?s"
    by (rule do_release_keeps [OF inv m(1) refl _ _ q]) (use nz Suc.prems(1) in \<open>auto simp: settled_but_def\<close>)
  then have k: "keeps_rest (UNIV - {t}) (drop_mutex ob t s) ?s" using m by simp
  have "filter (\<lambda>x. x \<noteq> ob) obs = obs" using l(1) by (auto simp: filter_id_conv)
  then have th: "th_waits (threads ?s t) = []" "th_mutex_list (threads ?s t) = obs"
    using k Suc.prems(2) ml by (auto simp: keeps_rest_def)
  have "cookies_ok ?s" by (rule cookies_ok_subset [of s]) (use Suc.prems(1) do_release_waits in \<open>auto simp: settled_but_def\<close>)
  then have "settled_but t ?s" using k by (simp add: settled_but_def keeps_rest_def)
  then show ?case using Suc.IH [of ?s] th ml m by simp
qed

lemma kill_thread_settled:
  assumes "settled s"
  shows "settled (kill_thread_waits t code s)" and "th_waits (threads (kill_thread_waits t code s) t) = []"
    and "th_mutex_list (threads (kill_thread_waits t code s) t) = []"
proof -
  let ?n = "length (th_waits (threads s t))"
  define s1 where "s1 = ((\<lambda>s. fst (end_wait t STATUS_THREAD_IS_TERMINATING s)) ^^ ?n) s"
  define s2 where "s2 = (if ?n \<noteq> 0 then send_thread_wakeup t 0 code s1 else s1)"
  have "settled_but t s" using assms by (simp add: settled_but_def settled_def)
  then have s1: "settled_but t s1" "th_waits (threads s1 t) = []" using end_all_waits [OF _ refl, of t s] by (simp_all add: s1_def)
  have "settled_but t (send_thread_wakeup t 0 code s1)"
    unfolding settled_but_def
  proof (intro conjI allI impI)
    show "sync_inv (send_thread_wakeup t 0 code s1)" using s1(1) sync_inv_same [OF send_thread_wakeup_same(1)] by (simp add: settled_but_def)
    show "at_rest (send_thread_wakeup t 0 code s1) t'" if "t' \<noteq> t" for t'
      by (rule at_rest_fewer [OF _ fewer_same send_thread_wakeup_same(2) [OF that]])
        (use s1(1) that in \<open>simp_all add: settled_but_def send_thread_wakeup_same\<close>)
    show "cookies_ok (send_thread_wakeup t 0 code s1)" using s1(1) by (simp add: settled_but_def cookies_ok_def send_thread_wakeup_waits)
  qed
  then have s2: "settled_but t s2" "th_waits (threads s2 t) = []" using s1 by (simp_all add: s2_def send_thread_wakeup_waits)
  have "kill_thread_waits t code s = abandon_loop (length (th_mutex_list (threads s2 t))) t s2"
    by (simp add: kill_thread_waits_def abandon_mutexes_def s1_def s2_def Let_def)
  then show "settled (kill_thread_waits t code s)" "th_waits (threads (kill_thread_waits t code s) t) = []"
    "th_mutex_list (threads (kill_thread_waits t code s) t) = []"
    using abandon_loop_settled [OF s2 refl] by simp_all
qed

section \<open>New objects\<close>

text \<open>The place of a new object: nobody waits for it, and it is not an owned mutex.\<close>

definition unused :: "oid \<Rightarrow> sync_state \<Rightarrow> bool" where
  "unused ob s \<longleftrightarrow> wait_queue s ob = [] \<and> (\<forall>mutex. syncs s ob = Mutex_Sync mutex \<longrightarrow> mx_owner mutex = None)"

lemma new_sync_settled:
  assumes s: "settled s" and un: "unused ob s"
    and y: "\<And>mutex. y = Mutex_Sync mutex \<Longrightarrow> mx_owner mutex = None \<and> mx_count mutex = 0"
      "\<And>sem. y = Semaphore_Sync sem \<Longrightarrow> sem_count sem \<le> sem_max sem"
  shows "settled (set_sync ob y s)"
proof -
  note i = settledD(1) [OF s, unfolded sync_inv_def]
  have "mutexes_ok (set_sync ob y s)" "counts_ok (set_sync ob y s)" "sems_ok (set_sync ob y s)" "waits_ok (set_sync ob y s)" "queues_ok (set_sync ob y s)"
    using i y by (auto simp: mutexes_ok_def counts_ok_def sems_ok_def waits_ok_def queues_ok_def)
  moreover have "lists_ok (set_sync ob y s)"
    unfolding lists_ok_def
  proof (intro allI conjI)
    fix t o'
    show "distinct (th_mutex_list (threads (set_sync ob y s) t))" using i by (simp add: lists_ok_def)
    have "o' \<in> set (th_mutex_list (threads s t)) \<longleftrightarrow> (\<exists>mutex. syncs s o' = Mutex_Sync mutex \<and> mx_owner mutex = Some t)"
      using i by (simp add: lists_ok_def)
    then show "o' \<in> set (th_mutex_list (threads (set_sync ob y s) t)) \<longleftrightarrow> (\<exists>mutex. syncs (set_sync ob y s) o' = Mutex_Sync mutex \<and> mx_owner mutex = Some t)"
      using un y(1) by (cases "o' = ob") (auto simp: unused_def)
  qed
  ultimately have inv: "sync_inv (set_sync ob y s)" using i by (simp add: sync_inv_def)
  have "at_rest (set_sync ob y s) t" for t
    by (rule rest_without_not_waiting [OF inv, where ob = ob]) (use un at_rest_without [OF settledD(2) [OF s]] in \<open>simp_all add: unused_def\<close>)
  moreover have "cookies_ok (set_sync ob y s)" using s by (simp add: settled_def cookies_ok_def)
  ultimately show ?thesis using inv by (simp add: settled_def)
qed

lemma create_mutex_settled:
  assumes s: "settled s" and un: "unused ob s" and room: "wait_room s t"
  shows "settled (create_mutex_sync owned t ob s)"
proof -
  let ?m = "\<lparr>mx_owner = None, mx_count = 0, mx_abandoned = False\<rparr>"
  let ?s = "set_sync ob (Mutex_Sync ?m) s"
  have s0: "settled ?s" by (rule new_sync_settled [OF s un]) auto
  show ?thesis
  proof (cases owned)
    case True
    have new: "create_mutex_sync owned t ob s = take_all t [ob] ?s"
    proof (rule sync_state.equality)
      show "syncs (create_mutex_sync owned t ob s) = syncs (take_all t [ob] ?s)"
        by (intro ext) (simp add: create_mutex_sync_def True do_grab_def upd_thread_def)
      show "threads (create_mutex_sync owned t ob s) = threads (take_all t [ob] ?s)"
        by (intro ext) (simp add: create_mutex_sync_def True do_grab_def upd_thread_def free_mutex_def)
    qed (simp_all add: create_mutex_sync_def True do_grab_def upd_thread_def set_sync_def)
    have sig: "object_sync_signaled ?s t o'" if "o' \<in> set [ob]" for o' using that by (simp add: object_sync_signaled_def mutex_sync_signaled_def)
    have inv: "sync_inv (take_all t [ob] ?s)"
      by (rule take_all_inv [OF settledD(1) [OF s0] _ sig]) (use room in \<open>auto simp: wait_room_def split: if_splits\<close>)
    have "mutexes_ok ?s" using settledD(1) [OF s0] by (simp add: sync_inv_def)
    then have "object_sync_signaled ?s t' o'" if "object_sync_signaled (take_all t [ob] ?s) t' o'" for t' o'
      using taken_signaled [of ?s "[ob]" t t' o'] sig that by (auto simp: takeable_def)
    then have "at_rest (take_all t [ob] ?s) t'" for t'
      using settledD(2) [OF s0, of t'] unfolding at_rest_def wait_status_def by (auto elim!: wait_cond_mono)
    moreover have "cookies_ok (take_all t [ob] ?s)" using s0 by (simp add: settled_def cookies_ok_def)
    ultimately show ?thesis unfolding new using inv by (simp add: settled_def)
  qed (use s0 in \<open>simp add: create_mutex_sync_def\<close>)
qed

section \<open>Steps\<close>

inductive sync_step :: "sync_state \<Rightarrow> sync_state \<Rightarrow> bool" where
  event: "syncs s ob = Event_Sync event \<Longrightarrow> sync_step s (fst (req_event_op op ob s))"
| semaphore: "syncs s ob = Semaphore_Sync sem \<Longrightarrow> sync_step s (fst (req_release_semaphore n ob s))"
| mutex: "syncs s ob = Mutex_Sync mutex \<Longrightarrow> sync_step s (fst (req_release_mutex t ob s))"
| select: "select_guard env t op flags s \<Longrightarrow> cookie \<noteq> 0 \<Longrightarrow> sync_step s (fst (select_on env t op cookie flags wh s))"
| tick: "s1 = s\<lparr>current_time := now, monotonic_time := mt\<rparr> \<Longrightarrow> (\<And>t. at_rest s1 t) \<Longrightarrow> sync_step s s1"
| timeout: "s1 = s\<lparr>current_time := now, monotonic_time := mt\<rparr> \<Longrightarrow> th_waits (threads s t) = wait # rest \<Longrightarrow>
    (\<And>t'. t' \<noteq> t \<Longrightarrow> at_rest s1 t') \<Longrightarrow> (tw_id wait \<noteq> w \<or> is_thread_suspended (threads s t) \<Longrightarrow> at_rest s1 t) \<Longrightarrow>
    sync_step s (thread_timeout t w s1)"
| kill: "sync_step s (kill_thread_waits t code s)"
| new_event: "unused ob s \<Longrightarrow> sync_step s (create_event_sync manual signaled ob s)"
| new_semaphore: "unused ob s \<Longrightarrow> sync_step s (fst (create_semaphore initial maximum ob s))"
| new_mutex: "unused ob s \<Longrightarrow> wait_room s t \<Longrightarrow> sync_step s (create_mutex_sync owned t ob s)"

inductive_cases sync_stepE: "sync_step s s'"

lemma event_op_settled:
  assumes s: "settled s" and ob: "syncs s ob = Event_Sync event"
  shows "settled (event_sync_signal ob event b s)"
  using event_sync_signal_keeps [OF settledD(1) [OF s] ob, of UNIV b] settledD(2) [OF s] s
  by (intro keeps_rest_settled [of s _ s] event_sync_signal_waits) (auto simp: settled_def)

text \<open>Waking up threads does not turn an object into one of another type.\<close>

definition is_event :: "sync \<Rightarrow> bool" where
  "is_event y \<longleftrightarrow> (case y of Event_Sync event \<Rightarrow> True | _ \<Rightarrow> False)"

lemma satisfied_event: "is_event (syncs (fst (object_sync_satisfied t ob p)) o') = is_event (syncs (fst p) o')"
  by (auto simp: object_sync_satisfied_def semaphore_sync_satisfied_def mutex_sync_satisfied_def do_grab_def sync_fail_def set_sync_def
      upd_thread_def Let_def is_event_def split: prod.split sync.split)

lemma satisfy_wait_event: "is_event (syncs (fst (satisfy_wait t wait st s)) o') = is_event (syncs s o')"
proof -
  have "is_event (syncs (fst (fold (object_sync_satisfied t) obs p)) o') = is_event (syncs (fst p) o')" for obs p
    by (induction obs arbitrary: p) (simp_all add: satisfied_event)
  then show ?thesis by (simp add: satisfy_wait_def satisfied_event)
qed

lemma end_wait_event: "is_event (syncs (fst (end_wait t st s)) o') = is_event (syncs s o')"
proof (cases "th_waits (threads s t)")
  case (Cons wait rest)
  obtain s2 ab where "satisfy_wait t wait st (upd_thread t (\<lambda>th. th\<lparr>th_waits := rest\<rparr>) s) = (s2, ab)" by fastforce
  then show ?thesis using Cons satisfy_wait_event [of t wait st "upd_thread t (\<lambda>th. th\<lparr>th_waits := rest\<rparr>) s" o']
    by (simp add: end_wait_def Let_def fold_remove_sel) (simp add: upd_thread_def)
qed (simp add: end_wait_def sync_fail_def)

lemma wake_round_event: "wake_round t s = Some s' \<Longrightarrow> is_event (syncs s' o') = is_event (syncs s o')"
proof -
  assume r: "wake_round t s = Some s'"
  then obtain wait rest where w: "th_waits (threads s t) = wait # rest" by (cases "th_waits (threads s t)") (auto simp: wake_round_def)
  obtain s1 st where c: "check_wait t s = (s1, Some st)"
    using r w by (cases "check_wait t s") (auto simp: wake_round_def split: option.splits)
  obtain s2 st' where e: "end_wait t st s1 = (s2, st')" by fastforce
  have "syncs s' = syncs s2" using r w c e by (auto simp: wake_round_def send_thread_wakeup_same)
  then show ?thesis using end_wait_event [of t st s1 o'] check_wait_same(5) [of t s] e c by simp
qed

lemma wake_thread_event: "is_event (syncs (fst (wake_thread t s)) o') = is_event (syncs s o')"
proof (induction s rule: wake_thread_induct [of t])
  case (Some s s')
  then show ?case using wake_round_event by (simp add: wake_thread_Some)
qed (simp add: wake_thread_None)

lemma wake_up_event: "is_event (syncs (wake_up ob m s) o') = is_event (syncs s o')"
proof -
  have "is_event (syncs (wake_pass ob m es s) o') = is_event (syncs s o')" for es
  proof (induction ob m es s rule: wake_pass.induct)
    case (2 ob m t w i es s)
    obtain s' n where wt: "wake_thread t s = (s', n)" by fastforce
    then show ?case using 2(1) [OF wt [symmetric]] 2(2) [OF wt [symmetric]] wake_thread_event [of t s o'] by simp
  qed simp
  then show ?thesis by (simp add: wake_up_def)
qed

lemma set_event_settled:
  assumes s: "settled s" and ob: "is_event (syncs s ob)"
  shows "settled (set_event ob s)" and "settled (reset_event ob s)" and "is_event (syncs (set_event ob s) ob)"
proof -
  obtain event where e: "syncs s ob = Event_Sync event" using ob by (auto simp: is_event_def split: sync.splits)
  show "settled (set_event ob s)" "settled (reset_event ob s)" using event_op_settled [OF s e] by (simp_all add: set_event_def reset_event_def e)
  show "is_event (syncs (set_event ob s) ob)" by (simp add: set_event_def e event_sync_signal_def Let_def wake_up_event) (simp add: is_event_def)
qed

lemma sync_step_settled:
  assumes "sync_step s s'" and "settled s"
  shows "settled s'"
  using assms(1)
proof (cases rule: sync_step.cases)
  case (event ob e op)
  then have ob: "is_event (syncs s ob)" by (simp add: is_event_def)
  note se = set_event_settled [OF assms(2) ob]
  show ?thesis using event se set_event_settled(2) [OF se(1,3)] assms(2) by (cases op) (simp_all add: req_event_op_def)
next
  case (semaphore ob sem n)
  have "settled (fst (release_semaphore ob sem n s))"
    using release_semaphore_keeps [OF settledD(1) [OF assms(2)] semaphore(2), of UNIV n] settledD(2) [OF assms(2)] assms(2)
    by (intro keeps_rest_settled [of s _ s] release_semaphore_waits) (auto simp: settled_def)
  then show ?thesis using semaphore by (cases "release_semaphore ob sem n s") (simp add: req_release_semaphore_def)
next
  case (mutex ob m t)
  have n: "(1 :: u32) \<noteq> 0 \<and> 1 \<le> mx_count m" if "mx_owner m = Some t"
    using settledD(1) [OF assms(2)] mutex that by (auto simp: sync_inv_def mutexes_ok_def word_le_nat_alt unat_gt_0 Suc_le_eq)
  have "keeps_rest UNIV (if mx_owner m = Some t \<and> 1 = mx_count m then drop_mutex ob t s else s) (fst (do_release ob m t 1 s))"
    by (rule do_release_keeps [OF settledD(1) [OF assms(2)] mutex(2) _ n, where ab = "mx_abandoned m"]) (use settledD(2) [OF assms(2)] in auto)
  then have "settled (fst (do_release ob m t 1 s))"
    using assms(2) by (intro keeps_rest_settled [of _ _ s] do_release_waits) (auto simp: settled_def)
  then show ?thesis using mutex by (cases "do_release ob m t 1 s") (simp add: req_release_mutex_def)
next
  case (select env t op flags cookie wh)
  then show ?thesis using select_on_settled [OF assms(2)] by simp
next
  case (tick now mt)
  then have "same_sync s' s" by (simp add: same_sync_def)
  then show ?thesis using sync_inv_same tick assms(2) by (auto simp: settled_def cookies_ok_def)
next
  case (timeout s1 now mt t wait rest w)
  have "settled (thread_timeout t w s1)"
    by (rule thread_timeout_settled) (use timeout assms(2) sync_inv_same [of s1 s] in \<open>auto simp: settled_def cookies_ok_def same_sync_def\<close>)
  then show ?thesis using timeout by simp
next
  case (kill t code)
  then show ?thesis using kill_thread_settled(1) [OF assms(2)] by simp
next
  case (new_event ob manual signaled)
  then show ?thesis
    using new_sync_settled [OF assms(2) new_event(2), of "Event_Sync \<lparr>ev_manual = manual, ev_signaled = signaled\<rparr>"]
    by (simp add: create_event_sync_def)
next
  case (new_semaphore ob initial maximum)
  then show ?thesis using new_sync_settled [OF assms(2) new_semaphore(2), of "Semaphore_Sync \<lparr>sem_count = initial, sem_max = maximum\<rparr>"] assms(2)
    by (simp add: create_semaphore_def not_less)
next
  case (new_mutex ob t owned)
  then show ?thesis using create_mutex_settled [OF assms(2)] by simp
qed

interpretation sync_steps: step_invariant sync_step settled
  by unfold_locales (rule sync_step_settled)

section \<open>Properties\<close>

text \<open>C2. No wake-up is lost: whatever sequence of events, semaphore and mutex releases, select requests,
  timeouts, thread exits and object creations the server handles, no assertion fails, and between
  requests no thread keeps waiting although the condition of its innermost wait holds. Semaphore counts
  stay within their limits and exactly the owned mutexes have a recursion count. Time only moves when no
  other wait expires with it, and a select request satisfies \<^const>\<open>select_guard\<close>: no overflow of a recursion
  count, distinct objects when it waits for all of them, no signaling or cooperative suspension inside
  another wait, and not the same object signaled and waited for.\<close>

theorem no_lost_wakeup:
  assumes "sync_step\<^sup>*\<^sup>* s s'" and "settled s"
  shows "\<not> sync_failed s' \<and> (\<forall>t. wait_status t s' = None) \<and>
    (\<forall>ob sem. syncs s' ob = Semaphore_Sync sem \<longrightarrow> sem_count sem \<le> sem_max sem) \<and>
    (\<forall>ob mutex. syncs s' ob = Mutex_Sync mutex \<longrightarrow> (mx_count mutex = 0 \<longleftrightarrow> mx_owner mutex = None))"
  using sync_steps.steps_keep [OF assms] by (auto simp: settled_def sync_inv_def sems_ok_def mutexes_ok_def at_rest_def)


text \<open>C36. A wake-up can be lost when time has moved on: if the first thread in the queue of an auto-reset
  event waits for all of several objects and its timeout has passed without its timer having run yet,
  setting the event ends that wait with a timeout and counts it as the one thread to wake up. The event
  stays signaled and a thread that waits for just the event keeps waiting.\<close>

theorem expired_wait_loses_wakeup:
  assumes inv: "sync_inv s" and ob: "syncs s ob = Event_Sync event" "\<not> ev_manual event"
    and q: "wait_queue s ob = (t1, w, i) # es" and w1: "th_waits (threads s t1) = [wait1]" "tw_select wait1 = SELECT_WAIT_ALL"
    and x: "x \<in> set (tw_queues wait1)" "x \<noteq> ob" "\<not> object_sync_signaled s t1 x" and expired: "wait_status t1 s = Some STATUS_TIMEOUT"
    and w2: "t2 \<noteq> t1" "th_waits (threads s t2) = wait2 # rest2" "tw_select wait2 = SELECT_WAIT" "tw_queues wait2 = [ob]" "at_rest s t2"
      "\<not> is_thread_suspended (threads s t2)"
  shows "wait_status t2 (set_event ob s) = Some 0 \<and> th_waits (threads (set_event ob s) t2) = wait2 # rest2"
proof -
  let ?s1 = "set_sync ob (Event_Sync (event\<lparr>ev_signaled := True\<rparr>)) s"
  have inv1: "sync_inv ?s1" by (rule set_sync_inv [OF inv]) (simp_all add: ob is_mutex_def)
  have idx: "signaled_index (object_sync_signaled ?s1 t1) wait1 = None" "signaled_index (object_sync_signaled s t1) wait1 = None"
    using w1(2) x by (auto simp: signaled_index_def list_all_iff object_sync_signaled_def)
  have st1: "wait_status t1 ?s1 = Some STATUS_TIMEOUT"
    using expired by (simp only: wait_status_def set_sync_sel wait_cond_parts [OF w1(1)] idx)
  obtain s' where r: "wake_round t1 ?s1 = Some s'" using wake_round_rest [of t1 ?s1] st1 by (auto simp: at_rest_def)
  obtain wait rest st where w': "th_waits (threads ?s1 t1) = wait # rest" "wait_status t1 ?s1 = Some st"
    and s': "\<And>t'. t' \<noteq> t1 \<Longrightarrow> threads s' t' = threads ?s1 t'" "fewer s' ?s1"
      "\<And>ob. syncs s' ob = (if ob \<in> set (consumed wait st) then taken t1 (syncs ?s1 ob) else syncs ?s1 ob)"
    by (rule wake_round_spec [OF inv1 r]) blast
  have "consumed wait st = []" using w' w1 st1 waits_okD(1) [OF inv w1(1)] by (simp add: consumed_def wait_ok_def)
  then have sy: "syncs s' = syncs ?s1" using s'(3) by auto
  have "wake_round t1 s' = None"
    using wake_round_waits [OF r, of t1] w1(1) by (simp add: wake_round_rest at_rest_def wait_status_def wait_cond_def)
  then have "wake_thread t1 ?s1 = (s', 1)" by (simp add: wake_thread_Some [OF r] wake_thread_None)
  then have res: "set_event ob s = s'" by (simp add: set_event_def ob event_sync_signal_def wake_up_def q)
  have th: "threads s' t2 = threads s t2" using s'(1) [OF w2(1)] by simp
  have "early_status (threads s t2) wait2 = None"
    using w2(5) unfolding at_rest_def wait_status_def wait_cond_parts [OF w2(2)] by (auto split: if_splits)
  moreover have "signaled_index (object_sync_signaled s' t2) wait2 = Some 0"
    by (simp add: signaled_index_def w2(3,4) object_sync_signaled_def sy event_sync_signaled_def)
  ultimately show ?thesis using w2 by (simp add: res wait_status_def th wait_cond_parts [OF w2(2)])
qed

text \<open>C37. Waiting for all of several handles that lead to the same semaphore brings down the server when
  the semaphore has one count left: both entries are found signaled, the first takes the count and
  the second trips the assertion in \<^verbatim>\<open>semaphore_sync_satisfied\<close>.\<close>

theorem wait_all_twice_asserts:
  assumes hs: "wait_obj env h1 = Inr ob" "wait_obj env h2 = Inr ob" and mem: "wait_mem_ok env"
    and ob: "syncs s ob = Semaphore_Sync sem" "sem_count sem = 1"
    and idle: "\<not> is_thread_suspended (threads s t)" "flags = 0"
  shows "sync_failed (fst (select_on env t (Select_Wait_All [h1, h2]) cookie flags wh s))"
proof -
  obtain s1 where on: "wait_on True t SELECT_WAIT_ALL [ob, ob] flags wh s = Inr s1" by (simp add: wait_on_def Let_def)
  define wait where "wait = \<lparr>tw_id = next_wait s, tw_flags = flags, tw_abandoned = False, tw_select = SELECT_WAIT_ALL, tw_cookie = 0,
    tw_when = wh, tw_user = False, tw_queues = [ob, ob]\<rparr>"
  have s1: "s1 = fold (\<lambda>(ob, entry). add_queue ob entry) (wait_entries t wait)
      (upd_thread t (\<lambda>th. th\<lparr>th_waits := wait # th_waits th\<rparr>) (s\<lparr>next_wait := next_wait s + 1\<rparr>))"
    using on by (simp add: wait_on_def Let_def wait_def)
  have th: "threads s1 t = (threads s t)\<lparr>th_waits := wait # th_waits (threads s t)\<rparr>" and sy: "syncs s1 = syncs s"
    by (simp_all add: s1 fold_add_sel upd_thread_def)
  have w: "th_waits (threads s1 t) = wait # th_waits (threads s t)" by (simp add: th)
  have "is_thread_suspended (threads s1 t) = is_thread_suspended (threads s t)" by (simp add: th is_thread_suspended_def)
  then have "early_status (threads s1 t) wait = None" "\<not> is_thread_suspended (threads s1 t)"
    using idle by (simp_all add: early_status_def wait_def)
  moreover have "signaled_index (object_sync_signaled s1 t) wait = Some 0"
    using ob by (simp add: signaled_index_def wait_def object_sync_signaled_def sy semaphore_sync_signaled_def)
  ultimately have st: "wait_status t s1 = Some 0" by (simp add: wait_status_def wait_cond_parts [OF w])
  have chk: "check_wait t s1 = (s1, Some 0)" by (simp add: check_wait_def w st)
  let ?s2 = "upd_thread t (\<lambda>th. th\<lparr>th_waits := th_waits (threads s t)\<rparr>) s1"
  have "sync_failed (fst (satisfy_wait t wait 0 ?s2))"
    using ob by (simp add: satisfy_wait_def wait_def object_sync_satisfied_def upd_thread_def sy semaphore_sync_satisfied_def set_sync_def sync_fail_def)
  then have "sync_failed (fst (end_wait t 0 s1))"
    by (cases "satisfy_wait t wait 0 ?s2") (simp add: end_wait_def w Let_def fold_remove_sel)
  then have "sync_failed (fst (select_check (timer_ok env) t cookie s1))"
    by (cases "end_wait t 0 s1") (simp add: select_check_def chk)
  then show ?thesis using hs mem on by (simp add: select_on_def wait_on_handles_def Let_def)
qed

section \<open>Examples\<close>

text \<open>Object 0 is an auto-reset event, 1 a manual-reset event, 2 a semaphore with one count; no thread waits.\<close>

definition ex_idle :: thread where
  "ex_idle = \<lparr>th_waits = [], th_mutex_list = [], th_system_apc = 0, th_user_apc = 0, th_context = None, th_suspend_cookie = 0,
     th_suspend = 0, th_bypass_proc_suspend = False, th_process_suspend = 0\<rparr>"

definition ex_sync :: sync_state where
  "ex_sync = \<lparr>syncs = (\<lambda>ob. if ob = 2 then Semaphore_Sync \<lparr>sem_count = 1, sem_max = 3\<rparr>
       else Event_Sync \<lparr>ev_manual = ob \<noteq> 0, ev_signaled = False\<rparr>),
     wait_queue = (\<lambda>_. []), threads = (\<lambda>_. ex_idle), current_time = 10, monotonic_time = 10, next_wait = 1, wakeups = [],
     sync_failed = False\<rparr>"

definition ex_select_env :: select_env where
  "ex_select_env = \<lparr>wait_obj = (\<lambda>h. Inr (unat (h div 4))), signal_obj = (\<lambda>h. Inr (unat (h div 4), 2)), wait_mem_ok = True, timer_ok = True\<rparr>"

lemma ex_sync_settled: "settled ex_sync"
proof -
  have "sync_inv ex_sync"
    by (simp add: sync_inv_def mutexes_ok_def counts_ok_def lists_ok_def sems_ok_def waits_ok_def queues_ok_def ex_sync_def ex_idle_def)
  then show ?thesis by (simp add: settled_def cookies_ok_def at_rest_def wait_status_def wait_cond_def ex_sync_def ex_idle_def)
qed

text \<open>Thread 0 waits for both events with a timeout, thread 1 for the first one.\<close>

definition ex_wait1 :: sync_state where
  "ex_wait1 = fst (select_on ex_select_env 0 (Select_Wait_All [0, 4]) 7 0 100 ex_sync)"

definition ex_wait2 :: sync_state where
  "ex_wait2 = fst (select_on ex_select_env 1 (Select_Wait [0]) 8 0 TIMEOUT_INFINITE ex_wait1)"

lemma ex_wait1_step: "sync_step ex_sync ex_wait1"
  unfolding ex_wait1_def
  by (rule sync_step.select) (simp_all add: select_guard_def wait_room_def ex_sync_def ex_idle_def ex_select_env_def)

lemma ex_wait1_threads: "th_waits (threads ex_wait1 1) = []"
  by code_simp

lemma ex_wait1_syncs: "syncs ex_wait1 = syncs ex_sync"
  by (simp add: ex_wait1_def select_on_def wait_on_handles_def wait_on_def ex_select_env_def Let_def select_check_def check_wait_def
      wait_status_def wait_cond_def wait_entries_def add_queue_def upd_thread_def ex_sync_def ex_idle_def object_sync_signaled_def event_sync_signaled_def
      is_thread_suspended_def)

lemma ex_wait2_step: "sync_step ex_wait1 ex_wait2"
  unfolding ex_wait2_def
proof (rule sync_step.select)
  have "\<And>ob mutex. syncs ex_wait1 ob \<noteq> Mutex_Sync mutex" unfolding ex_wait1_syncs by (simp add: ex_sync_def)
  then show "select_guard ex_select_env 1 (Select_Wait [0]) 0 ex_wait1"
    unfolding select_guard_def wait_room_def ex_wait1_threads by simp
qed simp

theorem no_lost_wakeup_witness:
  "wait_status 1 (set_event 0 ex_wait2) = None \<and> th_waits (threads (set_event 0 ex_wait2) 1) = []"
proof -
  have ob: "syncs ex_wait2 0 = Event_Sync \<lparr>ev_manual = False, ev_signaled = False\<rparr>" by code_simp
  have "sync_step ex_wait2 (fst (req_event_op SET_EVENT 0 ex_wait2))" by (rule sync_step.event [OF ob])
  then have "sync_step ex_wait2 (set_event 0 ex_wait2)" by (simp add: req_event_op_def ob)
  then have "sync_step\<^sup>*\<^sup>* ex_sync (set_event 0 ex_wait2)"
    using ex_wait1_step ex_wait2_step by (meson rtranclp.rtrancl_refl rtranclp.rtrancl_into_rtrancl)
  moreover have "th_waits (threads (set_event 0 ex_wait2) 1) = []" by code_simp
  ultimately show ?thesis using no_lost_wakeup [OF _ ex_sync_settled] by blast
qed


text \<open>The time at which the timeout of thread 0 has passed.\<close>

definition ex_late :: sync_state where
  "ex_late = ex_wait2\<lparr>current_time := 200\<rparr>"

theorem expired_wait_loses_wakeup_witness:
  "wait_status 1 (set_event 0 ex_late) = Some 0 \<and> th_waits (threads (set_event 0 ex_late) 1) \<noteq> []"
proof -
  have "settled ex_wait2" by (intro sync_step_settled [OF ex_wait2_step] sync_step_settled [OF ex_wait1_step] ex_sync_settled)
  then have inv: "sync_inv ex_late" using sync_inv_same [of ex_late ex_wait2] by (simp add: settled_def ex_late_def same_sync_def)
  have ob: "syncs ex_late 0 = Event_Sync \<lparr>ev_manual = False, ev_signaled = False\<rparr>" by code_simp
  have q: "wait_queue ex_late 0 = [(0, 1, 0), (1, 2, 0)]" by code_simp
  let ?w1 = "\<lparr>tw_id = 1, tw_flags = 0, tw_abandoned = False, tw_select = SELECT_WAIT_ALL, tw_cookie = 7, tw_when = 100, tw_user = True, tw_queues = [0, 1]\<rparr>"
  let ?w2 = "\<lparr>tw_id = 2, tw_flags = 0, tw_abandoned = False, tw_select = SELECT_WAIT, tw_cookie = 8, tw_when = TIMEOUT_INFINITE, tw_user = False, tw_queues = [0]\<rparr>"
  have w1: "th_waits (threads ex_late 0) = [?w1]" "wait_status 0 ex_late = Some STATUS_TIMEOUT" "\<not> object_sync_signaled ex_late 0 1" by code_simp+
  have w2: "th_waits (threads ex_late 1) = [?w2]" "wait_status 1 ex_late = None" "\<not> is_thread_suspended (threads ex_late 1)" by code_simp+
  have "wait_status 1 (set_event 0 ex_late) = Some 0 \<and> th_waits (threads (set_event 0 ex_late) 1) = [?w2]"
    by (rule expired_wait_loses_wakeup [OF inv ob _ q w1(1) _ _ _ w1(3,2) _ w2(1)]) (simp_all add: at_rest_def w2 [simplified])
  then show ?thesis by simp
qed

theorem wait_all_twice_asserts_witness:
  "sync_failed (fst (select_on ex_select_env 0 (Select_Wait_All [8, 9]) 7 0 TIMEOUT_INFINITE ex_sync))"
  by (rule wait_all_twice_asserts [where ob = 2 and sem = "\<lparr>sem_count = 1, sem_max = 3\<rparr>"])
    (simp_all add: ex_select_env_def ex_sync_def ex_idle_def is_thread_suspended_def)

end
