(* ===== verification/User_Handles.thy ===== *)
theory User_Handles
  imports Wine_Prelude
begin

text \<open>
  The user handles of \<^verbatim>\<open>server/user.c\<close>: the table of windows, hooks, menus and other user objects that
  the server shares with its clients. A handle is the index of an entry and its generation; the free
  entries are linked through their \<open>offset\<close> fields.

  The two arrays are functions on indices, and an access beyond \<open>MAX_USER_HANDLES\<close> sets \<open>user_failed\<close>.
  Pointers are 64-bit values: 0 is NULL, -1 the placeholder of objects that live in the client.
\<close>

section \<open>State\<close>

text \<open>\<^verbatim>\<open>struct user_entry\<close>; \<^verbatim>\<open>uniq\<close> is the two last fields written at once.\<close>

record user_entry =
  ue_offset :: u64
  ue_tid :: u32
  ue_pid :: u32
  ue_id :: u64
  ue_type :: u16
  ue_generation :: u16

text \<open>The statics of the file and the part of the shared session memory it owns.\<close>

record user_state =
  user_entries :: "nat \<Rightarrow> user_entry"
  server_objects :: "nat \<Rightarrow> u64"
  freelist :: u64
  nb_handles :: nat
  user_failed :: bool

definition FIRST_USER_HANDLE :: u32 where "FIRST_USER_HANDLE = 0x0020"
definition LAST_USER_HANDLE :: u32 where "LAST_USER_HANDLE = 0xffef"
definition MAX_USER_HANDLES :: nat where
  "MAX_USER_HANDLES = unat (drop_bit 1 (LAST_USER_HANDLE - FIRST_USER_HANDLE + 1))"

abbreviation (input) "NTUSER_OBJ_WINDOW \<equiv> (0x01 :: u16)"
abbreviation (input) "NTUSER_OBJ_MENU \<equiv> (0x02 :: u16)"
abbreviation (input) "NTUSER_OBJ_ICON \<equiv> (0x03 :: u16)"
abbreviation (input) "NTUSER_OBJ_WINPOS \<equiv> (0x04 :: u16)"
abbreviation (input) "NTUSER_OBJ_ACCEL \<equiv> (0x08 :: u16)"
abbreviation (input) "NTUSER_OBJ_HOOK \<equiv> (0x0f :: u16)"
abbreviation (input) "NTUSER_OBJ_IMC \<equiv> (0x11 :: u16)"

text \<open>The state at startup: the shared memory is fresh, hence zero.\<close>

definition user_init :: user_state where
  "user_init = \<lparr>user_entries = (\<lambda>_. \<lparr>ue_offset = 0, ue_tid = 0, ue_pid = 0, ue_id = 0, ue_type = 0, ue_generation = 0\<rparr>),
                server_objects = (\<lambda>_. 0), freelist = -1, nb_handles = 0, user_failed = False\<rparr>"

section \<open>Entries\<close>

text \<open>Entries are named by their index, as \<^verbatim>\<open>entry - handles\<close> computes it.\<close>

definition get_server_object :: "nat \<Rightarrow> user_state \<Rightarrow> u64" where
  "get_server_object entry s = server_objects s entry"

definition set_server_object :: "nat \<Rightarrow> u64 \<Rightarrow> user_state \<Rightarrow> user_state \<times> u64" where
  "set_server_object entry p s =
     (if MAX_USER_HANDLES \<le> entry then (s\<lparr>user_failed := True\<rparr>, 0)
      else (s\<lparr>server_objects := (server_objects s)(entry := p)\<rparr>, server_objects s entry))"

definition handle_index :: "u32 \<Rightarrow> int" where
  "handle_index h = sint (drop_bit 1 ((h AND 0xffff) - FIRST_USER_HANDLE))"

definition handle_to_entry :: "u32 \<Rightarrow> user_state \<Rightarrow> nat option" where
  "handle_to_entry h s =
     (let generation = (ucast (drop_bit 16 h) :: u16); index = handle_index h
      in if index < 0 \<or> index \<ge> int (nb_handles s) then None
         else let entry = nat index
         in if ue_type (user_entries s entry) = 0 then None
            else if generation = 0 \<or> generation = 0xffff then Some entry
            else if generation = ue_generation (user_entries s entry) then Some entry
            else None)"

definition entry_to_handle :: "nat \<Rightarrow> user_state \<Rightarrow> u32" where
  "entry_to_handle entry s =
     push_bit 1 (of_nat entry) + FIRST_USER_HANDLE
       + push_bit 16 (ucast (ue_generation (user_entries s entry)))"

text \<open>
  \<^verbatim>\<open>alloc_user_entry\<close>; \<open>tid\<close> and \<open>pid\<close> are those of the current thread, \<open>(loc_id, loc_offset)\<close> is the
  locator of the shared object. The first free entry is used, or else the next one of the array, whose
  size the code does not look at.
\<close>

definition alloc_user_entry :: "u32 \<Rightarrow> u32 \<Rightarrow> u64 \<times> u64 \<Rightarrow> u16 \<Rightarrow> user_state \<Rightarrow> user_state \<times> nat" where
  "alloc_user_entry tid pid loc ty s =
     (let (entry, generation0, s1) =
        (if freelist s \<noteq> -1 then
           let entry = unat (freelist s)
           in (entry, ue_generation (user_entries s entry) + 1,
               s\<lparr>freelist := ue_offset (user_entries s entry)\<rparr>)
         else (nb_handles s, 1, s\<lparr>nb_handles := nb_handles s + 1\<rparr>));
        generation = (if generation0 = 0 \<or> generation0 = 0xffff then 1 else generation0)
      in (if MAX_USER_HANDLES \<le> entry then (s1\<lparr>user_failed := True\<rparr>, entry)
          else (s1\<lparr>user_entries := (user_entries s1)(entry :=
                     \<lparr>ue_offset = snd loc, ue_tid = tid, ue_pid = pid, ue_id = fst loc,
                      ue_type = ty, ue_generation = generation\<rparr>)\<rparr>, entry)))"

definition free_user_entry :: "nat \<Rightarrow> user_state \<Rightarrow> user_state" where
  "free_user_entry entry s =
     (if MAX_USER_HANDLES \<le> entry then s\<lparr>user_failed := True\<rparr>
      else s\<lparr>user_entries := (user_entries s)(entry :=
               (user_entries s entry)\<lparr>ue_type := 0, ue_offset := freelist s\<rparr>),
             freelist := of_nat entry\<rparr>)"

section \<open>Handles\<close>

definition alloc_user_handle :: "u32 \<Rightarrow> u32 \<Rightarrow> u64 \<Rightarrow> (u64 \<times> u64) option \<Rightarrow> u16 \<Rightarrow> user_state \<Rightarrow> user_state \<times> u32" where
  "alloc_user_handle tid pid p shared ty s =
     (let loc = (case shared of None \<Rightarrow> (0, 0) | Some l \<Rightarrow> l);
          (s1, entry) = alloc_user_entry tid pid loc ty s;
          (s2, _) = set_server_object entry p s1
      in (s2, entry_to_handle entry s2))"

definition get_user_object :: "u32 \<Rightarrow> u16 \<Rightarrow> user_state \<Rightarrow> u64" where
  "get_user_object h ty s =
     (case handle_to_entry h s of
        None \<Rightarrow> 0
      | Some entry \<Rightarrow> if ue_type (user_entries s entry) \<noteq> ty then 0 else get_server_object entry s)"

definition get_user_full_handle :: "u32 \<Rightarrow> user_state \<Rightarrow> u32" where
  "get_user_full_handle h s =
     (if drop_bit 16 h \<noteq> 0 then h
      else case handle_to_entry h s of None \<Rightarrow> h | Some entry \<Rightarrow> entry_to_handle entry s)"

definition get_user_object_handle :: "u32 \<Rightarrow> u16 \<Rightarrow> user_state \<Rightarrow> u64 \<times> u32" where
  "get_user_object_handle h ty s =
     (case handle_to_entry h s of
        None \<Rightarrow> (0, h)
      | Some entry \<Rightarrow> if ue_type (user_entries s entry) \<noteq> ty then (0, h)
                     else (get_server_object entry s, entry_to_handle entry s))"

definition free_user_handle :: "u32 \<Rightarrow> user_state \<Rightarrow> user_state \<times> u64 result" where
  "free_user_handle h s =
     (case handle_to_entry h s of
        None \<Rightarrow> (s, Inl STATUS_INVALID_HANDLE)
      | Some entry \<Rightarrow> let (s1, p) = set_server_object entry 0 s
                     in (free_user_entry entry s1, Inr p))"

text \<open>\<^verbatim>\<open>next_user_handle\<close>: the scan from an entry on, and the call with the handle to start after.\<close>

function next_entry :: "u16 \<Rightarrow> user_state \<Rightarrow> nat \<Rightarrow> nat option" where
  "next_entry ty s entry =
     (if entry < nb_handles s then
        if ty = 0 \<or> ue_type (user_entries s entry) = ty then Some entry
        else next_entry ty s (Suc entry)
      else None)"
  by pat_completeness auto
termination by (relation "measure (\<lambda>(ty, s, entry). nb_handles s - entry)") auto

declare next_entry.simps [simp del]

definition next_user_handle :: "u32 \<Rightarrow> u16 \<Rightarrow> user_state \<Rightarrow> (u32 \<times> u64) option" where
  "next_user_handle h ty s =
     (let found = (\<lambda>entry. map_option (\<lambda>e. (entry_to_handle e s, get_server_object e s)) (next_entry ty s entry))
      in if h = 0 then found 0
         else let index = handle_index h
              in if index < 0 \<or> index \<ge> int (nb_handles s) then None
                 else found (nat index + 1))"

definition process_owned :: "u16 \<Rightarrow> bool" where
  "process_owned ty \<longleftrightarrow> ty \<in> {NTUSER_OBJ_MENU, NTUSER_OBJ_ICON, NTUSER_OBJ_WINPOS, NTUSER_OBJ_ACCEL, NTUSER_OBJ_IMC}"

definition free_if_owned :: "u32 \<Rightarrow> nat \<Rightarrow> user_state \<Rightarrow> user_state" where
  "free_if_owned pid i s =
     (if process_owned (ue_type (user_entries s i)) \<and> ue_pid (user_entries s i) = pid
      then free_user_entry i s else s)"

definition free_process_user_handles :: "u32 \<Rightarrow> user_state \<Rightarrow> user_state" where
  "free_process_user_handles pid s = fold (free_if_owned pid) [0 ..< nb_handles s] s"

text \<open>The requests of the clients.\<close>

definition req_alloc_user_handle :: "u32 \<Rightarrow> u32 \<Rightarrow> u16 \<Rightarrow> user_state \<Rightarrow> user_state \<times> u32" where
  "req_alloc_user_handle tid pid ty s = alloc_user_handle tid pid (-1) None ty s"

definition req_free_user_handle :: "u32 \<Rightarrow> u16 \<Rightarrow> user_state \<Rightarrow> user_state \<times> unit result" where
  "req_free_user_handle h ty s =
     (case handle_to_entry h s of
        Some entry \<Rightarrow> if ue_type (user_entries s entry) = ty then (free_user_entry entry s, Inr ())
                     else (s, Inl STATUS_INVALID_HANDLE)
      | None \<Rightarrow> (s, Inl STATUS_INVALID_HANDLE))"

end
