(* ===== verification/User_Handle_Correct.thy ===== *)
theory User_Handle_Correct
  imports User_Handles
begin

text \<open>
  Correctness of the user handle table: the invariant of its free list and generations, the abstract
  map of live entries that the operations refine, and what a client can rely on when it keeps a handle.
\<close>

section \<open>The value of a handle\<close>

lemma MAX_USER_HANDLES_val [simp]: "MAX_USER_HANDLES = 32744"
  by (simp add: MAX_USER_HANDLES_def LAST_USER_HANDLE_def FIRST_USER_HANDLE_def drop_bit_eq_div)

lemma unat_push_bit1: "i < 32744 \<Longrightarrow> unat (push_bit 1 (of_nat i :: u32)) = 2 * i"
  by (simp add: push_bit_eq_mult unat_word_ariths unat_of_nat)

lemma unat_push_bit16: "unat (push_bit 16 (ucast (g :: u16)) :: u32) = unat g * 65536"
  using unsigned_less [where ?'a=nat, of g] by (simp add: push_bit_eq_mult unat_word_ariths unsigned_ucast_eq take_bit_nat_eq_self)

lemma unat_entry_to_handle:
  assumes "i < MAX_USER_HANDLES"
  shows "unat (entry_to_handle i s) = 2 * i + 32 + unat (ue_generation (user_entries s i)) * 65536"
proof -
  have "unat (ue_generation (user_entries s i)) < 65536"
    using unsigned_less [where ?'a=nat, of "ue_generation (user_entries s i)"] by simp
  then show ?thesis using assms unat_push_bit1 [of i]
    by (simp only: entry_to_handle_def FIRST_USER_HANDLE_def unat_word_ariths unat_push_bit16) simp
qed

lemma sint_small: "unat w < 2147483648 \<Longrightarrow> sint (w :: u32) = int (unat w)"
proof -
  assume "unat w < 2147483648"
  then have "int (unat w) < 2147483648" by linarith
  then show ?thesis by (simp add: sint_uint signed_take_bit_int_eq_self_iff order_trans [of _ 0])
qed

lemma low_word: "h AND 0xffff = take_bit 16 (h :: u32)"
  by (simp add: take_bit_eq_mask mask_eq_exp_minus_1 and.commute)

lemma handle_index_nat:
  assumes "32 \<le> unat h mod 65536"
  shows "handle_index h = int ((unat h mod 65536 - 32) div 2)"
proof -
  let ?w = "(h AND 0xffff) - 0x20"
  have u: "unat (h AND 0xffff) = unat h mod 65536"
    by (simp add: low_word take_bit_eq_mod unat_mod)
  have "0x20 \<le> h AND 0xffff" using assms by (simp add: word_le_nat_alt u)
  then have w: "unat ?w = unat h mod 65536 - 32" by (simp add: unat_sub u)
  have d: "unat (drop_bit 1 ?w) = (unat h mod 65536 - 32) div 2"
    by (simp add: drop_bit_eq_div unat_div w)
  have "unat (drop_bit 1 ?w) < 2 ^ 31" unfolding d by (rule le_less_trans [of _ 65536]) auto
  then have "sint (drop_bit 1 ?w) = int (unat (drop_bit 1 ?w))" by (intro sint_small) simp
  then show ?thesis unfolding handle_index_def FIRST_USER_HANDLE_def by (simp only: d)
qed

lemma handle_index_entry:
  assumes "i < MAX_USER_HANDLES"
  shows "handle_index (entry_to_handle i s) = int i"
proof -
  have "unat (entry_to_handle i s) mod 65536 = 2 * i + 32"
    using assms by (simp add: unat_entry_to_handle)
  then show ?thesis by (simp add: handle_index_nat)
qed

lemma handle_generation_entry:
  assumes "i < MAX_USER_HANDLES"
  shows "(ucast (drop_bit 16 (entry_to_handle i s)) :: u16) = ue_generation (user_entries s i)"
proof (rule word_unat_eq_iff [THEN iffD2])
  have g: "unat (ue_generation (user_entries s i)) < 65536"
    using unsigned_less [where ?'a=nat, of "ue_generation (user_entries s i)"] by simp
  then have "unat (drop_bit 16 (entry_to_handle i s)) = unat (ue_generation (user_entries s i))"
    using assms by (simp add: drop_bit_eq_div unat_div unat_entry_to_handle)
  then show "unat (ucast (drop_bit 16 (entry_to_handle i s)) :: u16) = unat (ue_generation (user_entries s i))"
    using g by (simp add: unsigned_ucast_eq take_bit_nat_eq_self)
qed

section \<open>Invariant\<close>

text \<open>The free list is a chain of distinct unused entries that ends in -1.\<close>

fun free_chain :: "(nat \<Rightarrow> user_entry) \<Rightarrow> u64 \<Rightarrow> nat list \<Rightarrow> bool" where
  "free_chain es f [] \<longleftrightarrow> f = -1"
| "free_chain es f (i # fl) \<longleftrightarrow> f = of_nat i \<and> free_chain es (ue_offset (es i)) fl"

definition user_inv :: "user_state \<Rightarrow> bool" where
  "user_inv s \<longleftrightarrow>
     nb_handles s \<le> MAX_USER_HANDLES \<and> \<not> user_failed s
     \<and> (\<forall>i < nb_handles s. ue_generation (user_entries s i) \<noteq> 0 \<and> ue_generation (user_entries s i) \<noteq> 0xffff)
     \<and> (\<exists>fl. free_chain (user_entries s) (freelist s) fl \<and> distinct fl
            \<and> (\<forall>i \<in> set fl. i < nb_handles s \<and> ue_type (user_entries s i) = 0))"

text \<open>The table is not exhausted.\<close>

definition user_room :: "user_state \<Rightarrow> bool" where
  "user_room s \<longleftrightarrow> freelist s \<noteq> -1 \<or> nb_handles s < MAX_USER_HANDLES"

definition next_generation :: "u16 \<Rightarrow> u16" where
  "next_generation g = (if g + 1 = 0 \<or> g + 1 = 0xffff then 1 else g + 1)"

lemma next_generation_proper: "next_generation g \<noteq> 0 \<and> next_generation g \<noteq> 0xffff"
  by (simp add: next_generation_def)

lemma free_chain_cong:
  "(\<And>j. j \<in> set fl \<Longrightarrow> ue_offset (es' j) = ue_offset (es j)) \<Longrightarrow> free_chain es' f fl = free_chain es f fl"
  by (induction fl arbitrary: f) auto

lemma unat_of_nat_index: "i < MAX_USER_HANDLES \<Longrightarrow> unat (of_nat i :: u64) = i"
  by (simp add: unat_of_nat)

lemma index_not_end: "i < MAX_USER_HANDLES \<Longrightarrow> (of_nat i :: u64) \<noteq> -1"
proof
  assume "i < MAX_USER_HANDLES" and "(of_nat i :: u64) = -1"
  then have "i = unat (-1 :: u64)" using unat_of_nat_index [of i] by metis
  then show False using \<open>i < MAX_USER_HANDLES\<close> by (simp add: unsigned_minus_1_eq_mask mask_eq_exp_minus_1)
qed

lemma user_inv_init: "user_inv user_init"
  by (auto simp: user_inv_def user_init_def intro: exI [of _ "[]"])

text \<open>What an allocation does, in both of its cases.\<close>

lemma alloc_user_entry_spec:
  assumes inv: "user_inv s" and room: "user_room s"
  obtains e g s1 where
    "alloc_user_entry tid pid loc ty s = (s1, e)"
    "user_inv s1" "e < nb_handles s1" "e < MAX_USER_HANDLES"
    "e < nb_handles s \<Longrightarrow> ue_type (user_entries s e) = 0 \<and> g = next_generation (ue_generation (user_entries s e))"
    "nb_handles s1 = max (nb_handles s) (Suc e)" "nb_handles s \<le> e \<Longrightarrow> e = nb_handles s"
    "user_entries s1 = (user_entries s)(e := \<lparr>ue_offset = snd loc, ue_tid = tid, ue_pid = pid, ue_id = fst loc, ue_type = ty, ue_generation = g\<rparr>)"
    "server_objects s1 = server_objects s"
proof (cases "freelist s = -1")
  case True
  let ?s1 = "s\<lparr>nb_handles := Suc (nb_handles s), user_entries := (user_entries s)(nb_handles s :=
      \<lparr>ue_offset = snd loc, ue_tid = tid, ue_pid = pid, ue_id = fst loc, ue_type = ty, ue_generation = 1\<rparr>)\<rparr>"
  have a: "alloc_user_entry tid pid loc ty s = (?s1, nb_handles s)"
    using True room by (simp add: alloc_user_entry_def user_room_def Let_def)
  have "user_inv ?s1"
    using True inv room by (auto simp: user_inv_def user_room_def less_Suc_eq intro!: exI [of _ "[]"])
  then show ?thesis using True room by (intro that [OF a]) (auto simp: user_room_def)
next
  case False
  obtain i fl where fl: "free_chain (user_entries s) (freelist s) (i # fl)" "distinct (i # fl)"
      "\<forall>j \<in> set (i # fl). j < nb_handles s \<and> ue_type (user_entries s j) = 0"
    using inv False unfolding user_inv_def by (metis free_chain.simps(1) neq_Nil_conv)
  have i: "i < nb_handles s" "i < MAX_USER_HANDLES" and f: "freelist s = of_nat i" "unat (freelist s) = i"
    using fl inv unat_of_nat_index [of i] by (auto simp: user_inv_def)
  let ?g = "next_generation (ue_generation (user_entries s i))"
  let ?es = "(user_entries s)(i := \<lparr>ue_offset = snd loc, ue_tid = tid, ue_pid = pid, ue_id = fst loc, ue_type = ty, ue_generation = ?g\<rparr>)"
  have chain: "free_chain ?es (ue_offset (user_entries s i)) fl"
    using fl by (subst free_chain_cong [of _ _ "user_entries s"]) auto
  have a: "alloc_user_entry tid pid loc ty s
      = (s\<lparr>freelist := ue_offset (user_entries s i), user_entries := ?es\<rparr>, i)"
    using False i unfolding alloc_user_entry_def f(2) by (simp add: Let_def next_generation_def)
  have "user_inv (s\<lparr>freelist := ue_offset (user_entries s i), user_entries := ?es\<rparr>)"
    using inv fl chain next_generation_proper [of "ue_generation (user_entries s i)"]
    by (auto simp: user_inv_def intro!: exI [of _ fl])
  then show ?thesis using a i fl by (intro that [OF a]) auto
qed

lemma free_user_entry_inv:
  assumes inv: "user_inv s" and e: "e < nb_handles s" "ue_type (user_entries s e) \<noteq> 0"
  shows "user_inv (free_user_entry e s)"
proof -
  obtain fl where fl: "free_chain (user_entries s) (freelist s) fl" "distinct fl"
      "\<forall>j \<in> set fl. j < nb_handles s \<and> ue_type (user_entries s j) = 0"
    using inv unfolding user_inv_def by blast
  let ?es = "(user_entries s)(e := (user_entries s e)\<lparr>ue_type := 0, ue_offset := freelist s\<rparr>)"
  have "e \<notin> set fl" using fl e by auto
  moreover from this have "free_chain ?es (freelist s) fl"
    using fl by (subst free_chain_cong [of _ _ "user_entries s"]) auto
  ultimately show ?thesis using inv e fl
    by (auto simp: user_inv_def free_user_entry_def intro!: exI [of _ "e # fl"])
qed

section \<open>The live entries\<close>

text \<open>
  The abstract state: for every slot in use its generation, type, object and owner. A handle names a
  slot if its generation is that of the slot, or one of the two wildcards of truncated handles.
\<close>

record live_entry =
  lv_generation :: u16
  lv_type :: u16
  lv_object :: u64
  lv_owner :: u32

definition live :: "user_state \<Rightarrow> nat \<Rightarrow> live_entry option" where
  "live s i =
     (if i < nb_handles s \<and> ue_type (user_entries s i) \<noteq> 0
      then Some \<lparr>lv_generation = ue_generation (user_entries s i), lv_type = ue_type (user_entries s i),
                 lv_object = server_objects s i, lv_owner = ue_pid (user_entries s i)\<rparr>
      else None)"

definition names_slot :: "u32 \<Rightarrow> (nat \<Rightarrow> live_entry option) \<Rightarrow> nat option" where
  "names_slot h m =
     (if handle_index h < 0 then None
      else case m (nat (handle_index h)) of
             None \<Rightarrow> None
           | Some l \<Rightarrow> if (ucast (drop_bit 16 h) :: u16) \<in> {0, 0xffff, lv_generation l}
                      then Some (nat (handle_index h)) else None)"

lemma handle_to_entry_live: "handle_to_entry h s = names_slot h (live s)"
  by (auto simp: handle_to_entry_def names_slot_def live_def Let_def)

lemma handle_to_entry_Some:
  "handle_to_entry h s = Some e \<Longrightarrow> e < nb_handles s \<and> ue_type (user_entries s e) \<noteq> 0 \<and> handle_index h = int e"
  by (auto simp: handle_to_entry_def Let_def split: if_splits)

lemma entry_to_handle_resolves:
  "user_inv s \<Longrightarrow> e < nb_handles s \<Longrightarrow> ue_type (user_entries s e) \<noteq> 0 \<Longrightarrow>
     handle_to_entry (entry_to_handle e s) s = Some e"
  by (simp add: handle_to_entry_def Let_def handle_index_entry handle_generation_entry user_inv_def)

lemma alloc_user_handle_spec:
  assumes inv: "user_inv s" and room: "user_room s" and call: "alloc_user_handle tid pid p shared ty s = (s', h)"
  obtains e g where
    "user_inv s'"
    "live s e = None"
    "live s' = (live s)(e :=
       if ty = 0 then None else Some \<lparr>lv_generation = g, lv_type = ty, lv_object = p, lv_owner = pid\<rparr>)"
    "h = entry_to_handle e s'"
    "e < nb_handles s'"
    "e < nb_handles s \<Longrightarrow> g = next_generation (ue_generation (user_entries s e))"
    "ue_generation (user_entries s' e) = g"
    "\<And>i. i \<noteq> e \<Longrightarrow> user_entries s' i = user_entries s i"
    "nb_handles s \<le> nb_handles s'"
proof -
  obtain e g s1 where a: "alloc_user_entry tid pid (case shared of None \<Rightarrow> (0, 0) | Some l \<Rightarrow> l) ty s = (s1, e)"
    and s1: "user_inv s1" "e < nb_handles s1" "e < MAX_USER_HANDLES"
    and old: "e < nb_handles s \<Longrightarrow> ue_type (user_entries s e) = 0 \<and> g = next_generation (ue_generation (user_entries s e))"
    and nb: "nb_handles s1 = max (nb_handles s) (Suc e)" "nb_handles s \<le> e \<Longrightarrow> e = nb_handles s"
    and es: "user_entries s1 = (user_entries s)(e := \<lparr>ue_offset = snd (case shared of None \<Rightarrow> (0, 0) | Some l \<Rightarrow> l),
       ue_tid = tid, ue_pid = pid, ue_id = fst (case shared of None \<Rightarrow> (0, 0) | Some l \<Rightarrow> l), ue_type = ty, ue_generation = g\<rparr>)"
    and so: "server_objects s1 = server_objects s"
    using alloc_user_entry_spec [OF inv room] by metis
  let ?s2 = "s1\<lparr>server_objects := (server_objects s1)(e := p)\<rparr>"
  have eq: "alloc_user_handle tid pid p shared ty s = (?s2, entry_to_handle e ?s2)"
    using a s1(3) by (simp add: alloc_user_handle_def set_server_object_def)
  have "user_inv ?s2" using s1(1) by (simp add: user_inv_def)
  moreover have nb2: "nb_handles s \<le> e \<longrightarrow> e = nb_handles s" using nb(2) by blast
  moreover have "live s e = None" using old by (auto simp: live_def)
  moreover have "live ?s2 = (live s)(e := if ty = 0 then None else Some \<lparr>lv_generation = g, lv_type = ty, lv_object = p, lv_owner = pid\<rparr>)"
    using nb(1) nb2 by (auto simp: live_def es so fun_eq_iff less_max_iff_disj less_Suc_eq)
  ultimately show ?thesis using that [of e g] old s1 nb call unfolding eq by (auto simp: es)
qed

lemma free_user_entry_live:
  assumes "user_inv s" "e < nb_handles s"
  shows "live (free_user_entry e s) = (live s)(e := None)"
  using assms by (auto simp: live_def free_user_entry_def user_inv_def fun_eq_iff)

lemma free_user_handle_spec:
  assumes inv: "user_inv s"
  shows "case handle_to_entry h s of
      None \<Rightarrow> free_user_handle h s = (s, Inl STATUS_INVALID_HANDLE)
    | Some e \<Rightarrow> user_inv (fst (free_user_handle h s)) \<and> snd (free_user_handle h s) = Inr (server_objects s e)
               \<and> live (fst (free_user_handle h s)) = (live s)(e := None)"
proof (cases "handle_to_entry h s")
  case (Some e)
  let ?s1 = "s\<lparr>server_objects := (server_objects s)(e := 0)\<rparr>"
  note e = handle_to_entry_Some [OF Some]
  have "e < MAX_USER_HANDLES" using e inv by (auto simp: user_inv_def)
  then have eq: "free_user_handle h s = (free_user_entry e ?s1, Inr (server_objects s e))"
    using Some by (simp add: free_user_handle_def set_server_object_def)
  have inv1: "user_inv ?s1" using inv by (simp add: user_inv_def)
  have "live (free_user_entry e ?s1) = (live ?s1)(e := None)" using free_user_entry_live [OF inv1] e by simp
  also have "\<dots> = (live s)(e := None)" by (auto simp: live_def fun_eq_iff)
  finally show ?thesis using Some eq free_user_entry_inv [OF inv1, of e] e by simp
qed (simp add: free_user_handle_def)

lemma req_free_user_handle_spec:
  assumes inv: "user_inv s"
  shows "user_inv (fst (req_free_user_handle h ty s))
     \<and> live (fst (req_free_user_handle h ty s)) =
         (case handle_to_entry h s of
            None \<Rightarrow> live s
          | Some e \<Rightarrow> if ue_type (user_entries s e) = ty then (live s)(e := None) else live s)"
  using assms free_user_entry_inv free_user_entry_live
  by (auto simp: req_free_user_handle_def split: option.split dest: handle_to_entry_Some)

text \<open>The end of a process frees exactly the entries it owns of the kinds that live in the client.\<close>

definition owned_by :: "u32 \<Rightarrow> live_entry \<Rightarrow> bool" where
  "owned_by pid l \<longleftrightarrow> process_owned (lv_type l) \<and> lv_owner l = pid"

definition drop_owned :: "u32 \<Rightarrow> (nat \<Rightarrow> live_entry option) \<Rightarrow> nat \<Rightarrow> live_entry option" where
  "drop_owned pid m i = (case m i of None \<Rightarrow> None | Some l \<Rightarrow> if owned_by pid l then None else Some l)"

lemma process_owned_live: "process_owned ty \<Longrightarrow> ty \<noteq> 0"
  by (auto simp: process_owned_def)

lemma free_if_owned_spec:
  assumes "user_inv s" "i < nb_handles s"
  shows "user_inv (free_if_owned pid i s) \<and> nb_handles (free_if_owned pid i s) = nb_handles s
     \<and> live (free_if_owned pid i s) = (live s)(i := drop_owned pid (live s) i)"
  using assms free_user_entry_inv [OF assms] free_user_entry_live [OF assms] process_owned_live
  by (auto simp: free_if_owned_def drop_owned_def owned_by_def live_def fun_eq_iff)
     (auto simp: free_user_entry_def)

lemma free_owned_fold:
  "user_inv s \<Longrightarrow> \<forall>i \<in> set xs. i < nb_handles s \<Longrightarrow> distinct xs \<Longrightarrow>
     user_inv (fold (free_if_owned pid) xs s) \<and> nb_handles (fold (free_if_owned pid) xs s) = nb_handles s
     \<and> live (fold (free_if_owned pid) xs s) = (\<lambda>i. if i \<in> set xs then drop_owned pid (live s) i else live s i)"
proof (induction xs arbitrary: s)
  case (Cons x xs)
  have x: "user_inv (free_if_owned pid x s)" "nb_handles (free_if_owned pid x s) = nb_handles s"
    "live (free_if_owned pid x s) = (live s)(x := drop_owned pid (live s) x)"
    using free_if_owned_spec [of s x pid] Cons.prems by auto
  show ?case using Cons.IH [of "free_if_owned pid x s"] Cons.prems x
    by (auto simp: fun_eq_iff drop_owned_def)
qed simp

lemma live_beyond: "nb_handles s \<le> i \<Longrightarrow> live s i = None"
  by (simp add: live_def)

lemma free_process_user_handles_spec:
  assumes "user_inv s"
  shows "user_inv (free_process_user_handles pid s)"
    "live (free_process_user_handles pid s) = drop_owned pid (live s)"
  using free_owned_fold [OF assms, of "[0 ..< nb_handles s]" pid]
  by (auto simp: free_process_user_handles_def fun_eq_iff drop_owned_def live_beyond)

text \<open>The generation of a slot changes only when the slot is allocated.\<close>

lemma free_user_entry_keeps:
  "ue_generation (user_entries (free_user_entry e s) i) = ue_generation (user_entries s i)"
  "nb_handles (free_user_entry e s) = nb_handles s"
  by (simp_all add: free_user_entry_def)

lemma free_user_handle_keeps:
  "ue_generation (user_entries (fst (free_user_handle h s)) i) = ue_generation (user_entries s i)"
  "nb_handles (fst (free_user_handle h s)) = nb_handles s"
  by (simp_all add: free_user_handle_def set_server_object_def free_user_entry_keeps split: option.split)

lemma req_free_user_handle_keeps:
  "ue_generation (user_entries (fst (req_free_user_handle h ty s)) i) = ue_generation (user_entries s i)"
  "nb_handles (fst (req_free_user_handle h ty s)) = nb_handles s"
  by (simp_all add: req_free_user_handle_def free_user_entry_keeps split: option.split)

lemma free_owned_fold_keeps:
  "ue_generation (user_entries (fold (free_if_owned pid) xs s) i) = ue_generation (user_entries s i)"
  "nb_handles (fold (free_if_owned pid) xs s) = nb_handles s"
  by (induction xs arbitrary: s) (simp_all add: free_if_owned_def free_user_entry_keeps)

lemmas keeps_generation = free_user_handle_keeps req_free_user_handle_keeps
  free_owned_fold_keeps [where xs="[0 ..< nb_handles s]" and s=s for s, folded free_process_user_handles_def]

text \<open>A truncated handle and its completion name the same entry.\<close>

lemma get_user_full_handle_resolves:
  assumes "user_inv s"
  shows "handle_to_entry (get_user_full_handle h s) s = handle_to_entry h s"
  using assms by (auto simp: get_user_full_handle_def entry_to_handle_resolves split: option.split dest: handle_to_entry_Some)

text \<open>The scan of \<^verbatim>\<open>next_user_handle\<close> stops at the first entry of the type.\<close>

lemma next_entry_least:
  "next_entry ty s i = (if \<exists>e. i \<le> e \<and> e < nb_handles s \<and> (ty = 0 \<or> ue_type (user_entries s e) = ty)
     then Some (LEAST e. i \<le> e \<and> e < nb_handles s \<and> (ty = 0 \<or> ue_type (user_entries s e) = ty)) else None)"
proof (induction ty s i rule: next_entry.induct)
  case (1 ty s i)
  show ?case
  proof (cases "i < nb_handles s \<and> (ty = 0 \<or> ue_type (user_entries s i) = ty)")
    case True
    then show ?thesis by (subst next_entry.simps) (auto intro!: Least_equality [symmetric])
  next
    case False
    have "(i \<le> e \<and> e < nb_handles s \<and> (ty = 0 \<or> ue_type (user_entries s e) = ty))
        = (Suc i \<le> e \<and> e < nb_handles s \<and> (ty = 0 \<or> ue_type (user_entries s e) = ty))" for e
      using False by (cases "e = i") auto
    then show ?thesis using False 1 by (subst next_entry.simps) auto
  qed
qed

section \<open>Sequences of operations\<close>

text \<open>A step of the server, with the slot it allocates; a run, with the number of times it allocates slot \<open>i\<close>.\<close>

inductive user_step :: "user_state \<Rightarrow> nat option \<Rightarrow> user_state \<Rightarrow> bool" where
  alloc: "user_room s \<Longrightarrow> alloc_user_handle tid pid p shared ty s = (s', h) \<Longrightarrow> user_step s (Some (nat (handle_index h))) s'"
| free: "user_step s None (fst (free_user_handle h s))"
| req_free: "user_step s None (fst (req_free_user_handle h ty s))"
| exit: "user_step s None (free_process_user_handles pid s)"

inductive user_run :: "nat \<Rightarrow> nat \<Rightarrow> user_state \<Rightarrow> user_state \<Rightarrow> bool" for i where
  start: "user_run i 0 s s"
| step: "user_run i n s s' \<Longrightarrow> user_step s' l s'' \<Longrightarrow> user_run i (if l = Some i then Suc n else n) s s''"

lemma user_step_spec:
  assumes "user_step s l s'" and inv: "user_inv s"
  shows "user_inv s' \<and> nb_handles s \<le> nb_handles s' \<and>
    (i < nb_handles s \<longrightarrow> ue_generation (user_entries s' i) =
       (if l = Some i then next_generation (ue_generation (user_entries s i)) else ue_generation (user_entries s i)))
    \<and> (l \<noteq> Some i \<longrightarrow> live s i = None \<longrightarrow> live s' i = None)"
  using assms(1)
proof cases
  case (alloc tid pid p shared ty h)
  obtain e g where a: "user_inv s'" "live s e = None" "h = entry_to_handle e s'" "e < nb_handles s'"
      "e < nb_handles s \<Longrightarrow> g = next_generation (ue_generation (user_entries s e))"
      "ue_generation (user_entries s' e) = g"
      "\<And>j. j \<noteq> e \<Longrightarrow> user_entries s' j = user_entries s j" "nb_handles s \<le> nb_handles s'"
      "live s' = (live s)(e := if ty = 0 then None else Some \<lparr>lv_generation = g, lv_type = ty, lv_object = p, lv_owner = pid\<rparr>)"
    by (rule alloc_user_handle_spec [OF inv alloc(2, 3)]) blast
  have "nat (handle_index h) = e" using a handle_index_entry [of e s'] by (auto simp: user_inv_def)
  then show ?thesis using a alloc(1) by auto
next
  case (free h)
  then show ?thesis using free_user_handle_spec [OF inv, of h]
    by (auto simp: keeps_generation inv split: option.splits)
next
  case (req_free h ty)
  then show ?thesis using req_free_user_handle_spec [OF inv, of h ty]
    by (auto simp: keeps_generation inv split: option.splits)
next
  case (exit pid)
  then show ?thesis using free_process_user_handles_spec [OF inv, of pid]
    by (auto simp: keeps_generation drop_owned_def)
qed

lemma user_run_inv: "user_run i n s s' \<Longrightarrow> user_inv s \<Longrightarrow> user_inv s'"
  by (induction rule: user_run.induct) (auto dest: user_step_spec)

lemma user_run_generation:
  assumes "user_run i n s s'" "user_inv s" "i < nb_handles s"
  shows "i < nb_handles s' \<and> ue_generation (user_entries s' i) = (next_generation ^^ n) (ue_generation (user_entries s i))
     \<and> (n = 0 \<longrightarrow> live s i = None \<longrightarrow> live s' i = None)"
  using assms
proof (induction rule: user_run.induct)
  case (step n s s' l s'')
  then show ?case using user_step_spec [of s' l s'' i] user_run_inv [of i n s s'] by auto
qed simp

lemma unat_next_generation:
  assumes "g \<noteq> 0" "g \<noteq> 0xffff"
  shows "unat (next_generation g) = unat g mod 65534 + 1"
proof -
  have g: "unat g < 65536" using unsigned_less [where ?'a=nat, of g] by simp
  have "unat g \<noteq> 0" "unat g \<noteq> 65535" using assms by (auto simp: word_unat_eq_iff)
  with g have u: "unat (g + 1) = unat g + 1" by (simp add: unat_word_ariths)
  have "(g + 1 = 0xffff) = (unat g = 65534)" unfolding word_unat_eq_iff u by simp
  moreover have "g + 1 \<noteq> 0" unfolding word_unat_eq_iff u by simp
  ultimately show ?thesis using g \<open>unat g \<noteq> 65535\<close> u by (auto simp: next_generation_def)
qed

lemma unat_iterate_generation:
  assumes "g \<noteq> 0" "g \<noteq> 0xffff"
  shows "unat ((next_generation ^^ n) g) = (unat g - 1 + n) mod 65534 + 1"
proof (induction n)
  case 0
  have "unat g < 65536" using unsigned_less [where ?'a=nat, of g] by simp
  moreover have "unat g \<noteq> 0" "unat g \<noteq> 65535" using assms by (auto simp: word_unat_eq_iff)
  ultimately show ?case by simp
next
  case (Suc n)
  have "(next_generation ^^ n) g \<noteq> 0 \<and> (next_generation ^^ n) g \<noteq> 0xffff"
    using assms next_generation_proper by (cases n) auto
  then show ?case using Suc by (simp add: unat_next_generation mod_Suc_eq)
qed

lemma iterate_generation_differs:
  assumes "g \<noteq> 0" "g \<noteq> 0xffff" "0 < n" "n < 65534"
  shows "(next_generation ^^ n) g \<noteq> g"
proof
  assume "(next_generation ^^ n) g = g"
  then have "(unat g - 1 + n) mod 65534 + 1 = (unat g - 1 + 0) mod 65534 + 1"
    using unat_iterate_generation [OF assms(1, 2), of n] unat_iterate_generation [OF assms(1, 2), of 0]
    by (metis funpow_0)
  then have "(unat g - 1 + n) mod 65534 = (unat g - 1) mod 65534" by simp
  then have "65534 dvd n" using mod_eq_dvd_iff_nat [of "unat g - 1" "unat g - 1 + n" 65534] by simp
  then show False using assms by (auto dest: dvd_imp_le)
qed

section \<open>Properties\<close>

text \<open>The reachable states and what they give.\<close>

definition one_menu :: "user_state \<Rightarrow> user_state" where
  "one_menu s = fst (req_alloc_user_handle 8 4 NTUSER_OBJ_MENU s)"

lemmas user_handle_defs = req_alloc_user_handle_def alloc_user_handle_def alloc_user_entry_def set_server_object_def
  free_user_handle_def free_user_entry_def handle_to_entry_def entry_to_handle_def FIRST_USER_HANDLE_def handle_index_def

lemma one_menu_step:
  assumes "user_room s"
  shows "user_step s (Some (nat (handle_index (snd (req_alloc_user_handle 8 4 NTUSER_OBJ_MENU s))))) (one_menu s)"
  by (rule user_step.alloc [OF assms]) (simp add: one_menu_def req_alloc_user_handle_def)

lemma one_menu_first: "user_step user_init (Some 0) (one_menu user_init)"
proof -
  have "snd (req_alloc_user_handle 8 4 NTUSER_OBJ_MENU user_init) = 0x10020"
    by (simp add: user_init_def user_handle_defs push_bit_eq_mult)
  then show ?thesis using one_menu_step [of user_init]
    by (simp add: user_room_def user_init_def handle_index_def FIRST_USER_HANDLE_def)
qed

lemma one_menu_run: "user_run 0 1 user_init (one_menu user_init)" "live (one_menu user_init) 0 \<noteq> None"
  "handle_to_entry 0x10020 (one_menu user_init) = Some 0"
  using user_run.step [OF user_run.start one_menu_first, of 0]
  by (simp_all add: one_menu_def live_def user_init_def user_handle_defs)

lemma one_menu_again:
  "user_run 0 1 (fst (free_user_handle 0x10020 (one_menu user_init)))
     (one_menu (fst (free_user_handle 0x10020 (one_menu user_init))))" (is "user_run 0 1 ?s (one_menu ?s)")
proof -
  have s: "freelist ?s = 0" "ue_generation (user_entries ?s 0) = 1"
    using one_menu_run(3) by (simp_all add: free_user_handle_def) (simp_all add: one_menu_def user_init_def user_handle_defs)
  have "snd (req_alloc_user_handle 8 4 NTUSER_OBJ_MENU ?s) = 0x20020"
    using s by (simp add: req_alloc_user_handle_def alloc_user_handle_def alloc_user_entry_def
        set_server_object_def entry_to_handle_def FIRST_USER_HANDLE_def push_bit_eq_mult)
  then have "user_step ?s (Some 0) (one_menu ?s)"
    using one_menu_step [of ?s] s(1) by (simp add: user_room_def handle_index_def FIRST_USER_HANDLE_def)
  then show ?thesis using user_run.step [OF user_run.start, of ?s "Some 0" "one_menu ?s" 0] by simp
qed

lemma user_reachable_inv: "user_run k n user_init s \<Longrightarrow> user_inv s"
  using user_run_inv user_inv_init by blast

lemma alloc_user_handle_fresh:
  assumes inv: "user_inv s" and "user_room s" "ty \<noteq> 0" and a: "alloc_user_handle tid pid p shared ty s = (s', h)"
  shows "\<exists>i g. live s i = None \<and> live s' = (live s)(i \<mapsto> \<lparr>lv_generation = g, lv_type = ty, lv_object = p, lv_owner = pid\<rparr>)
     \<and> handle_to_entry h s' = Some i \<and> handle_to_entry h s = None \<and> get_user_object h ty s' = p"
proof -
  obtain e g where s': "user_inv s'" "live s e = None" "h = entry_to_handle e s'" "e < nb_handles s'"
      "live s' = (live s)(e \<mapsto> \<lparr>lv_generation = g, lv_type = ty, lv_object = p, lv_owner = pid\<rparr>)"
    by (rule alloc_user_handle_spec [OF inv assms(2) a]) (use \<open>ty \<noteq> 0\<close> in auto)
  have e: "ue_type (user_entries s' e) = ty" "server_objects s' e = p"
    using fun_cong [OF s'(5), of e] by (auto simp: live_def split: if_splits)
  then have r: "handle_to_entry h s' = Some e" using s' \<open>ty \<noteq> 0\<close> by (simp add: entry_to_handle_resolves)
  have "handle_index h = int e" using r by (auto dest: handle_to_entry_Some)
  then have "handle_to_entry h s = None" using s'(2) by (simp add: handle_to_entry_live names_slot_def)
  moreover have "get_user_object h ty s' = p" using r e by (simp add: get_user_object_def get_server_object_def)
  ultimately show ?thesis using s' r by blast
qed

lemma free_user_handle_live:
  assumes "user_inv s"
  shows "case names_slot h (live s) of
        None \<Rightarrow> free_user_handle h s = (s, Inl STATUS_INVALID_HANDLE)
      | Some i \<Rightarrow> snd (free_user_handle h s) = Inr (lv_object (the (live s i)))
                 \<and> live (fst (free_user_handle h s)) = (live s)(i := None)"
  using free_user_handle_spec [OF assms, of h] handle_to_entry_Some [of h s]
  by (auto simp: live_def simp flip: handle_to_entry_live split: option.splits)

text \<open>
  C6. In every state that operations on user handles reach from the start, with allocations only while the table has
  room, no array has been overrun, and an
  entry in use is found through its own handle. Every operation refines its counterpart on the map of
  live entries: an allocation in a table with room takes an unused slot, changes no other, and returns a
  handle that named nothing before and names the new object; freeing a handle drops its slot and reports
  the object, or refuses a handle that names none; the end of a process drops exactly the client
  objects that it owns.
\<close>

theorem user_handles_refine:
  assumes "user_run k n user_init s"
  shows "\<not> user_failed s
    \<and> (\<forall>e. live s e \<noteq> None \<longrightarrow> handle_to_entry (entry_to_handle e s) s = Some e)
    \<and> (\<forall>tid pid p shared ty s' h. user_room s \<and> ty \<noteq> 0 \<and> alloc_user_handle tid pid p shared ty s = (s', h) \<longrightarrow>
        (\<exists>i g. live s i = None \<and> live s' = (live s)(i \<mapsto> \<lparr>lv_generation = g, lv_type = ty, lv_object = p, lv_owner = pid\<rparr>)
          \<and> handle_to_entry h s' = Some i \<and> handle_to_entry h s = None \<and> get_user_object h ty s' = p))
    \<and> (\<forall>h. case names_slot h (live s) of
        None \<Rightarrow> free_user_handle h s = (s, Inl STATUS_INVALID_HANDLE)
      | Some i \<Rightarrow> snd (free_user_handle h s) = Inr (lv_object (the (live s i)))
                 \<and> live (fst (free_user_handle h s)) = (live s)(i := None))
    \<and> (\<forall>pid. live (free_process_user_handles pid s) = drop_owned pid (live s))"
proof -
  have inv: "user_inv s" using assms by (rule user_reachable_inv)
  have "\<forall>e. live s e \<noteq> None \<longrightarrow> handle_to_entry (entry_to_handle e s) s = Some e"
    using entry_to_handle_resolves [OF inv] by (simp add: live_def)
  moreover have "\<not> user_failed s" using inv by (simp add: user_inv_def)
  ultimately show ?thesis
    using alloc_user_handle_fresh [OF inv] free_user_handle_live [OF inv] free_process_user_handles_spec(2) [OF inv]
    by blast
qed

text \<open>One allocation of a menu, then the laws at that state.\<close>

theorem user_handles_refine_witness:
  "user_run 0 1 user_init (one_menu user_init) \<and> live (one_menu user_init) 0 \<noteq> None
     \<and> handle_to_entry (entry_to_handle 0 (one_menu user_init)) (one_menu user_init) = Some 0"
  using user_handles_refine [OF one_menu_run(1)] one_menu_run(1, 2) by blast

text \<open>
  C14. A handle that has been freed stays invalid until its slot has been allocated again 65534 times, through any
  sequence of operations: no other window, hook or menu is mistaken for the freed one. The bound is the
  number of generations; truncated handles carry no generation and are not covered.
\<close>

theorem stale_user_handle_rejected:
  assumes "user_run k m user_init s"
    and "handle_to_entry h s = Some i"
    and "(ucast (drop_bit 16 h) :: u16) \<noteq> 0" and "(ucast (drop_bit 16 h) :: u16) \<noteq> 0xffff"
    and "user_run i n (fst (free_user_handle h s)) s'" and "n < 65534"
  shows "handle_to_entry h s' = None \<and> get_user_object h ty s' = 0 \<and> free_user_handle h s' = (s', Inl STATUS_INVALID_HANDLE)"
proof -
  let ?s1 = "fst (free_user_handle h s)" and ?g = "ucast (drop_bit 16 h) :: u16"
  have inv: "user_inv s" using assms(1) by (rule user_reachable_inv)
  have i: "i < nb_handles s" "handle_index h = int i" using assms(2) by (auto dest: handle_to_entry_Some)
  have g: "ue_generation (user_entries s i) = ?g"
    using assms(2-4) by (auto simp: handle_to_entry_def Let_def split: if_splits)
  have s1: "user_inv ?s1" "live ?s1 i = None" using free_user_handle_spec [OF inv, of h] assms(2) by auto
  have r: "ue_generation (user_entries s' i) = (next_generation ^^ n) ?g" "n = 0 \<longrightarrow> live s' i = None"
    using user_run_generation [OF assms(5) s1(1)] i s1(2) by (auto simp: keeps_generation g)
  have "live s' i = None \<or> ue_generation (user_entries s' i) \<noteq> ?g"
    using iterate_generation_differs [OF assms(3, 4), of n] r assms(6) by auto
  then have "handle_to_entry h s' = None"
    using i(2) assms(3, 4) by (auto simp: handle_to_entry_def live_def Let_def split: if_splits)
  then show ?thesis by (simp add: get_user_object_def free_user_handle_def)
qed

text \<open>A menu is freed and its slot allocated again: the old handle names nothing.\<close>

theorem stale_user_handle_rejected_witness:
  "handle_to_entry 0x10020 (one_menu (fst (free_user_handle 0x10020 (one_menu user_init)))) = None"
  using stale_user_handle_rejected [OF one_menu_run(1, 3) _ _ one_menu_again, of 0] by (simp add: drop_bit_eq_div)

text \<open>The state after a client has asked for \<open>n\<close> menu handles.\<close>

definition client_allocs :: "nat \<Rightarrow> user_state" where
  "client_allocs n = ((\<lambda>s. fst (req_alloc_user_handle 8 4 NTUSER_OBJ_MENU s)) ^^ n) user_init"

lemma client_allocs_Suc: "client_allocs (Suc n) = fst (req_alloc_user_handle 8 4 NTUSER_OBJ_MENU (client_allocs n))"
  by (simp add: client_allocs_def)

lemma req_alloc_at_end:
  assumes "freelist s = -1"
  shows "nb_handles (fst (req_alloc_user_handle tid pid ty s)) = Suc (nb_handles s)"
    "freelist (fst (req_alloc_user_handle tid pid ty s)) = -1"
    "user_failed (fst (req_alloc_user_handle tid pid ty s)) \<longleftrightarrow> user_failed s \<or> MAX_USER_HANDLES \<le> nb_handles s"
  using assms
  by (simp_all add: req_alloc_user_handle_def alloc_user_handle_def alloc_user_entry_def set_server_object_def Let_def)

lemma client_allocs_fill:
  "n \<le> MAX_USER_HANDLES \<Longrightarrow> nb_handles (client_allocs n) = n \<and> freelist (client_allocs n) = -1 \<and> \<not> user_failed (client_allocs n)"
proof (induction n)
  case 0
  show ?case by (simp add: client_allocs_def user_init_def)
next
  case (Suc n)
  then show ?case by (simp add: client_allocs_Suc req_alloc_at_end)
qed

text \<open>
  C38. The table has room for 32744 entries, and nothing in the code stops at that number: a client that asks
  for one more handle than that makes the server write behind its arrays.
\<close>

theorem user_table_overflow:
  "\<not> user_failed (client_allocs MAX_USER_HANDLES) \<and> user_failed (client_allocs (Suc MAX_USER_HANDLES))"
  using client_allocs_fill [OF order_refl] by (simp add: client_allocs_Suc req_alloc_at_end del: MAX_USER_HANDLES_val)

end
