(* ===== verification/File_Locks.thy ===== *)
theory File_Locks
  imports Wine_Prelude
begin

text \<open>
  Open files, their inodes, sharing modes and byte-range locks, from \<^verbatim>\<open>server/fd.c\<close>. The comment at the top of that
  file says what makes it hard: Posix drops all locks of a process on a file as soon as the process
  closes any descriptor of that file, so that closed descriptors are kept in the inode until all
  the locks are gone.

  The system calls are modelled by what Posix says of them: a successful \<^verbatim>\<open>fcntl( F_SETLK )\<close> sets the lock
  type of a range of bytes of the inode, \<^verbatim>\<open>close\<close> clears the locks of the inode. \<open>unix_locks\<close> is that part of
  the state of the kernel. Which calls and allocations fail, and how, is the parameter \<open>unix_env\<close>, indexed by the
  number of the call. A failed assertion or an overrun of the buffer of holes sets
  \<open>fd_failed\<close>.
\<close>

section \<open>State\<close>

type_synonym file_pos = u64
type_synonym lock_id = nat
type_synonym fd_id = nat
type_synonym inode_id = nat
type_synonym proc_id = nat

datatype lock_type = F_RDLCK | F_WRLCK | F_UNLCK

datatype errno =
    ETXTBSY | EAGAIN | EBADF | ENOSPC | EACCES | ESRCH | EROFS | EPERM | EBUSY | ENOENT | EISDIR | ENFILE | EMFILE | EEXIST
  | EINVAL | ESPIPE | ENOTEMPTY | EIO | ENOTDIR | EFBIG | ENODEV | ENXIO | EXDEV | ELOOP | EOVERFLOW | ENOLCK | ENOTSUP
  | Other_Errno

record file_lock =
  fl_signaled :: bool
  fl_fd :: fd_id
  fl_shared :: bool
  fl_start :: file_pos
  fl_end :: file_pos
  fl_process :: "proc_id option"

record closed_fd =
  cf_unix_fd :: int
  cf_disp_flags :: u32
  cf_unix_name :: string

record fd =
  fd_inode :: "inode_id option"
  fd_closed :: closed_fd
  fd_locks :: "lock_id list"
  fd_access :: u32
  fd_options :: u32
  fd_sharing :: u32
  fd_unix_fd :: int
  fd_no_fd_status :: status
  fd_fs_locks :: bool

record inode =
  in_open :: "fd_id list"
  in_locks :: "lock_id list"
  in_closed :: "closed_fd list"

record fd_state =
  file_locks :: "lock_id \<Rightarrow> file_lock"
  next_lock :: nat
  fds :: "fd_id \<Rightarrow> fd"
  inodes :: "inode_id \<Rightarrow> inode"
  process_locks :: "proc_id \<Rightarrow> lock_id list"
  max_unix_offset :: file_pos
  unix_locks :: "inode_id \<Rightarrow> file_pos \<Rightarrow> lock_type option"
  unix_calls :: nat
  unlinked :: "string list"
  fd_failed :: bool

record unix_env =
  setlk_errno :: "nat \<Rightarrow> errno option"
  getlk_ok :: "nat \<Rightarrow> bool"
  malloc_ok :: "nat \<Rightarrow> bool"
  same_file :: "string \<Rightarrow> bool"

abbreviation (input) INT_MAX :: file_pos where "INT_MAX \<equiv> 0x7fffffff"
abbreviation (input) OFF_T_MAX :: file_pos where "OFF_T_MAX \<equiv> 0x7fffffffffffffff"
abbreviation (input) FILE_DISPOSITION_DELETE :: u32 where "FILE_DISPOSITION_DELETE \<equiv> 1"
abbreviation (input) FILE_DISPOSITION_POSIX_SEMANTICS :: u32 where "FILE_DISPOSITION_POSIX_SEMANTICS \<equiv> 2"

definition upd_lock :: "lock_id \<Rightarrow> (file_lock \<Rightarrow> file_lock) \<Rightarrow> fd_state \<Rightarrow> fd_state" where
  "upd_lock l f s = s\<lparr>file_locks := (file_locks s)(l := f (file_locks s l))\<rparr>"

definition upd_fd :: "fd_id \<Rightarrow> (fd \<Rightarrow> fd) \<Rightarrow> fd_state \<Rightarrow> fd_state" where
  "upd_fd d f s = s\<lparr>fds := (fds s)(d := f (fds s d))\<rparr>"

definition upd_inode :: "inode_id \<Rightarrow> (inode \<Rightarrow> inode) \<Rightarrow> fd_state \<Rightarrow> fd_state" where
  "upd_inode i f s = s\<lparr>inodes := (inodes s)(i := f (inodes s i))\<rparr>"

definition upd_process_locks :: "proc_id \<Rightarrow> (lock_id list \<Rightarrow> lock_id list) \<Rightarrow> fd_state \<Rightarrow> fd_state" where
  "upd_process_locks p f s = s\<lparr>process_locks := (process_locks s)(p := f (process_locks s p))\<rparr>"

section \<open>System calls\<close>

text \<open>The bytes of a range; length 0 means up to the end of the file, however large it is.\<close>

definition in_flock :: "file_pos \<Rightarrow> file_pos \<Rightarrow> file_pos \<Rightarrow> bool" where
  "in_flock l_start l_len b \<longleftrightarrow> l_start \<le> b \<and> (l_len = 0 \<or> b - l_start < l_len)"

definition fcntl_setlk ::
    "unix_env \<Rightarrow> inode_id \<Rightarrow> lock_type \<Rightarrow> file_pos \<Rightarrow> file_pos \<Rightarrow> fd_state \<Rightarrow> fd_state \<times> errno option" where
  "fcntl_setlk env i l_type l_start l_len s =
     (let s1 = s\<lparr>unix_calls := unix_calls s + 1\<rparr>
      in case setlk_errno env (unix_calls s) of
           Some e \<Rightarrow> (s1, Some e)
         | None \<Rightarrow>
             (s1\<lparr>unix_locks := (unix_locks s)(i := \<lambda>b.
                   if in_flock l_start l_len b
                   then if l_type = F_UNLCK then None else Some l_type
                   else unix_locks s i b)\<rparr>, None))"

definition unix_close :: "inode_id \<Rightarrow> fd_state \<Rightarrow> fd_state" where
  "unix_close i s = s\<lparr>unix_locks := (unix_locks s)(i := \<lambda>_. None)\<rparr>"

text \<open>\<^verbatim>\<open>file_set_error\<close> of \<^verbatim>\<open>server/file.c\<close>.\<close>

definition file_set_error :: "errno \<Rightarrow> status" where
  "file_set_error e =
     (case e of
        ETXTBSY \<Rightarrow> STATUS_SHARING_VIOLATION
      | EAGAIN \<Rightarrow> STATUS_SHARING_VIOLATION
      | EBADF \<Rightarrow> STATUS_INVALID_HANDLE
      | ENOSPC \<Rightarrow> STATUS_DISK_FULL
      | EACCES \<Rightarrow> STATUS_ACCESS_DENIED
      | ESRCH \<Rightarrow> STATUS_ACCESS_DENIED
      | EROFS \<Rightarrow> STATUS_ACCESS_DENIED
      | EPERM \<Rightarrow> STATUS_ACCESS_DENIED
      | EBUSY \<Rightarrow> STATUS_FILE_LOCK_CONFLICT
      | ENOENT \<Rightarrow> STATUS_NO_SUCH_FILE
      | EISDIR \<Rightarrow> STATUS_FILE_IS_A_DIRECTORY
      | ENFILE \<Rightarrow> STATUS_TOO_MANY_OPENED_FILES
      | EMFILE \<Rightarrow> STATUS_TOO_MANY_OPENED_FILES
      | EEXIST \<Rightarrow> STATUS_OBJECT_NAME_COLLISION
      | EINVAL \<Rightarrow> STATUS_INVALID_PARAMETER
      | ESPIPE \<Rightarrow> STATUS_ILLEGAL_FUNCTION
      | ENOTEMPTY \<Rightarrow> STATUS_DIRECTORY_NOT_EMPTY
      | EIO \<Rightarrow> STATUS_ACCESS_VIOLATION
      | ENOTDIR \<Rightarrow> STATUS_NOT_A_DIRECTORY
      | EFBIG \<Rightarrow> STATUS_SECTION_TOO_BIG
      | ENODEV \<Rightarrow> STATUS_NO_SUCH_DEVICE
      | ENXIO \<Rightarrow> STATUS_NO_SUCH_DEVICE
      | EXDEV \<Rightarrow> STATUS_NOT_SAME_DEVICE
      | ELOOP \<Rightarrow> STATUS_REPARSE_POINT_NOT_RESOLVED
      | EOVERFLOW \<Rightarrow> STATUS_INVALID_PARAMETER
      | _ \<Rightarrow> STATUS_UNSUCCESSFUL)"

section \<open>Unix locks\<close>

text \<open>
  \<^verbatim>\<open>set_unix_lock\<close>: \<open>None\<close> when it returns 1, else the status it sets. The loop starts over at most twice: with
  a read lock instead of a write lock, and with a smaller limit for offsets.
\<close>

function set_unix_lock ::
    "unix_env \<Rightarrow> fd_id \<Rightarrow> file_pos \<Rightarrow> file_pos \<Rightarrow> lock_type \<Rightarrow> fd_state \<Rightarrow> fd_state \<times> status option" where
  "set_unix_lock env d start end_pos ty s =
     (if \<not> fd_fs_locks (fds s d) then (s, None)
      else if start = end_pos then (s, None)
      else if start > max_unix_offset s then (s, None)
      else
        let l_len = (if end_pos = 0 \<or> end_pos > max_unix_offset s then 0 else end_pos - start)
        in case fd_inode (fds s d) of
             None \<Rightarrow> (s\<lparr>fd_failed := True\<rparr>, None)
           | Some i \<Rightarrow>
        (case fcntl_setlk env i ty start l_len s of
           (s1, None) \<Rightarrow> (s1, None)
         | (s1, Some e) \<Rightarrow>
             if e = EACCES \<and> getlk_ok env (unix_calls s1) then (s1, Some STATUS_FILE_LOCK_CONFLICT)
             else if e = EACCES \<or> e = EIO \<or> e = ENOLCK \<or> e = ENOTSUP
             then (upd_fd d (\<lambda>f. f\<lparr>fd_fs_locks := False\<rparr>) s1, None)
             else if e = EAGAIN then (s1, Some STATUS_FILE_LOCK_CONFLICT)
             else if e = EBADF
             then if ty = F_WRLCK then set_unix_lock env d start end_pos F_RDLCK s1
                  else (s1, Some STATUS_ACCESS_DENIED)
             else if (e = EOVERFLOW \<or> e = EINVAL) \<and> max_unix_offset s1 > INT_MAX
             then set_unix_lock env d start end_pos ty (s1\<lparr>max_unix_offset := INT_MAX\<rparr>)
             else (s1, Some (file_set_error e))))"
  by pat_completeness auto
termination
proof (relation "measure (\<lambda>(env, d, start, end_pos, ty, s).
    (if ty = F_WRLCK then 1 else 0) + (if max_unix_offset s > INT_MAX then 1 else 0 :: nat))", goal_cases)
qed (auto simp: fcntl_setlk_def Let_def split: option.splits)

declare set_unix_lock.simps [simp del]

text \<open>Whether the interval from \<open>start\<close> to \<open>end_pos\<close> overlaps a lock; an end of 0 is infinity.\<close>

definition lock_overlaps :: "file_lock \<Rightarrow> file_pos \<Rightarrow> file_pos \<Rightarrow> bool" where
  "lock_overlaps lock start end_pos =
     (if fl_end lock \<noteq> 0 \<and> start \<ge> fl_end lock then False
      else if end_pos \<noteq> 0 \<and> fl_start lock \<ge> end_pos then False
      else True)"

text \<open>
  The holes of \<^verbatim>\<open>remove_unix_locks\<close>. The doubly linked list in the buffer is a list of intervals; \<open>hb_used\<close> is the number of
  entries of the buffer that have been taken so far, and \<open>hb_ok\<close> is false after a failed assertion or an entry taken
  behind the end of the buffer.
\<close>

record hole_buffer =
  hb_size :: nat
  hb_used :: nat
  hb_ok :: bool

definition hole_assert :: "bool \<Rightarrow> hole_buffer \<Rightarrow> hole_buffer" where
  "hole_assert c hb = hb\<lparr>hb_ok := (hb_ok hb \<and> c)\<rparr>"

definition hole_take :: "hole_buffer \<Rightarrow> hole_buffer" where
  "hole_take hb = hb\<lparr>hb_ok := (hb_ok hb \<and> hb_used hb < hb_size hb), hb_used := hb_used hb + 1\<rparr>"

text \<open>The loop through the holes for one lock from \<open>ls\<close> to \<open>le\<close>.\<close>

fun hole_loop :: "file_pos \<Rightarrow> file_pos \<Rightarrow> (file_pos \<times> file_pos) list \<Rightarrow> hole_buffer \<Rightarrow> (file_pos \<times> file_pos) list \<times> hole_buffer" where
  "hole_loop ls le [] hb = ([], hb)"
| "hole_loop ls le ((cs, ce) # holes) hb =
     (if ce \<le> ls
      then (case hole_loop ls le holes hb of (hs, hb') \<Rightarrow> ((cs, ce) # hs, hb'))
      else if le \<noteq> 0 \<and> cs \<ge> le then ((cs, ce) # holes, hb)
      else if cs \<ge> ls
      then if le \<noteq> 0 \<and> le < ce then ((le, ce) # holes, hb)
           else hole_loop ls le holes hb
      else if le = 0 \<or> ce \<le> le
      then (case hole_loop ls le holes (hole_assert (cs < ls) hb) of (hs, hb') \<Rightarrow> ((cs, ls) # hs, hb'))
      else ((cs, ls) # (le, ce) # holes, hole_assert (le < ce \<and> ls < le) (hole_take hb)))"

text \<open>All locks of the inode; the loops are left when no hole remains.\<close>

fun build_holes ::
    "file_pos \<Rightarrow> file_pos \<Rightarrow> file_lock list \<Rightarrow> (file_pos \<times> file_pos) list \<Rightarrow> hole_buffer \<Rightarrow> (file_pos \<times> file_pos) list \<times> hole_buffer" where
  "build_holes start end_pos [] holes hb = (holes, hb)"
| "build_holes start end_pos (lock # locks) holes hb =
     (if fl_start lock = fl_end lock then build_holes start end_pos locks holes hb
      else if \<not> lock_overlaps lock start end_pos then build_holes start end_pos locks holes hb
      else case hole_loop (fl_start lock) (fl_end lock) holes hb of
             (holes', hb') \<Rightarrow> if holes' = [] then ([], hb') else build_holes start end_pos locks holes' hb')"

definition unlock_holes :: "unix_env \<Rightarrow> fd_id \<Rightarrow> (file_pos \<times> file_pos) list \<Rightarrow> fd_state \<Rightarrow> fd_state" where
  "unlock_holes env d holes s = fold (\<lambda>(cs, ce) s. fst (set_unix_lock env d cs ce F_UNLCK s)) holes s"

definition remove_unix_locks :: "unix_env \<Rightarrow> fd_id \<Rightarrow> file_pos \<Rightarrow> file_pos \<Rightarrow> fd_state \<Rightarrow> fd_state" where
  "remove_unix_locks env d start end0 s =
     (case fd_inode (fds s d) of
        None \<Rightarrow> s
      | Some i \<Rightarrow>
          if \<not> fd_fs_locks (fds s d) then s
          else if start = end0 \<or> start > max_unix_offset s then s
          else
            let end_pos = (if end0 = 0 \<or> end0 > max_unix_offset s then max_unix_offset s + 1 else end0);
                locks = map (file_locks s) (in_locks (inodes s i));
                count = length (filter (\<lambda>lock. fl_start lock \<noteq> fl_end lock \<and> lock_overlaps lock start end_pos) locks)
            in if count = 0 then fst (set_unix_lock env d start end_pos F_UNLCK s)
               else if \<not> malloc_ok env (unix_calls s) then s\<lparr>unix_calls := unix_calls s + 1\<rparr>
               else case build_holes start end_pos locks [(start, end_pos)] \<lparr>hb_size = count + 1, hb_used = 1, hb_ok = True\<rparr> of
                      (holes, hb) \<Rightarrow> unlock_holes env d holes (s\<lparr>unix_calls := unix_calls s + 1, fd_failed := (fd_failed s \<or> \<not> hb_ok hb)\<rparr>))"

section \<open>Inodes\<close>

definition unlink_closed_fd :: "unix_env \<Rightarrow> closed_fd \<Rightarrow> fd_state \<Rightarrow> fd_state" where
  "unlink_closed_fd env c s =
     (if same_file env (cf_unix_name c) then s\<lparr>unlinked := unlinked s @ [cf_unix_name c]\<rparr> else s)"

definition close_closed_fd :: "inode_id \<Rightarrow> closed_fd \<Rightarrow> fd_state \<Rightarrow> fd_state" where
  "close_closed_fd i c s = (if cf_unix_fd c \<noteq> -1 then unix_close i s else s)"

definition inode_close_pending :: "inode_id \<Rightarrow> bool \<Rightarrow> fd_state \<Rightarrow> fd_state" where
  "inode_close_pending i keep_unlinks s =
     (let closed = in_closed (inodes s i)
      in upd_inode i (\<lambda>n. n\<lparr>in_closed :=
             map (\<lambda>c. c\<lparr>cf_unix_fd := -1\<rparr>)
               (filter (\<lambda>c. keep_unlinks \<and> cf_disp_flags c AND FILE_DISPOSITION_DELETE \<noteq> 0) closed)\<rparr>)
           (fold (close_closed_fd i) closed s))"

definition inode_destroy :: "unix_env \<Rightarrow> inode_id \<Rightarrow> fd_state \<Rightarrow> fd_state" where
  "inode_destroy env i s =
     (let s0 = (if in_open (inodes s i) = [] \<and> in_locks (inodes s i) = [] then s else s\<lparr>fd_failed := True\<rparr>)
      in upd_inode i (\<lambda>n. n\<lparr>in_closed := []\<rparr>)
           (fold (\<lambda>c s. let s1 = close_closed_fd i c s
                        in if cf_disp_flags c AND FILE_DISPOSITION_DELETE \<noteq> 0 then unlink_closed_fd env c s1 else s1)
              (in_closed (inodes s i)) s0))"

definition inode_has_pending_close :: "inode_id \<Rightarrow> string \<Rightarrow> fd_state \<Rightarrow> bool" where
  "inode_has_pending_close i path s \<longleftrightarrow> (\<exists>c \<in> set (in_closed (inodes s i)). cf_unix_name c = path)"

definition inode_add_closed_fd :: "unix_env \<Rightarrow> inode_id \<Rightarrow> closed_fd \<Rightarrow> fd_state \<Rightarrow> fd_state" where
  "inode_add_closed_fd env i c s =
     (if in_locks (inodes s i) \<noteq> [] then upd_inode i (\<lambda>n. n\<lparr>in_closed := c # in_closed n\<rparr>) s
      else if cf_disp_flags c AND FILE_DISPOSITION_DELETE \<noteq> 0 \<and> cf_disp_flags c AND FILE_DISPOSITION_POSIX_SEMANTICS \<noteq> 0
      then unlink_closed_fd env c (close_closed_fd i c s)
      else if cf_disp_flags c AND FILE_DISPOSITION_DELETE \<noteq> 0 \<and> \<not> inode_has_pending_close i (cf_unix_name c) s
      then upd_inode i (\<lambda>n. n\<lparr>in_closed := c\<lparr>cf_unix_fd := -1\<rparr> # in_closed n\<rparr>) (close_closed_fd i c s)
      else close_closed_fd i c s)"

section \<open>Locks\<close>

definition add_lock ::
    "unix_env \<Rightarrow> proc_id \<Rightarrow> fd_id \<Rightarrow> bool \<Rightarrow> file_pos \<Rightarrow> file_pos \<Rightarrow> fd_state \<Rightarrow> fd_state \<times> lock_id result" where
  "add_lock env p d shared start end_pos s =
     (let s0 = s\<lparr>unix_calls := unix_calls s + 1\<rparr>
      in if \<not> malloc_ok env (unix_calls s) then (s0, Inl STATUS_NO_MEMORY)
      else case set_unix_lock env d start end_pos (if shared then F_RDLCK else F_WRLCK) s0 of
             (s1, Some err) \<Rightarrow> (s1, Inl err)
           | (s1, None) \<Rightarrow>
               let l = next_lock s1;
                   lock = \<lparr>fl_signaled = False, fl_fd = d, fl_shared = shared, fl_start = start, fl_end = end_pos, fl_process = Some p\<rparr>;
                   s2 = upd_fd d (\<lambda>f. f\<lparr>fd_locks := fd_locks f @ [l]\<rparr>)
                          (s1\<lparr>next_lock := l + 1, file_locks := (file_locks s1)(l := lock)\<rparr>);
                   s3 = (case fd_inode (fds s2 d) of
                           None \<Rightarrow> s2\<lparr>fd_failed := True\<rparr>
                         | Some i \<Rightarrow> upd_inode i (\<lambda>n. n\<lparr>in_locks := in_locks n @ [l]\<rparr>) s2)
               in (upd_process_locks p (\<lambda>ls. ls @ [l]) s3, Inr l))"

definition remove_lock :: "unix_env \<Rightarrow> bool \<Rightarrow> lock_id \<Rightarrow> fd_state \<Rightarrow> fd_state" where
  "remove_lock env remove_unix l s =
     (let lock = file_locks s l
      in case fd_inode (fds s (fl_fd lock)) of
           None \<Rightarrow> s\<lparr>fd_failed := True\<rparr>
         | Some i \<Rightarrow>
             let s1 = upd_fd (fl_fd lock) (\<lambda>f. f\<lparr>fd_locks := remove1 l (fd_locks f)\<rparr>) s;
                 s2 = upd_inode i (\<lambda>n. n\<lparr>in_locks := remove1 l (in_locks n)\<rparr>) s1;
                 s3 = (case fl_process lock of
                         None \<Rightarrow> s2\<lparr>fd_failed := True\<rparr>
                       | Some p \<Rightarrow> upd_process_locks p (remove1 l) s2);
                 s4 = (if remove_unix then remove_unix_locks env (fl_fd lock) (fl_start lock) (fl_end lock) s3 else s3);
                 s5 = (if in_locks (inodes s4 i) = [] then inode_close_pending i True s4 else s4)
             in upd_lock l (\<lambda>f. f\<lparr>fl_process := None, fl_signaled := True\<rparr>) s5)"

text \<open>
  The loops of \<^verbatim>\<open>remove_process_locks\<close> and \<^verbatim>\<open>remove_fd_locks\<close>; \<open>n\<close> bounds the number of rounds. Every round takes one
  lock off the list, so that its length is enough.
\<close>

fun remove_process_loop :: "unix_env \<Rightarrow> nat \<Rightarrow> proc_id \<Rightarrow> fd_state \<Rightarrow> fd_state" where
  "remove_process_loop env 0 p s = s"
| "remove_process_loop env (Suc n) p s =
     (case process_locks s p of
        [] \<Rightarrow> s
      | l # _ \<Rightarrow> remove_process_loop env n p (remove_lock env True l s))"

definition remove_process_locks :: "unix_env \<Rightarrow> proc_id \<Rightarrow> fd_state \<Rightarrow> fd_state" where
  "remove_process_locks env p s = remove_process_loop env (length (process_locks s p)) p s"

fun remove_fd_loop :: "unix_env \<Rightarrow> nat \<Rightarrow> fd_id \<Rightarrow> file_pos \<Rightarrow> file_pos \<Rightarrow> fd_state \<Rightarrow> fd_state \<times> file_pos \<times> file_pos" where
  "remove_fd_loop env 0 d start end_pos s = (s, start, end_pos)"
| "remove_fd_loop env (Suc n) d start end_pos s =
     (case fd_locks (fds s d) of
        [] \<Rightarrow> (s, start, end_pos)
      | l # _ \<Rightarrow>
          let lock = file_locks s l;
              start' = (if fl_start lock < start then fl_start lock else start);
              end' = (if fl_end lock = 0 \<or> fl_end lock > end_pos then fl_end lock - 1 else end_pos)
          in remove_fd_loop env n d start' end' (remove_lock env False l s))"

definition remove_fd_locks :: "unix_env \<Rightarrow> fd_id \<Rightarrow> fd_state \<Rightarrow> fd_state" where
  "remove_fd_locks env d s =
     (case remove_fd_loop env (length (fd_locks (fds s d))) d (-1) 0 s of
        (s1, start, end_pos) \<Rightarrow> if start < end_pos then remove_unix_locks env d start (end_pos + 1) s1 else s1)"

text \<open>
  \<^verbatim>\<open>lock_fd\<close> reports success, an error, or that the client has to wait: for the lock in the way, to which it gets a handle, or
  just for some time when the conflict is with another Unix process.
\<close>

datatype lock_result = Lock_Done | Lock_Failed status | Lock_Pending "lock_id option"

definition lock_fd ::
    "unix_env \<Rightarrow> proc_id \<Rightarrow> fd_id \<Rightarrow> file_pos \<Rightarrow> file_pos \<Rightarrow> bool \<Rightarrow> bool \<Rightarrow> fd_state \<Rightarrow> fd_state \<times> lock_result" where
  "lock_fd env p d start count shared wait s =
     (let end_pos = start + count
      in case fd_inode (fds s d) of
           None \<Rightarrow> (s, Lock_Failed STATUS_INVALID_DEVICE_REQUEST)
         | Some i \<Rightarrow>
             if end_pos \<noteq> 0 \<and> end_pos < start then (s, Lock_Failed STATUS_INVALID_PARAMETER)
             else case List.find (\<lambda>l. lock_overlaps (file_locks s l) start end_pos
                         \<and> \<not> (shared \<and> (fl_shared (file_locks s l) \<or> fl_fd (file_locks s l) = d))) (in_locks (inodes s i)) of
               Some l \<Rightarrow> if \<not> wait then (s, Lock_Failed STATUS_FILE_LOCK_CONFLICT) else (s, Lock_Pending (Some l))
             | None \<Rightarrow>
                 (case add_lock env p d shared start end_pos s of
                    (s1, Inr l) \<Rightarrow> (s1, Lock_Done)
                  | (s1, Inl err) \<Rightarrow>
                      if err = STATUS_FILE_LOCK_CONFLICT \<and> wait then (s1, Lock_Pending None) else (s1, Lock_Failed err)))"

definition unlock_fd :: "unix_env \<Rightarrow> fd_id \<Rightarrow> file_pos \<Rightarrow> file_pos \<Rightarrow> fd_state \<Rightarrow> fd_state \<times> status option" where
  "unlock_fd env d start count s =
     (let end_pos = start + count
      in case List.find (\<lambda>l. fl_start (file_locks s l) = start \<and> fl_end (file_locks s l) = end_pos) (fd_locks (fds s d)) of
           Some l \<Rightarrow> (remove_lock env True l s, None)
         | None \<Rightarrow> (s, Some STATUS_FILE_LOCK_CONFLICT))"

section \<open>Opening and closing\<close>

text \<open>
  \<^verbatim>\<open>fd_destroy\<close>, apart from what it releases that has nothing to do with the file. Each open file holds a reference to its
  inode, so that the inode goes with the last one.
\<close>

definition fd_destroy :: "unix_env \<Rightarrow> fd_id \<Rightarrow> fd_state \<Rightarrow> fd_state" where
  "fd_destroy env d s =
     (let s1 = remove_fd_locks env d s
      in case fd_inode (fds s1 d) of
           None \<Rightarrow> s1
         | Some i \<Rightarrow>
             let s2 = upd_inode i (\<lambda>n. n\<lparr>in_open := remove1 d (in_open n)\<rparr>) s1;
                 s3 = inode_add_closed_fd env i (fd_closed (fds s2 d)) s2
             in if in_open (inodes s3 i) = [] then inode_destroy env i s3 else s3)"

abbreviation (input) FILE_READ_DATA :: u32 where "FILE_READ_DATA \<equiv> 0x0001"
abbreviation (input) FILE_WRITE_DATA :: u32 where "FILE_WRITE_DATA \<equiv> 0x0002"
abbreviation (input) FILE_APPEND_DATA :: u32 where "FILE_APPEND_DATA \<equiv> 0x0004"
abbreviation (input) FILE_EXECUTE :: u32 where "FILE_EXECUTE \<equiv> 0x0020"
abbreviation (input) FILE_DELETE :: u32 where "FILE_DELETE \<equiv> 0x00010000"
abbreviation (input) FILE_SHARE_READ :: u32 where "FILE_SHARE_READ \<equiv> 1"
abbreviation (input) FILE_SHARE_WRITE :: u32 where "FILE_SHARE_WRITE \<equiv> 2"
abbreviation (input) FILE_SHARE_DELETE :: u32 where "FILE_SHARE_DELETE \<equiv> 4"
abbreviation (input) FILE_MAPPING_IMAGE :: u32 where "FILE_MAPPING_IMAGE \<equiv> 0x80000000"
abbreviation (input) FILE_MAPPING_WRITE :: u32 where "FILE_MAPPING_WRITE \<equiv> 0x40000000"
abbreviation (input) FILE_MAPPING_ACCESS :: u32 where "FILE_MAPPING_ACCESS \<equiv> 0x20000000"
abbreviation (input) FILE_DELETE_ON_CLOSE :: u32 where "FILE_DELETE_ON_CLOSE \<equiv> 0x00001000"

definition read_access :: u32 where "read_access = FILE_READ_DATA OR FILE_EXECUTE"
definition write_access :: u32 where "write_access = FILE_WRITE_DATA OR FILE_APPEND_DATA"
definition all_access :: u32 where "all_access = read_access OR write_access OR FILE_DELETE"

text \<open>
  The modes of the other opens of the file: the sharing that all of them permit, and the access that any has. \<open>others\<close> are the open files
  of the inode apart from the new one, in the order of the list.
\<close>

definition existing_modes :: "fd list \<Rightarrow> u32 \<times> u32" where
  "existing_modes others =
     fold (\<lambda>f (sharing, access).
             (if fd_access f AND all_access \<noteq> 0 then sharing AND fd_sharing f else sharing, access OR fd_access f))
       others (FILE_SHARE_READ OR FILE_SHARE_WRITE OR FILE_SHARE_DELETE, 0)"

text \<open>\<^verbatim>\<open>check_sharing\<close>; \<open>trunc\<close> is the flag \<^verbatim>\<open>O_TRUNC\<close> of the flags for the open call.\<close>

definition check_sharing_modes :: "fd list \<Rightarrow> u32 \<Rightarrow> u32 \<Rightarrow> bool \<Rightarrow> u32 \<Rightarrow> status" where
  "check_sharing_modes others access sharing trunc options =
     (let (existing_sharing, existing_access) = existing_modes others
      in if access AND read_access \<noteq> 0 \<and> existing_sharing AND FILE_SHARE_READ = 0
          \<or> access AND write_access \<noteq> 0 \<and> existing_sharing AND FILE_SHARE_WRITE = 0
          \<or> access AND FILE_DELETE \<noteq> 0 \<and> existing_sharing AND FILE_SHARE_DELETE = 0
         then STATUS_SHARING_VIOLATION
         else if existing_access AND FILE_MAPPING_WRITE \<noteq> 0 \<and> sharing AND FILE_SHARE_WRITE = 0
          \<or> existing_access AND FILE_MAPPING_IMAGE \<noteq> 0 \<and> access AND FILE_WRITE_DATA \<noteq> 0
         then STATUS_SHARING_VIOLATION
         else if existing_access AND FILE_MAPPING_IMAGE \<noteq> 0 \<and> options AND FILE_DELETE_ON_CLOSE \<noteq> 0
         then STATUS_CANNOT_DELETE
         else if existing_access AND FILE_MAPPING_ACCESS \<noteq> 0 \<and> trunc then STATUS_USER_MAPPED_FILE
         else if access AND all_access = 0 then 0
         else if existing_access AND read_access \<noteq> 0 \<and> sharing AND FILE_SHARE_READ = 0
          \<or> existing_access AND write_access \<noteq> 0 \<and> sharing AND FILE_SHARE_WRITE = 0
          \<or> existing_access AND FILE_DELETE \<noteq> 0 \<and> sharing AND FILE_SHARE_DELETE = 0
         then STATUS_SHARING_VIOLATION
         else 0)"

definition check_sharing :: "fd_id \<Rightarrow> u32 \<Rightarrow> u32 \<Rightarrow> bool \<Rightarrow> u32 \<Rightarrow> fd_state \<Rightarrow> fd_state \<times> status" where
  "check_sharing d access sharing trunc options s =
     (let s1 = upd_fd d (\<lambda>f. f\<lparr>fd_access := access, fd_sharing := sharing\<rparr>) s
      in case fd_inode (fds s1 d) of
           None \<Rightarrow> (s1\<lparr>fd_failed := True\<rparr>, 0)
         | Some i \<Rightarrow> (s1, check_sharing_modes (map (fds s1) (filter (\<lambda>f. f \<noteq> d) (in_open (inodes s1 i)))) access sharing trunc options))"

text \<open>
  The part of \<^verbatim>\<open>open_fd\<close> that makes a new open file known: it joins the list of its inode, then options and sharing modes
  are checked, and a file that may not be opened is released again. What \<^verbatim>\<open>fstat\<close> has told of the file are the
  arguments \<open>is_dir\<close> and \<open>writable\<close>; \<open>create\<close> and \<open>trunc\<close> are the flags for the open call.
\<close>

definition new_fd :: "inode_id \<Rightarrow> int \<Rightarrow> string \<Rightarrow> u32 \<Rightarrow> fd" where
  "new_fd i unix_fd name options =
     \<lparr>fd_inode = Some i, fd_closed = \<lparr>cf_unix_fd = unix_fd, cf_disp_flags = 0, cf_unix_name = name\<rparr>, fd_locks = [],
      fd_access = 0, fd_options = options, fd_sharing = 0, fd_unix_fd = unix_fd, fd_no_fd_status = 0, fd_fs_locks = True\<rparr>"

definition add_open_fd :: "fd_id \<Rightarrow> inode_id \<Rightarrow> fd \<Rightarrow> fd_state \<Rightarrow> fd_state" where
  "add_open_fd d i f s = upd_inode i (\<lambda>n. n\<lparr>in_open := d # in_open n\<rparr>) (upd_fd d (\<lambda>_. f) s)"

abbreviation (input) FILE_DIRECTORY_FILE :: u32 where "FILE_DIRECTORY_FILE \<equiv> 0x00000001"
abbreviation (input) FILE_NON_DIRECTORY_FILE :: u32 where "FILE_NON_DIRECTORY_FILE \<equiv> 0x00000040"
abbreviation (input) FILE_DISPOSITION_ON_CLOSE :: u32 where "FILE_DISPOSITION_ON_CLOSE \<equiv> 0x00000008"
abbreviation (input) FILE_DISPOSITION_IGNORE_READONLY_ATTRIBUTE :: u32 where "FILE_DISPOSITION_IGNORE_READONLY_ATTRIBUTE \<equiv> 0x00000010"

definition open_fd_inode ::
    "unix_env \<Rightarrow> fd_id \<Rightarrow> inode_id \<Rightarrow> int \<Rightarrow> string \<Rightarrow> bool \<Rightarrow> bool \<Rightarrow> bool \<Rightarrow> bool \<Rightarrow> u32 \<Rightarrow> u32 \<Rightarrow> u32 \<Rightarrow> fd_state
       \<Rightarrow> fd_state \<times> status" where
  "open_fd_inode env d i unix_fd name is_dir writable create trunc access sharing options s =
     (let s1 = add_open_fd d i (new_fd i unix_fd name options) s;
          error = (\<lambda>s err. (fd_destroy env d s, err))
      in if options AND FILE_DIRECTORY_FILE \<noteq> 0 \<and> \<not> is_dir then error s1 STATUS_NOT_A_DIRECTORY
         else if options AND FILE_NON_DIRECTORY_FILE \<noteq> 0 \<and> is_dir then error s1 STATUS_FILE_IS_A_DIRECTORY
         else case check_sharing d access sharing trunc options s1 of
           (s2, err) \<Rightarrow>
             if err \<noteq> 0 then error s2 err
             else if options AND FILE_DELETE_ON_CLOSE \<noteq> 0 \<and> \<not> create \<and> \<not> writable then error s2 STATUS_CANNOT_DELETE
             else let s3 = upd_fd d (\<lambda>f. f\<lparr>fd_closed := (fd_closed f)
                             \<lparr>cf_disp_flags := if options AND FILE_DELETE_ON_CLOSE \<noteq> 0 then FILE_DISPOSITION_DELETE else 0\<rparr>\<rparr>) s2
                  in if trunc \<and> is_dir then error s3 STATUS_OBJECT_NAME_COLLISION else (s3, 0))"

text \<open>\<^verbatim>\<open>dup_fd_object\<close> for a file with an inode, after its allocations; \<open>dup_fd\<close> is the new descriptor.\<close>

definition dup_fd_inode :: "unix_env \<Rightarrow> fd_id \<Rightarrow> fd_id \<Rightarrow> int \<Rightarrow> u32 \<Rightarrow> u32 \<Rightarrow> u32 \<Rightarrow> fd_state \<Rightarrow> fd_state \<times> status" where
  "dup_fd_inode env d orig dup_fd access sharing options s =
     (case fd_inode (fds s orig) of
        None \<Rightarrow> (s\<lparr>fd_failed := True\<rparr>, 0)
      | Some i \<Rightarrow>
          (case check_sharing d access sharing False options
                  (add_open_fd d i (new_fd i dup_fd (cf_unix_name (fd_closed (fds s orig))) options) s) of
             (s2, err) \<Rightarrow> if err \<noteq> 0 then (fd_destroy env d s2, err) else (s2, 0)))"

text \<open>\<^verbatim>\<open>set_fd_disposition\<close>; the last argument but one is what \<^verbatim>\<open>fstat\<close> and \<^verbatim>\<open>is_dir_empty\<close> say of the file.\<close>

datatype file_stat = Stat_Failed errno | Stat_File bool | Stat_Directory bool | Stat_Directory_Failed errno | Stat_Special

definition disposition_error :: "u32 \<Rightarrow> file_stat \<Rightarrow> status" where
  "disposition_error flags st =
     (case st of
        Stat_Failed e \<Rightarrow> file_set_error e
      | Stat_File writable \<Rightarrow>
          if flags AND FILE_DISPOSITION_IGNORE_READONLY_ATTRIBUTE = 0 \<and> \<not> writable then STATUS_CANNOT_DELETE else 0
      | Stat_Directory is_empty \<Rightarrow> if is_empty then 0 else STATUS_DIRECTORY_NOT_EMPTY
      | Stat_Directory_Failed e \<Rightarrow> file_set_error e
      | Stat_Special \<Rightarrow> STATUS_INVALID_PARAMETER)"

definition set_fd_disposition :: "fd_id \<Rightarrow> u32 \<Rightarrow> file_stat \<Rightarrow> fd_state \<Rightarrow> fd_state \<times> status" where
  "set_fd_disposition d flags st s =
     (case fd_inode (fds s d) of
        None \<Rightarrow> (s, STATUS_OBJECT_TYPE_MISMATCH)
      | Some i \<Rightarrow>
          if fd_unix_fd (fds s d) = -1 then (s, fd_no_fd_status (fds s d))
          else if flags AND FILE_DISPOSITION_DELETE \<noteq> 0 \<and> (\<exists>f \<in> set (in_open (inodes s i)). fd_access (fds s f) AND FILE_MAPPING_ACCESS \<noteq> 0)
          then (s, STATUS_CANNOT_DELETE)
          else if flags AND FILE_DISPOSITION_DELETE \<noteq> 0 \<and> disposition_error flags st \<noteq> 0 then (s, disposition_error flags st)
          else
            let options = (if flags AND FILE_DISPOSITION_ON_CLOSE \<noteq> 0 then fd_options (fds s d) AND NOT FILE_DELETE_ON_CLOSE
                           else fd_options (fds s d));
                disp = (flags AND (FILE_DISPOSITION_DELETE OR FILE_DISPOSITION_POSIX_SEMANTICS))
                         OR (if options AND FILE_DELETE_ON_CLOSE \<noteq> 0 then FILE_DISPOSITION_DELETE else 0)
            in (upd_fd d (\<lambda>f. f\<lparr>fd_options := options, fd_closed := (fd_closed f)\<lparr>cf_disp_flags := disp\<rparr>\<rparr>) s, 0))"

text \<open>Unmounting a device closes all the descriptors of its inodes, locked or not.\<close>

definition unmount_fd :: "fd_id \<Rightarrow> fd_state \<Rightarrow> fd_state" where
  "unmount_fd d s =
     (case fd_inode (fds s d) of
        None \<Rightarrow> s\<lparr>fd_failed := True\<rparr>
      | Some i \<Rightarrow>
          upd_fd d (\<lambda>f. f\<lparr>fd_unix_fd := -1, fd_no_fd_status := 0xC000026E,
                          fd_closed := (fd_closed f)\<lparr>cf_unix_fd := -1, cf_disp_flags := 0\<rparr>, fd_fs_locks := False\<rparr>)
            (if fd_unix_fd (fds s d) \<noteq> -1 then unix_close i s else s))"

definition unmount_inode :: "inode_id \<Rightarrow> fd_state \<Rightarrow> fd_state" where
  "unmount_inode i s = inode_close_pending i False (fold unmount_fd (in_open (inodes s i)) s)"

end
