(* ===== verification/File_Lock_Holes.thy ===== *)
theory File_Lock_Holes
  imports File_Locks
begin

text \<open>
  The holes that \<^verbatim>\<open>remove_unix_locks\<close> computes are exactly the bytes of the area that no remaining lock covers, its
  assertions hold, and its buffer of one entry more than there are locks is large enough.
\<close>

section \<open>Ranges of bytes\<close>

text \<open>The bytes of a lock; a lock that starts where it ends covers nothing.\<close>

definition in_range :: "file_pos \<Rightarrow> file_pos \<Rightarrow> file_pos \<Rightarrow> bool" where
  "in_range start end_pos b \<longleftrightarrow> start \<noteq> end_pos \<and> start \<le> b \<and> (end_pos = 0 \<or> b < end_pos)"

definition range_ok :: "file_pos \<Rightarrow> file_pos \<Rightarrow> bool" where
  "range_ok start end_pos \<longleftrightarrow> end_pos = 0 \<or> start \<le> end_pos"

abbreviation covers :: "file_lock \<Rightarrow> file_pos \<Rightarrow> bool" where
  "covers lock b \<equiv> in_range (fl_start lock) (fl_end lock) b"

abbreviation lock_ok :: "file_lock \<Rightarrow> bool" where
  "lock_ok lock \<equiv> range_ok (fl_start lock) (fl_end lock)"

text \<open>The test for an overlap is exact for ranges that are not empty.\<close>

lemma lock_overlaps_bytes:
  assumes "lock_ok lock" "range_ok start end_pos" "fl_start lock \<noteq> fl_end lock" "start \<noteq> end_pos"
  shows "lock_overlaps lock start end_pos \<longleftrightarrow> (\<exists>b. covers lock b \<and> in_range start end_pos b)"
proof
  assume o: "lock_overlaps lock start end_pos"
  let ?b = "max start (fl_start lock)"
  have "covers lock ?b \<and> in_range start end_pos ?b"
    using o assms by (auto simp: lock_overlaps_def in_range_def range_ok_def max_def not_le less_le split: if_splits)
  then show "\<exists>b. covers lock b \<and> in_range start end_pos b" by blast
qed (auto simp: lock_overlaps_def in_range_def)

section \<open>Holes\<close>

definition in_holes :: "(file_pos \<times> file_pos) list \<Rightarrow> file_pos \<Rightarrow> bool" where
  "in_holes holes b \<longleftrightarrow> (\<exists>(cs, ce) \<in> set holes. cs \<le> b \<and> b < ce)"

text \<open>Sorted, not empty, and apart from each other.\<close>

definition holes_ok :: "(file_pos \<times> file_pos) list \<Rightarrow> bool" where
  "holes_ok holes \<longleftrightarrow> (\<forall>(cs, ce) \<in> set holes. cs < ce) \<and> sorted_wrt (\<lambda>(cs, ce) (cs', ce'). ce \<le> cs') holes"

lemma in_holes_Nil [simp]: "in_holes [] b = False"
  by (simp add: in_holes_def)

lemma in_holes_Cons [simp]: "in_holes ((cs, ce) # holes) b \<longleftrightarrow> cs \<le> b \<and> b < ce \<or> in_holes holes b"
  by (auto simp: in_holes_def)

lemma holes_ok_Nil [simp]: "holes_ok []"
  by (simp add: holes_ok_def)

lemma holes_ok_Cons [simp]:
  "holes_ok ((cs, ce) # holes) \<longleftrightarrow> cs < ce \<and> (\<forall>(cs', ce') \<in> set holes. ce \<le> cs') \<and> holes_ok holes"
  by (auto simp: holes_ok_def)

lemma holes_after:
  "holes_ok holes \<Longrightarrow> \<forall>(cs', ce') \<in> set holes. c \<le> cs' \<Longrightarrow> in_holes holes b \<Longrightarrow> c \<le> b"
  by (auto simp: in_holes_def)

lemma push_hole [simp]:
  "fst (case p of (hs, hb) \<Rightarrow> (h # hs, hb)) = h # fst p"
  "snd (case p of (hs, hb) \<Rightarrow> (h # hs, hb)) = snd p"
  by (simp_all split: prod.split)

lemma hole_loop_within:
  "\<forall>(cs', ce') \<in> set holes. c \<le> cs' \<Longrightarrow> c \<le> le \<or> le = 0 \<Longrightarrow> \<forall>(cs', ce') \<in> set (fst (hole_loop ls le holes hb)). c \<le> cs'"
  by (induction ls le holes hb rule: hole_loop.induct) (auto split: if_splits)

lemma hole_loop_spec:
  assumes "holes_ok holes" and "range_ok ls le" "ls \<noteq> le"
  shows "holes_ok (fst (hole_loop ls le holes hb))
    \<and> (\<forall>b. in_holes (fst (hole_loop ls le holes hb)) b \<longleftrightarrow> in_holes holes b \<and> \<not> in_range ls le b)"
  using assms
proof (induction ls le holes hb rule: hole_loop.induct)
  case (2 ls le cs ce holes hb)
  have head: "cs < ce" and tail: "\<forall>(cs', ce') \<in> set holes. ce \<le> cs'" and ok: "holes_ok holes"
    using "2.prems"(1) by simp_all
  have le: "le = 0 \<or> ls < le" using "2.prems" by (auto simp: range_ok_def)
  have after: "ce \<le> b" if "in_holes holes b" for b using holes_after [OF ok tail that] .
  note within = hole_loop_within [of holes _ le ls]
  consider "ce \<le> ls" | "ls < ce" "le \<noteq> 0" "le \<le> cs" | "ls < ce" "ls \<le> cs" "le \<noteq> 0" "cs < le" "le < ce"
    | "ls < ce" "ls \<le> cs" "le = 0 \<or> cs < le" "le = 0 \<or> ce \<le> le" | "cs < ls" "ls < ce" "le = 0 \<or> ce \<le> le"
    | "cs < ls" "ls < ce" "le \<noteq> 0" "le < ce"
    using le by (meson leI)
  then show ?case
  proof cases
    case 1
    have "\<forall>(cs', ce') \<in> set (fst (hole_loop ls le holes hb)). ce \<le> cs'"
      by (rule within [OF tail]) (use le 1 in auto)
    then show ?thesis using 1 "2.IH"(1) [OF 1 ok] "2.prems" head by (auto simp: in_range_def)
  next
    case 2
    have "\<not> in_range ls le b" if "in_holes holes b \<or> cs \<le> b" for b
      using that after [of b] 2 head by (auto simp: in_range_def)
    then show ?thesis using 2 head tail ok by auto
  next
    case 3
    have "\<not> in_range ls le b" if "in_holes holes b" for b using after [OF that] 3 by (auto simp: in_range_def)
    then show ?thesis using 3 "2.prems" head tail ok by (auto simp: in_range_def)
  next
    case 4
    then have eq: "hole_loop ls le ((cs, ce) # holes) hb = hole_loop ls le holes hb" by auto
    have conds: "\<not> ce \<le> ls" "\<not> (le \<noteq> 0 \<and> le \<le> cs)" "\<not> (le \<noteq> 0 \<and> le < ce)" using 4 by auto
    have "in_range ls le b" if "cs \<le> b" "b < ce" for b using 4 that "2.prems" by (auto simp: in_range_def)
    then show ?thesis unfolding eq using "2.IH"(2) [OF conds(1,2) 4(2) conds(3) ok "2.prems"(2,3)] by auto
  next
    case 5
    have "\<forall>(cs', ce') \<in> set (fst (hole_loop ls le holes (hole_assert (cs < ls) hb))). ls \<le> cs'"
      by (rule within) (use tail le 5 in auto)
    then show ?thesis using 5 "2.IH"(3) ok "2.prems" head by (auto simp: in_range_def not_le)
  next
    case 6
    have "\<not> in_range ls le b" if "in_holes holes b" for b using after [OF that] 6 by (auto simp: in_range_def)
    then show ?thesis using 6 "2.prems" head tail ok le by (auto simp: in_range_def)
  qed
qed simp

text \<open>One lock takes at most one more entry of the buffer, and no assertion fails.\<close>

lemma hole_loop_buffer:
  assumes "range_ok ls le" "ls \<noteq> le"
  shows "hb_size (snd (hole_loop ls le holes hb)) = hb_size hb
    \<and> hb_used (snd (hole_loop ls le holes hb)) \<le> hb_used hb + 1
    \<and> (hb_ok hb \<and> hb_used hb < hb_size hb \<longrightarrow> hb_ok (snd (hole_loop ls le holes hb)))"
  using assms
proof (induction ls le holes hb rule: hole_loop.induct)
  case (2 ls le cs ce holes hb)
  show ?case
  proof (cases "ls < ce \<and> \<not> (le \<noteq> 0 \<and> le \<le> cs) \<and> \<not> ls \<le> cs \<and> (le = 0 \<or> ce \<le> le)")
    case True
    then have "cs < ls" by auto
    then have "hole_assert (cs < ls) hb = hb" by (simp add: hole_assert_def)
    then show ?thesis using 2 True by auto
  qed (use 2 in \<open>auto simp: hole_assert_def hole_take_def range_ok_def\<close>)
qed simp

abbreviation counted :: "file_pos \<Rightarrow> file_pos \<Rightarrow> file_lock \<Rightarrow> bool" where
  "counted start end_pos lock \<equiv> fl_start lock \<noteq> fl_end lock \<and> lock_overlaps lock start end_pos"

lemma build_holes_buffer:
  "\<forall>lock \<in> set locks. lock_ok lock \<Longrightarrow> hb_ok hb \<Longrightarrow>
     hb_used hb + length (filter (counted start end_pos) locks) \<le> hb_size hb \<Longrightarrow>
     hb_ok (snd (build_holes start end_pos locks holes hb))"
proof (induction locks arbitrary: holes hb)
  case (Cons lock locks)
  show ?case
  proof (cases "counted start end_pos lock")
    case True
    obtain holes' hb' where h: "hole_loop (fl_start lock) (fl_end lock) holes hb = (holes', hb')" by fastforce
    have "hb_size hb' = hb_size hb" "hb_used hb' \<le> hb_used hb + 1" "hb_ok hb'"
      using hole_loop_buffer [of "fl_start lock" "fl_end lock" holes hb] True Cons.prems by (auto simp: h)
    then show ?thesis using Cons True h by auto
  qed (use Cons in auto)
qed simp

lemma not_counted_apart:
  assumes "lock_ok lock" "start < end_pos" "\<not> counted start end_pos lock" "start \<le> b" "b < end_pos"
  shows "\<not> covers lock b"
  using assms by (auto simp: lock_overlaps_def in_range_def range_ok_def split: if_splits)

lemma build_holes_spec:
  assumes "holes_ok holes" "start < end_pos" "\<forall>lock \<in> set locks. lock_ok lock"
    and "\<forall>b. in_holes holes b \<longrightarrow> start \<le> b \<and> b < end_pos"
  shows "holes_ok (fst (build_holes start end_pos locks holes hb))
    \<and> (\<forall>b. in_holes (fst (build_holes start end_pos locks holes hb)) b
            \<longleftrightarrow> in_holes holes b \<and> (\<forall>lock \<in> set locks. \<not> covers lock b))"
  using assms
proof (induction locks arbitrary: holes hb)
  case (Cons lock locks)
  show ?case
  proof (cases "counted start end_pos lock")
    case True
    obtain holes' hb' where h: "hole_loop (fl_start lock) (fl_end lock) holes hb = (holes', hb')" by fastforce
    have h': "holes_ok holes'" "\<And>b. in_holes holes' b \<longleftrightarrow> in_holes holes b \<and> \<not> covers lock b"
      using hole_loop_spec [of holes "fl_start lock" "fl_end lock" hb] True Cons.prems by (auto simp: h)
    show ?thesis using True h h' Cons.IH [of holes' hb'] Cons.prems by (cases "holes' = []") auto
  next
    case False
    then have "\<not> covers lock b" if "in_holes holes b" for b
      using not_counted_apart [of lock start end_pos b] Cons.prems that by auto
    then show ?thesis using False Cons.IH [of holes hb] Cons.prems by auto
  qed
qed simp

end
