(* ===== verification/File_Lock_Unix.thy ===== *)
theory File_Lock_Unix
  imports File_Lock_Holes
begin

text \<open>
  What setting and clearing Unix locks does to the locks of the kernel, whatever the system calls answer.
\<close>

section \<open>Setting a Unix lock\<close>

text \<open>Only the lock table of the kernel, the limit for offsets and the flag of the file may change.\<close>

definition unix_frame :: "fd_id \<Rightarrow> fd_state \<Rightarrow> fd_state \<Rightarrow> bool" where
  "unix_frame d s s' \<longleftrightarrow>
     file_locks s' = file_locks s \<and> next_lock s' = next_lock s \<and> inodes s' = inodes s \<and> process_locks s' = process_locks s
     \<and> unlinked s' = unlinked s \<and> fd_failed s' = fd_failed s \<and> max_unix_offset s' \<le> max_unix_offset s
     \<and> (fds s' = fds s \<or> fds s' = (fds s)(d := (fds s d)\<lparr>fd_fs_locks := False\<rparr>))"

lemma unix_frame_refl [simp]: "unix_frame d s s"
  by (simp add: unix_frame_def)

lemma unix_frame_trans: "unix_frame d s s' \<Longrightarrow> unix_frame d s' s'' \<Longrightarrow> unix_frame d s s''"
  unfolding unix_frame_def by (auto simp del: fun_upd_apply) auto

lemma unix_frame_inode: "unix_frame d s s' \<Longrightarrow> fd_inode (fds s' e) = fd_inode (fds s e)"
  by (auto simp: unix_frame_def)

lemma in_flock_range:
  assumes "range_ok start end_pos" "start \<noteq> end_pos" "start \<le> m" "b \<le> m"
  shows "in_flock start (if end_pos = 0 \<or> end_pos > m then 0 else end_pos - start) b \<longleftrightarrow> in_range start end_pos b"
proof (cases "end_pos = 0 \<or> end_pos > m")
  case False
  then have "start < end_pos" using assms by (auto simp: range_ok_def)
  then have "end_pos - start \<noteq> 0" by auto
  moreover have "(b - start < end_pos - start) = (b < end_pos)" if "start \<le> b"
    using that \<open>start < end_pos\<close> by (simp add: word_less_nat_alt word_le_nat_alt unat_sub) linarith
  ultimately show ?thesis using False assms by (auto simp: in_flock_def in_range_def)
qed (use assms in \<open>auto simp: in_flock_def in_range_def\<close>)

text \<open>
  The effect on the bytes of the inode: outside of the range nothing changes, inside of it bytes change only towards the type of
  the lock, and they do so when the call has taken effect.
\<close>

definition sets_range :: "fd_id \<Rightarrow> inode_id \<Rightarrow> file_pos \<Rightarrow> file_pos \<Rightarrow> bool \<Rightarrow> fd_state \<Rightarrow> fd_state \<Rightarrow> bool" where
  "sets_range d i start end_pos locked s s' \<longleftrightarrow>
     unix_frame d s s' \<and> (\<forall>j. j \<noteq> i \<longrightarrow> unix_locks s' j = unix_locks s j)
     \<and> (\<forall>b \<le> max_unix_offset s'.
          if in_range start end_pos b
          then unix_locks s' i b = unix_locks s i b \<or> (unix_locks s' i b \<noteq> None) = locked
          else unix_locks s' i b = unix_locks s i b)"

definition range_set :: "fd_id \<Rightarrow> inode_id \<Rightarrow> file_pos \<Rightarrow> file_pos \<Rightarrow> bool \<Rightarrow> fd_state \<Rightarrow> bool" where
  "range_set d i start end_pos locked s' \<longleftrightarrow>
     (fd_fs_locks (fds s' d) \<longrightarrow> (\<forall>b \<le> max_unix_offset s'. in_range start end_pos b \<longrightarrow> (unix_locks s' i b \<noteq> None) = locked))"

lemma sets_range_refl [simp]: "sets_range d i start end_pos locked s s"
  by (simp add: sets_range_def)

lemma sets_range_from:
  assumes "sets_range d i start end_pos locked s1 s'" "unix_frame d s s1" "unix_locks s1 = unix_locks s"
  shows "sets_range d i start end_pos locked s s'"
  using assms unix_frame_trans unfolding sets_range_def by metis

lemma if_cases_P: "(c \<Longrightarrow> P x) \<Longrightarrow> (\<not> c \<Longrightarrow> P y) \<Longrightarrow> P (if c then x else y)"
  by simp

lemma set_unix_lock_call:
  assumes i: "fd_inode (fds s d) = Some i" and c: "fd_fs_locks (fds s d)" "start \<noteq> end_pos" "start \<le> max_unix_offset s"
    and e: "setlk_errno env (unix_calls s) = Some e" and s1: "s1 = s\<lparr>unix_calls := unix_calls s + 1\<rparr>"
    and P: "\<And>err. P (s1, Some err)" "P (upd_fd d (\<lambda>f. f\<lparr>fd_fs_locks := False\<rparr>) s1, None)"
      "e = EBADF \<Longrightarrow> ty = F_WRLCK \<Longrightarrow> P (set_unix_lock env d start end_pos F_RDLCK s1)"
      "e = EOVERFLOW \<or> e = EINVAL \<Longrightarrow> max_unix_offset s1 > INT_MAX \<Longrightarrow>
         P (set_unix_lock env d start end_pos ty (s1\<lparr>max_unix_offset := INT_MAX\<rparr>))"
  shows "P (set_unix_lock env d start end_pos ty s)"
proof -
  have f: "fcntl_setlk env i ty start l s = (s1, Some e)" for l using e s1 by (simp add: fcntl_setlk_def)
  have n: "\<not> start > max_unix_offset s" using c(3) by simp
  have "P (if e = EACCES \<and> getlk_ok env (unix_calls s1) then (s1, Some STATUS_FILE_LOCK_CONFLICT)
      else if e = EACCES \<or> e = EIO \<or> e = ENOLCK \<or> e = ENOTSUP then (upd_fd d (\<lambda>f. f\<lparr>fd_fs_locks := False\<rparr>) s1, None)
      else if e = EAGAIN then (s1, Some STATUS_FILE_LOCK_CONFLICT)
      else if e = EBADF
      then if ty = F_WRLCK then set_unix_lock env d start end_pos F_RDLCK s1 else (s1, Some STATUS_ACCESS_DENIED)
      else if (e = EOVERFLOW \<or> e = EINVAL) \<and> max_unix_offset s1 > INT_MAX
      then set_unix_lock env d start end_pos ty (s1\<lparr>max_unix_offset := INT_MAX\<rparr>)
      else (s1, Some (file_set_error e)))"
    by (intro if_cases_P [where P = P] P) blast+
  then show ?thesis unfolding set_unix_lock.simps [of env d start end_pos ty s] by (simp only: i c n f Let_def option.case prod.case if_True if_False not_True_eq_False)
qed

lemma set_unix_lock_spec:
  assumes "fd_inode (fds s d) = Some i" "range_ok start end_pos"
  shows "sets_range d i start end_pos (ty \<noteq> F_UNLCK) s (fst (set_unix_lock env d start end_pos ty s))
    \<and> (snd (set_unix_lock env d start end_pos ty s) = None \<longrightarrow>
        range_set d i start end_pos (ty \<noteq> F_UNLCK) (fst (set_unix_lock env d start end_pos ty s)))"
  using assms
proof (induction env d start end_pos ty s rule: set_unix_lock.induct)
  case (1 env d start end_pos ty s)
  let ?s1 = "s\<lparr>unix_calls := unix_calls s + 1\<rparr>"
  note step = set_unix_lock.simps [of env d start end_pos ty s]
  consider (skip) "\<not> fd_fs_locks (fds s d) \<or> start = end_pos \<or> max_unix_offset s < start"
    | (call) "fd_fs_locks (fds s d)" "start \<noteq> end_pos" "start \<le> max_unix_offset s"
    by (meson leI)
  then show ?case
  proof cases
    case skip
    then have "set_unix_lock env d start end_pos ty s = (s, None)" by (auto simp: step)
    moreover have "range_set d i start end_pos (ty \<noteq> F_UNLCK) s" using skip by (auto simp: range_set_def in_range_def)
    ultimately show ?thesis by simp
  next
    case call
    note flock = in_flock_range [OF "1.prems"(2) call(2,3)]
    show ?thesis
    proof (cases "setlk_errno env (unix_calls s)")
      case None
      then show ?thesis using call "1.prems" flock
        by (auto simp: step Let_def fcntl_setlk_def sets_range_def range_set_def unix_frame_def)
    next
      case (Some e)
      have f: "(?s1, Some e) = fcntl_setlk env i ty start l s" for l using Some by (simp add: fcntl_setlk_def)
      have s1: "unix_frame d s ?s1" "sets_range d i start end_pos (ty \<noteq> F_UNLCK) s ?s1"
        by (simp_all add: unix_frame_def sets_range_def)
      show ?thesis
      proof (rule set_unix_lock_call [OF "1.prems"(1) call Some refl], goal_cases)
        case (1 err)
        then show ?case using s1 by simp
      next
        case 2
        then show ?case by (simp add: sets_range_def range_set_def unix_frame_def upd_fd_def)
      next
        case 3
        then show ?case
          using "1.IH"(1) [OF _ _ _ refl "1.prems"(1) f refl] call "1.prems" sets_range_from [OF _ s1(1)] by simp
      next
        case 4
        let ?s2 = "?s1\<lparr>max_unix_offset := INT_MAX\<rparr>"
        have "unix_frame d s ?s2" using 4 by (simp add: unix_frame_def)
        note lift = sets_range_from [OF _ this]
        have "sets_range d i start end_pos (ty \<noteq> F_UNLCK) ?s2 (fst (set_unix_lock env d start end_pos ty ?s2))
          \<and> (snd (set_unix_lock env d start end_pos ty ?s2) = None \<longrightarrow>
             range_set d i start end_pos (ty \<noteq> F_UNLCK) (fst (set_unix_lock env d start end_pos ty ?s2)))"
          using 4 "1.IH"(2) [OF _ _ _ refl "1.prems"(1) f refl] call "1.prems" by auto
        then show ?case using lift by simp
      qed
    qed
  qed
qed

lemma set_unix_lock_succeeds:
  assumes "\<forall>n. setlk_errno env n = None" "fd_inode (fds s d) = Some i"
  shows "snd (set_unix_lock env d start end_pos ty s) = None \<and> fds (fst (set_unix_lock env d start end_pos ty s)) = fds s
    \<and> max_unix_offset (fst (set_unix_lock env d start end_pos ty s)) = max_unix_offset s"
  unfolding set_unix_lock.simps [of env d start end_pos ty s] using assms by (simp add: fcntl_setlk_def Let_def)

section \<open>Clearing Unix locks\<close>

text \<open>Clearing at most the bytes in \<open>B\<close>, and clearing them all.\<close>

definition clears :: "fd_id \<Rightarrow> inode_id \<Rightarrow> (file_pos \<Rightarrow> bool) \<Rightarrow> fd_state \<Rightarrow> fd_state \<Rightarrow> bool" where
  "clears d i B s s' \<longleftrightarrow>
     unix_frame d s s' \<and> (\<forall>j. j \<noteq> i \<longrightarrow> unix_locks s' j = unix_locks s j)
     \<and> (\<forall>b \<le> max_unix_offset s'. unix_locks s' i b = unix_locks s i b \<or> B b \<and> unix_locks s' i b = None)"

definition all_cleared :: "inode_id \<Rightarrow> (file_pos \<Rightarrow> bool) \<Rightarrow> fd_state \<Rightarrow> bool" where
  "all_cleared i B s \<longleftrightarrow> (\<forall>b \<le> max_unix_offset s. B b \<longrightarrow> unix_locks s i b = None)"

lemma clears_refl [simp]: "clears d i B s s"
  by (simp add: clears_def)

lemma clears_trans: "clears d i B s s' \<Longrightarrow> clears d i B s' s'' \<Longrightarrow> clears d i B s s''"
proof -
  assume a: "clears d i B s s'" "clears d i B s' s''"
  have "max_unix_offset s'' \<le> max_unix_offset s'" using a(2) by (simp add: clears_def unix_frame_def)
  then have "unix_locks s'' i b = unix_locks s i b \<or> B b \<and> unix_locks s'' i b = None" if "b \<le> max_unix_offset s''" for b
    using a that order_trans [OF that] unfolding clears_def by metis
  then show ?thesis using a unix_frame_trans unfolding clears_def by metis
qed

lemma clearsD:
  assumes "clears d i B s s'"
  shows "unix_frame d s s'" "max_unix_offset s' \<le> max_unix_offset s"
    "b \<le> max_unix_offset s' \<Longrightarrow> unix_locks s' i b = unix_locks s i b \<or> B b \<and> unix_locks s' i b = None"
  using assms by (simp_all add: clears_def unix_frame_def)

lemma clears_mono:
  assumes c: "clears d i B s s'" and BC: "\<And>b. b \<le> max_unix_offset s \<Longrightarrow> B b \<Longrightarrow> C b"
  shows "clears d i C s s'"
proof -
  have "unix_locks s' i b = unix_locks s i b \<or> C b \<and> unix_locks s' i b = None" if "b \<le> max_unix_offset s'" for b
    using clearsD(3) [OF c that] BC [OF order_trans [OF that clearsD(2) [OF c]]] by blast
  then show ?thesis using c by (simp add: clears_def)
qed

lemma all_cleared_mono:
  assumes "all_cleared i B s" "\<And>b. b \<le> max_unix_offset s \<Longrightarrow> C b \<Longrightarrow> B b"
  shows "all_cleared i C s"
  using assms by (simp add: all_cleared_def)

lemma all_cleared_keep:
  assumes "all_cleared i B s" and c: "clears d i C s s'"
  shows "all_cleared i B s'"
  unfolding all_cleared_def
proof (intro allI impI)
  fix b assume b: "b \<le> max_unix_offset s'" "B b"
  then have "unix_locks s i b = None" using assms(1) clearsD(2) [OF c] order_trans unfolding all_cleared_def by blast
  then show "unix_locks s' i b = None" using clearsD(3) [OF c b(1)] by auto
qed

lemma set_unix_lock_clears:
  assumes "fd_inode (fds s d) = Some i" "range_ok start end_pos"
  shows "clears d i (in_range start end_pos) s (fst (set_unix_lock env d start end_pos F_UNLCK s))"
    and "fd_fs_locks (fds s d) \<Longrightarrow> \<forall>n. setlk_errno env n = None \<Longrightarrow>
      all_cleared i (in_range start end_pos) (fst (set_unix_lock env d start end_pos F_UNLCK s))"
  using set_unix_lock_spec [OF assms, of F_UNLCK env] set_unix_lock_succeeds [OF _ assms(1), of env start end_pos F_UNLCK]
  by (auto simp: sets_range_def clears_def range_set_def all_cleared_def split: if_splits)

lemma unlock_holes_Cons: "unlock_holes env d ((cs, ce) # holes) s = unlock_holes env d holes (fst (set_unix_lock env d cs ce F_UNLCK s))"
  by (simp add: unlock_holes_def)

lemma hole_range: "cs < ce \<Longrightarrow> in_range cs ce b \<longleftrightarrow> cs \<le> b \<and> b < ce"
  by (auto simp: in_range_def)

lemma unlock_holes_spec:
  assumes "holes_ok holes" "fd_inode (fds s d) = Some i"
  shows "clears d i (in_holes holes) s (unlock_holes env d holes s)
    \<and> (fd_fs_locks (fds s d) \<longrightarrow> (\<forall>n. setlk_errno env n = None) \<longrightarrow> all_cleared i (in_holes holes) (unlock_holes env d holes s))"
  using assms
proof (induction holes arbitrary: s)
  case Nil
  then show ?case by (simp add: unlock_holes_def all_cleared_def)
next
  case (Cons h holes)
  obtain cs ce where h: "h = (cs, ce)" by (cases h)
  let ?s1 = "fst (set_unix_lock env d cs ce F_UNLCK s)"
  have ce: "cs < ce" "range_ok cs ce" "holes_ok holes" using Cons.prems h by (auto simp: range_ok_def)
  note c = set_unix_lock_clears [OF Cons.prems(2) ce(2), of env]
  have i1: "fd_inode (fds ?s1 d) = Some i"
    using unix_frame_inode [of d s ?s1 d] c(1) Cons.prems(2) by (simp add: clears_def)
  note ih = Cons.IH [OF ce(3) i1]
  have "clears d i (in_holes (h # holes)) s ?s1" by (rule clears_mono [OF c(1)]) (simp add: h hole_range [OF ce(1)])
  moreover have "clears d i (in_holes (h # holes)) ?s1 (unlock_holes env d holes ?s1)"
    by (rule clears_mono [of d i "in_holes holes"]) (use ih h in auto)
  ultimately have "clears d i (in_holes (h # holes)) s (unlock_holes env d holes ?s1)" by (rule clears_trans)
  moreover have "all_cleared i (in_holes (h # holes)) (unlock_holes env d holes ?s1)"
    if "fd_fs_locks (fds s d)" "\<forall>n. setlk_errno env n = None"
  proof -
    have "all_cleared i (in_range cs ce) (unlock_holes env d holes ?s1)"
      using all_cleared_keep [OF c(2) [OF that]] ih by blast
    moreover have "all_cleared i (in_holes holes) (unlock_holes env d holes ?s1)"
      using ih that set_unix_lock_succeeds [OF that(2) Cons.prems(2), of cs ce F_UNLCK] by simp
    ultimately show ?thesis by (auto simp: all_cleared_def h hole_range [OF ce(1)])
  qed
  ultimately show ?case unfolding h unlock_holes_Cons by blast
qed

text \<open>The locks of an inode.\<close>

abbreviation inode_lock_list :: "fd_state \<Rightarrow> inode_id \<Rightarrow> file_lock list" where
  "inode_lock_list s i \<equiv> map (file_locks s) (in_locks (inodes s i))"

definition uncovered :: "file_pos \<Rightarrow> file_pos \<Rightarrow> fd_state \<Rightarrow> inode_id \<Rightarrow> file_pos \<Rightarrow> bool" where
  "uncovered start end_pos s i b \<longleftrightarrow> in_range start end_pos b \<and> (\<forall>lock \<in> set (inode_lock_list s i). \<not> covers lock b)"

lemma clamp_area:
  assumes "range_ok start end0" "start \<noteq> end0" "start \<le> m" "m \<le> OFF_T_MAX" "e = (if end0 = 0 \<or> end0 > m then m + 1 else end0)"
  shows "start < e" and "b \<le> m \<Longrightarrow> in_range start end0 b \<longleftrightarrow> start \<le> b \<and> b < e"
proof -
  have max1: "b \<le> m \<longleftrightarrow> b < m + 1" for b
    using assms(4) by (simp add: word_less_nat_alt word_le_nat_alt unat_word_ariths less_Suc_eq_le)
  show "start < e" using max1 [of start] assms by (auto simp: range_ok_def)
  show "in_range start end0 b \<longleftrightarrow> start \<le> b \<and> b < e" if "b \<le> m"
    using that assms(2,5) max1 [of b] by (auto simp: in_range_def)
qed

lemma remove_unix_locks_spec:
  assumes i: "fd_inode (fds s d) = Some i" and area: "range_ok start end0" and m: "max_unix_offset s \<le> OFF_T_MAX"
    and locks: "\<forall>lock \<in> set (inode_lock_list s i). lock_ok lock"
  shows "clears d i (uncovered start end0 s i) s (remove_unix_locks env d start end0 s)
    \<and> (fd_fs_locks (fds s d) \<longrightarrow> (\<forall>n. setlk_errno env n = None) \<longrightarrow> (\<forall>n. malloc_ok env n) \<longrightarrow>
        all_cleared i (uncovered start end0 s i) (remove_unix_locks env d start end0 s))"
proof (cases "fd_fs_locks (fds s d) \<and> start \<noteq> end0 \<and> start \<le> max_unix_offset s")
  case False
  then have "remove_unix_locks env d start end0 s = s" using i by (auto simp: remove_unix_locks_def)
  then show ?thesis using False by (auto simp: all_cleared_def uncovered_def in_range_def)
next
  case True
  let ?locks = "inode_lock_list s i" and ?s1 = "s\<lparr>unix_calls := unix_calls s + 1\<rparr>"
  define e where "e = (if end0 = 0 \<or> end0 > max_unix_offset s then max_unix_offset s + 1 else end0)"
  define n where "n = length (filter (counted start e) ?locks)"
  have c: "\<not> \<not> fd_fs_locks (fds s d)" "\<not> (start = end0 \<or> start > max_unix_offset s)" using True by auto
  have res: "remove_unix_locks env d start end0 s =
      (if n = 0 then fst (set_unix_lock env d start e F_UNLCK s)
       else if \<not> malloc_ok env (unix_calls s) then ?s1
       else case build_holes start e ?locks [(start, e)] \<lparr>hb_size = n + 1, hb_used = 1, hb_ok = True\<rparr> of
              (holes, hb) \<Rightarrow> unlock_holes env d holes (s\<lparr>unix_calls := unix_calls s + 1, fd_failed := (fd_failed s \<or> \<not> hb_ok hb)\<rparr>))"
    by (simp only: remove_unix_locks_def i option.case c if_False Let_def e_def n_def)
  note ca = clamp_area [OF area _ _ m e_def]
  have se: "start < e" using ca(1) True by auto
  then have ok: "range_ok start e" by (auto simp: range_ok_def)
  have unc: "uncovered start end0 s i b \<longleftrightarrow> in_range start e b \<and> (\<forall>lock \<in> set ?locks. \<not> covers lock b)"
    if "b \<le> max_unix_offset s" for b using ca(2) [OF _ _ that] True se by (auto simp: uncovered_def hole_range)
  show ?thesis
  proof (cases "n = 0")
    case n0: True
    have eq: "remove_unix_locks env d start end0 s = fst (set_unix_lock env d start e F_UNLCK s)"
      by (simp add: res n0)
    have "\<not> covers lock b" if "lock \<in> set ?locks" "in_range start e b" for lock b
      using not_counted_apart [of lock start e b] n0 that se locks by (auto simp: n_def filter_empty_conv hole_range)
    then have u: "uncovered start end0 s i b \<longleftrightarrow> in_range start e b" if "b \<le> max_unix_offset s" for b using unc [OF that] by blast
    note sc = set_unix_lock_clears [OF i ok, of env]
    have "clears d i (uncovered start end0 s i) s (fst (set_unix_lock env d start e F_UNLCK s))"
      by (rule clears_mono [OF sc(1)]) (simp add: u)
    moreover have "all_cleared i (uncovered start end0 s i) (fst (set_unix_lock env d start e F_UNLCK s))"
      if "\<forall>n. setlk_errno env n = None"
      by (rule all_cleared_mono [OF sc(2) [OF _ that]]) (use True u order_trans [OF _ clearsD(2) [OF sc(1)]] in auto)
    ultimately show ?thesis unfolding eq by blast
  next
    case n1: False
    obtain holes hb where bh: "build_holes start e ?locks [(start, e)] \<lparr>hb_size = n + 1, hb_used = 1, hb_ok = True\<rparr> = (holes, hb)"
      by fastforce
    have "hb_ok (snd (build_holes start e ?locks [(start, e)] \<lparr>hb_size = n + 1, hb_used = 1, hb_ok = True\<rparr>))"
      by (rule build_holes_buffer [OF locks]) (simp_all add: n_def)
    then have "hb_ok hb" by (simp only: bh snd_conv)
    then have eq: "remove_unix_locks env d start end0 s =
        (if malloc_ok env (unix_calls s) then unlock_holes env d holes ?s1 else ?s1)"
      using n1 unfolding res bh by simp
    have h: "holes_ok holes" "in_holes holes b \<longleftrightarrow> in_range start e b \<and> (\<forall>lock \<in> set ?locks. \<not> covers lock b)" for b
      using build_holes_spec [of "[(start, e)]" start e ?locks "\<lparr>hb_size = n + 1, hb_used = 1, hb_ok = True\<rparr>", unfolded bh fst_conv] locks se
      by (auto simp: hole_range)
    have s1: "clears d i (uncovered start end0 s i) s ?s1" by (simp add: clears_def unix_frame_def)
    note u = unlock_holes_spec [OF h(1), of ?s1 d i env]
    have "clears d i (uncovered start end0 s i) ?s1 (unlock_holes env d holes ?s1)"
      by (rule clears_mono [of d i "in_holes holes"]) (use u i h(2) unc in auto)
    moreover have "all_cleared i (uncovered start end0 s i) (unlock_holes env d holes ?s1)"
      if "\<forall>n. setlk_errno env n = None"
    proof (rule all_cleared_mono)
      show "all_cleared i (in_holes holes) (unlock_holes env d holes ?s1)" using u i True that by simp
      show "in_holes holes b" if "b \<le> max_unix_offset (unlock_holes env d holes ?s1)" "uncovered start end0 s i b" for b
        using clearsD(2) [OF conjunct1 [OF u]] i that unc h(2) order_trans by fastforce
    qed
    ultimately show ?thesis unfolding eq using s1 clears_trans by auto
  qed
qed

end
