(* ===== verification/File_Lock_Correct.thy ===== *)
theory File_Lock_Correct
  imports File_Lock_Unix
begin

text \<open>
  The invariant of open files and locks: the three lists a lock is in agree, locks do not conflict, and every locked byte is
  locked in the kernel as well. Each operation keeps it.
\<close>

section \<open>Invariant\<close>

text \<open>A lock that has been removed has no process any more.\<close>

definition live_lock :: "fd_state \<Rightarrow> lock_id \<Rightarrow> bool" where
  "live_lock s l \<longleftrightarrow> l < next_lock s \<and> fl_process (file_locks s l) \<noteq> None"

abbreviation lock_inode :: "fd_state \<Rightarrow> lock_id \<Rightarrow> inode_id option" where
  "lock_inode s l \<equiv> fd_inode (fds s (fl_fd (file_locks s l)))"

definition lists_agree :: "fd_state \<Rightarrow> bool" where
  "lists_agree s \<longleftrightarrow>
     (\<forall>i l. l \<in> set (in_locks (inodes s i)) \<longleftrightarrow> live_lock s l \<and> lock_inode s l = Some i)
     \<and> (\<forall>d l. l \<in> set (fd_locks (fds s d)) \<longleftrightarrow> live_lock s l \<and> fl_fd (file_locks s l) = d)
     \<and> (\<forall>p l. l \<in> set (process_locks s p) \<longleftrightarrow> live_lock s l \<and> fl_process (file_locks s l) = Some p)
     \<and> (\<forall>i. distinct (in_locks (inodes s i))) \<and> (\<forall>d. distinct (fd_locks (fds s d))) \<and> (\<forall>p. distinct (process_locks s p))"

definition opens_agree :: "fd_state \<Rightarrow> bool" where
  "opens_agree s \<longleftrightarrow>
     (\<forall>i d. d \<in> set (in_open (inodes s i)) \<longrightarrow> fd_inode (fds s d) = Some i)
     \<and> (\<forall>i. distinct (in_open (inodes s i)))
     \<and> (\<forall>l. live_lock s l \<longrightarrow> lock_ok (file_locks s l)
          \<and> (\<exists>i. lock_inode s l = Some i \<and> fl_fd (file_locks s l) \<in> set (in_open (inodes s i))))"

definition compatible :: "file_lock \<Rightarrow> file_lock \<Rightarrow> bool" where
  "compatible l1 l2 \<longleftrightarrow>
     (\<exists>b. covers l1 b \<and> covers l2 b) \<longrightarrow>
     fl_shared l1 \<and> fl_shared l2 \<or> fl_fd l1 = fl_fd l2 \<and> (fl_shared l1 \<or> fl_shared l2)"

definition no_conflicts :: "fd_state \<Rightarrow> bool" where
  "no_conflicts s \<longleftrightarrow>
     (\<forall>l1 l2. live_lock s l1 \<and> live_lock s l2 \<and> l1 \<noteq> l2 \<and> lock_inode s l1 = lock_inode s l2
        \<longrightarrow> compatible (file_locks s l1) (file_locks s l2))"

text \<open>A byte of a lock is locked in the kernel, as long as the file supports that.\<close>

definition backed :: "fd_state \<Rightarrow> bool" where
  "backed s \<longleftrightarrow>
     (\<forall>l i b. live_lock s l \<and> lock_inode s l = Some i \<and> fd_fs_locks (fds s (fl_fd (file_locks s l)))
        \<and> b \<le> max_unix_offset s \<and> covers (file_locks s l) b \<longrightarrow> unix_locks s i b \<noteq> None)"

definition fd_inv :: "fd_state \<Rightarrow> bool" where
  "fd_inv s \<longleftrightarrow> \<not> fd_failed s \<and> max_unix_offset s \<le> OFF_T_MAX \<and> lists_agree s \<and> opens_agree s \<and> no_conflicts s \<and> backed s"

section \<open>Unix locks\<close>

text \<open>The fields that decide all of the invariant but the last part.\<close>

definition same_files :: "fd_state \<Rightarrow> fd_state \<Rightarrow> bool" where
  "same_files s s' \<longleftrightarrow>
     file_locks s' = file_locks s \<and> next_lock s' = next_lock s \<and> process_locks s' = process_locks s
     \<and> (\<forall>i. in_locks (inodes s' i) = in_locks (inodes s i) \<and> in_open (inodes s' i) = in_open (inodes s i))
     \<and> (\<forall>d. fd_locks (fds s' d) = fd_locks (fds s d) \<and> fd_inode (fds s' d) = fd_inode (fds s d))
     \<and> fd_failed s' = fd_failed s \<and> max_unix_offset s' \<le> max_unix_offset s"

lemma unix_frame_same: "unix_frame d s s' \<Longrightarrow> same_files s s'"
  by (auto simp: unix_frame_def same_files_def)

lemma unix_frame_fs_locks: "unix_frame d s s' \<Longrightarrow> fd_fs_locks (fds s' e) \<Longrightarrow> fd_fs_locks (fds s e)"
  by (auto simp: unix_frame_def split: if_splits)

lemma same_files_inv:
  assumes "same_files s s'" "fd_inv s" "backed s'"
  shows "fd_inv s'"
proof -
  have eq: "live_lock s' = live_lock s" using assms(1) by (simp add: fun_eq_iff live_lock_def same_files_def)
  have "lists_agree s'" "opens_agree s'" "no_conflicts s'"
    using assms(1,2) unfolding lists_agree_def opens_agree_def no_conflicts_def eq fd_inv_def same_files_def by auto
  then show ?thesis using assms by (auto simp: fd_inv_def same_files_def)
qed

text \<open>Clearing bytes that no lock covers.\<close>

lemma inode_lock_covers:
  assumes "lists_agree s" "live_lock s l" "lock_inode s l = Some i"
  shows "file_locks s l \<in> set (inode_lock_list s i)"
  using assms by (auto simp: lists_agree_def)

lemma backed_clears:
  assumes c: "clears d i B s s'" and b: "backed s" and B: "\<And>b l. live_lock s l \<Longrightarrow> lock_inode s l = Some i \<Longrightarrow> covers (file_locks s l) b \<Longrightarrow> \<not> B b"
  shows "backed s'"
proof -
  have f: "unix_frame d s s'" and m: "max_unix_offset s' \<le> max_unix_offset s" using clearsD [OF c] by auto
  have eq: "live_lock s' = live_lock s" "file_locks s' = file_locks s" "\<And>e. fd_inode (fds s' e) = fd_inode (fds s e)"
    using f by (auto simp: fun_eq_iff live_lock_def unix_frame_def)
  have "unix_locks s' j b \<noteq> None"
    if l: "live_lock s l" "lock_inode s l = Some j" "fd_fs_locks (fds s' (fl_fd (file_locks s l)))" "b \<le> max_unix_offset s'" "covers (file_locks s l) b"
    for l j b
  proof -
    have "unix_locks s j b \<noteq> None"
      using assms(2) l unix_frame_fs_locks [OF f l(3)] order_trans [OF l(4) m] unfolding backed_def by blast
    moreover have "unix_locks s' j b = unix_locks s j b"
      using c clearsD(3) [OF c l(4)] B [of l b] l by (cases "j = i") (auto simp: clears_def)
    ultimately show ?thesis by simp
  qed
  then show ?thesis unfolding backed_def eq by blast
qed

section \<open>Removing locks\<close>

lemma fold_close_closed:
  "fold (close_closed_fd i) cs s = (if \<exists>c \<in> set cs. cf_unix_fd c \<noteq> -1 then unix_close i s else s)"
  by (induction cs arbitrary: s) (auto simp: close_closed_fd_def unix_close_def)

lemma inode_close_pending_sel:
  "file_locks (inode_close_pending i k s) = file_locks s" "next_lock (inode_close_pending i k s) = next_lock s"
  "process_locks (inode_close_pending i k s) = process_locks s" "fds (inode_close_pending i k s) = fds s"
  "in_locks (inodes (inode_close_pending i k s) j) = in_locks (inodes s j)"
  "in_open (inodes (inode_close_pending i k s) j) = in_open (inodes s j)"
  "fd_failed (inode_close_pending i k s) = fd_failed s" "max_unix_offset (inode_close_pending i k s) = max_unix_offset s"
  "j \<noteq> i \<Longrightarrow> unix_locks (inode_close_pending i k s) j = unix_locks s j"
  "unix_locks (inode_close_pending i k s) i b = unix_locks s i b \<or> unix_locks (inode_close_pending i k s) i b = None"
  by (simp_all add: inode_close_pending_def fold_close_closed upd_inode_def unix_close_def Let_def)

text \<open>What removing a lock does; the last two parts are the effect on the kernel.\<close>

definition lock_removed :: "bool \<Rightarrow> lock_id \<Rightarrow> inode_id \<Rightarrow> fd_state \<Rightarrow> fd_state \<Rightarrow> bool" where
  "lock_removed remove_unix l i s s' \<longleftrightarrow>
     file_locks s' = (file_locks s)(l := (file_locks s l)\<lparr>fl_process := None, fl_signaled := True\<rparr>)
     \<and> next_lock s' = next_lock s \<and> fd_failed s' = fd_failed s \<and> max_unix_offset s' \<le> max_unix_offset s
     \<and> (\<forall>p. process_locks s' p = (if fl_process (file_locks s l) = Some p then remove1 l (process_locks s p) else process_locks s p))
     \<and> (\<forall>j. in_locks (inodes s' j) = (if j = i then remove1 l (in_locks (inodes s j)) else in_locks (inodes s j)))
     \<and> (\<forall>j. in_open (inodes s' j) = in_open (inodes s j))
     \<and> (\<forall>e. fd_locks (fds s' e) = (if e = fl_fd (file_locks s l) then remove1 l (fd_locks (fds s e)) else fd_locks (fds s e)))
     \<and> (\<forall>e. fd_inode (fds s' e) = fd_inode (fds s e) \<and> fd_closed (fds s' e) = fd_closed (fds s e)
          \<and> (fd_fs_locks (fds s' e) \<longrightarrow> fd_fs_locks (fds s e)))
     \<and> (\<forall>j. j \<noteq> i \<longrightarrow> unix_locks s' j = unix_locks s j)
     \<and> (in_locks (inodes s' i) \<noteq> [] \<longrightarrow> (\<forall>b \<le> max_unix_offset s'. unix_locks s' i b = unix_locks s i b
          \<or> remove_unix \<and> (\<forall>lock \<in> set (inode_lock_list s' i). \<not> covers lock b) \<and> unix_locks s' i b = None))"

text \<open>Taking the lock off its lists, before anything else happens.\<close>

definition take_off :: "lock_id \<Rightarrow> inode_id \<Rightarrow> proc_id \<Rightarrow> fd_state \<Rightarrow> fd_state" where
  "take_off l i p s =
     upd_process_locks p (remove1 l) (upd_inode i (\<lambda>n. n\<lparr>in_locks := remove1 l (in_locks n)\<rparr>)
       (upd_fd (fl_fd (file_locks s l)) (\<lambda>f. f\<lparr>fd_locks := remove1 l (fd_locks f)\<rparr>) s))"

lemma take_off_sel:
  "file_locks (take_off l i p s) = file_locks s" "next_lock (take_off l i p s) = next_lock s"
  "fd_failed (take_off l i p s) = fd_failed s" "max_unix_offset (take_off l i p s) = max_unix_offset s"
  "unix_locks (take_off l i p s) = unix_locks s" "unix_calls (take_off l i p s) = unix_calls s"
  "process_locks (take_off l i p s) = (process_locks s)(p := remove1 l (process_locks s p))"
  "inodes (take_off l i p s) = (inodes s)(i := (inodes s i)\<lparr>in_locks := remove1 l (in_locks (inodes s i))\<rparr>)"
  "fds (take_off l i p s) = (fds s)(fl_fd (file_locks s l) := (fds s (fl_fd (file_locks s l)))
     \<lparr>fd_locks := remove1 l (fd_locks (fds s (fl_fd (file_locks s l))))\<rparr>)"
  by (simp_all add: take_off_def upd_process_locks_def upd_inode_def upd_fd_def)

lemma remove_lock_eq:
  assumes "lock_inode s l = Some i" "fl_process (file_locks s l) = Some p"
  shows "remove_lock env remove_unix l s =
    (let s3 = take_off l i p s;
         s4 = (if remove_unix then remove_unix_locks env (fl_fd (file_locks s l)) (fl_start (file_locks s l)) (fl_end (file_locks s l)) s3 else s3);
         s5 = (if in_locks (inodes s4 i) = [] then inode_close_pending i True s4 else s4)
     in upd_lock l (\<lambda>f. f\<lparr>fl_process := None, fl_signaled := True\<rparr>) s5)"
  using assms by (simp add: remove_lock_def take_off_def Let_def)

lemma remove_lock_removed:
  assumes inv: "fd_inv s" and l: "live_lock s l" and i: "lock_inode s l = Some i"
  shows "lock_removed remove_unix l i s (remove_lock env remove_unix l s)"
proof -
  obtain p where p: "fl_process (file_locks s l) = Some p" using l by (auto simp: live_lock_def)
  let ?d = "fl_fd (file_locks s l)" and ?s3 = "take_off l i p s"
  define s4 where "s4 = (if remove_unix then remove_unix_locks env ?d (fl_start (file_locks s l)) (fl_end (file_locks s l)) ?s3 else ?s3)"
  define s5 where "s5 = (if in_locks (inodes s4 i) = [] then inode_close_pending i True s4 else s4)"
  have eq: "remove_lock env remove_unix l s = upd_lock l (\<lambda>f. f\<lparr>fl_process := None, fl_signaled := True\<rparr>) s5"
    unfolding remove_lock_eq [OF i p] s5_def s4_def Let_def ..
  have oks: "\<forall>lock \<in> set (inode_lock_list ?s3 i). lock_ok lock" "lock_ok (file_locks s l)"
    using inv l by (auto simp: take_off_sel fd_inv_def lists_agree_def opens_agree_def dest: set_remove1_subset [THEN subsetD])
  have c: "clears ?d i (\<lambda>b. remove_unix \<and> (\<forall>lock \<in> set (inode_lock_list ?s3 i). \<not> covers lock b)) ?s3 s4"
  proof (cases remove_unix)
    case True
    have "clears ?d i (uncovered (fl_start (file_locks s l)) (fl_end (file_locks s l)) ?s3 i) ?s3 s4"
      using remove_unix_locks_spec [of ?s3 ?d i "fl_start (file_locks s l)" "fl_end (file_locks s l)" env] i inv oks True
      by (simp add: s4_def take_off_sel fd_inv_def)
    then show ?thesis by (rule clears_mono) (simp add: uncovered_def True)
  qed (simp add: s4_def)
  note f = clearsD(1) [OF c, unfolded unix_frame_def take_off_sel]
  have sel: "file_locks s5 = file_locks s" "next_lock s5 = next_lock s" "process_locks s5 = process_locks ?s3"
    "fd_failed s5 = fd_failed s" "max_unix_offset s5 = max_unix_offset s4" "fds s5 = fds s4"
    "in_locks (inodes s5 j) = in_locks (inodes ?s3 j)" "in_open (inodes s5 j) = in_open (inodes s j)" for j
    using f by (auto simp: s5_def inode_close_pending_sel take_off_sel)
  have unix: "j \<noteq> i \<Longrightarrow> unix_locks s5 j = unix_locks s j" "in_locks (inodes s5 i) \<noteq> [] \<Longrightarrow> unix_locks s5 = unix_locks s4" for j
    using c f sel(7) [of i] by (auto simp: s5_def inode_close_pending_sel take_off_sel clears_def)
  have "l \<notin> set (remove1 l (in_locks (inodes s i)))" using inv by (simp add: fd_inv_def lists_agree_def)
  then have ll: "inode_lock_list (upd_lock l (\<lambda>f. f\<lparr>fl_process := None, fl_signaled := True\<rparr>) s5) i = inode_lock_list ?s3 i"
    by (simp add: upd_lock_def sel(1,7) take_off_sel)
  have fd: "fd_locks (fds s4 e) = (if e = ?d then remove1 l (fd_locks (fds s e)) else fd_locks (fds s e))"
    "fd_inode (fds s4 e) = fd_inode (fds s e)" "fd_closed (fds s4 e) = fd_closed (fds s e)"
    "fd_fs_locks (fds s4 e) \<longrightarrow> fd_fs_locks (fds s e)" for e
    using f by (auto split: if_splits)
  show ?thesis
    unfolding eq lock_removed_def ll
    using p f sel unix clearsD(2,3) [OF c] by (simp add: upd_lock_def fd take_off_sel)
qed

lemma lock_removed_live:
  assumes "lock_removed ru l i s s'"
  shows "live_lock s' l' \<longleftrightarrow> live_lock s l' \<and> l' \<noteq> l" and "l' \<noteq> l \<Longrightarrow> file_locks s' l' = file_locks s l'"
    and "fd_inode (fds s' e) = fd_inode (fds s e)"
  using assms by (auto simp: lock_removed_def live_lock_def)

lemma lock_removed_inv:
  assumes r: "lock_removed ru l i s s'" and inv: "fd_inv s" and i: "lock_inode s l = Some i"
  shows "fd_inv s'"
proof -
  note live = lock_removed_live [OF r]
  have la: "lists_agree s'"
    using inv r i live unfolding fd_inv_def lists_agree_def lock_removed_def by (auto simp: distinct_remove1)
  moreover have "opens_agree s'" using inv r live unfolding fd_inv_def opens_agree_def lock_removed_def by auto
  moreover have "no_conflicts s'" using inv r live unfolding fd_inv_def no_conflicts_def by auto
  moreover have "backed s'"
  proof -
    have "unix_locks s' j b \<noteq> None"
      if l': "live_lock s' l'" "lock_inode s' l' = Some j" "fd_fs_locks (fds s' (fl_fd (file_locks s' l')))" "b \<le> max_unix_offset s'"
        "covers (file_locks s' l') b" for l' j b
    proof -
      have "l' \<noteq> l" using l'(1) live(1) by simp
      have "b \<le> max_unix_offset s" "fd_fs_locks (fds s (fl_fd (file_locks s l')))"
        using r l'(3,4) order_trans live(2) [OF \<open>l' \<noteq> l\<close>] unfolding lock_removed_def by metis+
      then have old: "unix_locks s j b \<noteq> None"
        using inv l' live \<open>l' \<noteq> l\<close> unfolding fd_inv_def backed_def by metis
      have "file_locks s' l' \<in> set (inode_lock_list s' j)" using inode_lock_covers [OF la l'(1,2)] .
      then show ?thesis using old r l'(4,5) unfolding lock_removed_def by (cases "j = i") fastforce+
    qed
    then show ?thesis unfolding backed_def by blast
  qed
  ultimately show ?thesis using inv r by (auto simp: fd_inv_def lock_removed_def)
qed

lemma lists_agreeD:
  assumes "fd_inv s"
  shows "l \<in> set (in_locks (inodes s i)) \<longleftrightarrow> live_lock s l \<and> lock_inode s l = Some i"
    "l \<in> set (fd_locks (fds s d)) \<longleftrightarrow> live_lock s l \<and> fl_fd (file_locks s l) = d"
    "l \<in> set (process_locks s p) \<longleftrightarrow> live_lock s l \<and> fl_process (file_locks s l) = Some p"
  using assms by (simp_all add: fd_inv_def lists_agree_def)

lemma remove_lock_inv:
  assumes "fd_inv s" "live_lock s l"
  shows "fd_inv (remove_lock env ru l s)"
proof -
  obtain i where "lock_inode s l = Some i" using assms by (auto simp: fd_inv_def opens_agree_def)
  then show ?thesis using lock_removed_inv remove_lock_removed assms by blast
qed

lemma remove_lock_others:
  assumes "fd_inv s" "live_lock s l"
  shows "live_lock (remove_lock env ru l s) l' \<longleftrightarrow> live_lock s l' \<and> l' \<noteq> l"
    and "process_locks (remove_lock env ru l s) p =
      (if fl_process (file_locks s l) = Some p then remove1 l (process_locks s p) else process_locks s p)"
    and "fd_locks (fds (remove_lock env ru l s) e) =
      (if e = fl_fd (file_locks s l) then remove1 l (fd_locks (fds s e)) else fd_locks (fds s e))"
    and "fd_inode (fds (remove_lock env ru l s) e) = fd_inode (fds s e)"
    and "in_open (inodes (remove_lock env ru l s) j) = in_open (inodes s j)"
    and "l' \<noteq> l \<Longrightarrow> file_locks (remove_lock env ru l s) l' = file_locks s l'"
proof -
  obtain i where i: "lock_inode s l = Some i" using assms by (auto simp: fd_inv_def opens_agree_def)
  note r = remove_lock_removed [OF assms i, of ru env]
  show "live_lock (remove_lock env ru l s) l' \<longleftrightarrow> live_lock s l' \<and> l' \<noteq> l"
    "fd_inode (fds (remove_lock env ru l s) e) = fd_inode (fds s e)"
    "l' \<noteq> l \<Longrightarrow> file_locks (remove_lock env ru l s) l' = file_locks s l'"
    using lock_removed_live [OF r] by auto
  show "process_locks (remove_lock env ru l s) p =
      (if fl_process (file_locks s l) = Some p then remove1 l (process_locks s p) else process_locks s p)"
    "fd_locks (fds (remove_lock env ru l s) e) =
      (if e = fl_fd (file_locks s l) then remove1 l (fd_locks (fds s e)) else fd_locks (fds s e))"
    "in_open (inodes (remove_lock env ru l s) j) = in_open (inodes s j)"
    using r unfolding lock_removed_def by blast+
qed

text \<open>The end of a process removes all of its locks and no others, in as many rounds as it has locks.\<close>

lemma remove_process_loop_spec:
  assumes "fd_inv s" "n = length (process_locks s p)"
  shows "fd_inv (remove_process_loop env n p s) \<and> process_locks (remove_process_loop env n p s) p = []
    \<and> (\<forall>l. live_lock (remove_process_loop env n p s) l \<longleftrightarrow> live_lock s l \<and> fl_process (file_locks s l) \<noteq> Some p)"
  using assms
proof (induction n arbitrary: s)
  case 0
  then show ?case using lists_agreeD(3) [OF 0(1), of _ p] by auto
next
  case (Suc n)
  then obtain l ls where ls: "process_locks s p = l # ls" by (cases "process_locks s p") auto
  have l: "live_lock s l" "fl_process (file_locks s l) = Some p" using lists_agreeD(3) [OF Suc.prems(1), of l p] ls by auto
  let ?s1 = "remove_lock env True l s"
  have inv: "fd_inv ?s1" using Suc.prems(1) l(1) by (rule remove_lock_inv)
  note o = remove_lock_others [OF Suc.prems(1) l(1), where env = env and ru = True]
  have "n = length (process_locks ?s1 p)" using Suc.prems(2) ls l(2) by (simp add: o(2))
  note ih = Suc.IH [OF inv this]
  have "live_lock ?s1 l' \<and> fl_process (file_locks ?s1 l') \<noteq> Some p \<longleftrightarrow> live_lock s l' \<and> fl_process (file_locks s l') \<noteq> Some p" for l'
    using o(1) [of l'] o(6) [of l'] l(2) by auto
  then show ?case using ih by (simp add: ls)
qed

lemma remove_fd_loop_spec:
  assumes "fd_inv s" "n = length (fd_locks (fds s d))" "remove_fd_loop env n d start end_pos s = (s', start', end')"
  shows "fd_inv s' \<and> fd_locks (fds s' d) = [] \<and> (\<forall>e. fd_inode (fds s' e) = fd_inode (fds s e))
    \<and> (\<forall>j. in_open (inodes s' j) = in_open (inodes s j))
    \<and> (\<forall>l. live_lock s' l \<longleftrightarrow> live_lock s l \<and> fl_fd (file_locks s l) \<noteq> d)"
  using assms
proof (induction n arbitrary: s start end_pos)
  case 0
  then show ?case using lists_agreeD(2) [OF 0(1), of _ d] by auto
next
  case (Suc n)
  then obtain l ls where ls: "fd_locks (fds s d) = l # ls" by (cases "fd_locks (fds s d)") auto
  have l: "live_lock s l" "fl_fd (file_locks s l) = d" using lists_agreeD(2) [OF Suc.prems(1), of l d] ls by auto
  let ?s1 = "remove_lock env False l s"
  have inv: "fd_inv ?s1" using Suc.prems(1) l(1) by (rule remove_lock_inv)
  note o = remove_lock_others [OF Suc.prems(1) l(1), where env = env and ru = False]
  have n: "n = length (fd_locks (fds ?s1 d))" using Suc.prems(2) ls l(2) by (simp add: o(3))
  obtain a b where run: "remove_fd_loop env n d a b ?s1 = (s', start', end')"
    using Suc.prems(3) by (simp add: ls Let_def)
  have "live_lock ?s1 l' \<and> fl_fd (file_locks ?s1 l') \<noteq> d \<longleftrightarrow> live_lock s l' \<and> fl_fd (file_locks s l') \<noteq> d" for l'
    using o(1) [of l'] o(6) [of l'] l(2) by auto
  then show ?case using Suc.IH [OF inv n run] o(4,5) by simp
qed

end
