(* ===== verification/File_Lock_Steps.thy ===== *)
theory File_Lock_Steps
  imports File_Lock_Correct
begin

text \<open>
  The requests and events that change open files and locks keep the invariant, alone and in any sequence.
\<close>

section \<open>Closing descriptors\<close>

text \<open>A change that touches the kernel locks of one inode at most, and only if it has no locks.\<close>

definition quiet :: "inode_id \<Rightarrow> fd_state \<Rightarrow> fd_state \<Rightarrow> bool" where
  "quiet i s s' \<longleftrightarrow>
     same_files s s' \<and> (\<forall>e. fd_fs_locks (fds s' e) \<longrightarrow> fd_fs_locks (fds s e)) \<and> (\<forall>j. j \<noteq> i \<longrightarrow> unix_locks s' j = unix_locks s j)
     \<and> (in_locks (inodes s i) = [] \<or> unix_locks s' i = unix_locks s i)"

lemma quiet_inv:
  assumes "quiet i s s'" and inv: "fd_inv s"
  shows "fd_inv s'"
proof (rule same_files_inv [OF _ inv])
  show "same_files s s'" using assms(1) by (simp add: quiet_def)
  have eq: "live_lock s' = live_lock s" "file_locks s' = file_locks s" "\<And>e. fd_inode (fds s' e) = fd_inode (fds s e)"
    "max_unix_offset s' \<le> max_unix_offset s"
    using assms(1) by (auto simp: fun_eq_iff live_lock_def quiet_def same_files_def)
  have "unix_locks s' j = unix_locks s j" if "live_lock s l" "lock_inode s l = Some j" for l j
    using assms(1) that lists_agreeD(1) [OF inv, of l j] unfolding quiet_def by (cases "j = i") auto
  moreover have "\<forall>e. fd_fs_locks (fds s' e) \<longrightarrow> fd_fs_locks (fds s e)" using assms(1) by (simp add: quiet_def)
  moreover have "backed s" using inv by (simp add: fd_inv_def)
  ultimately show "backed s'" using eq order_trans unfolding backed_def eq by metis
qed

lemma same_files_trans: "same_files s s' \<Longrightarrow> same_files s' s'' \<Longrightarrow> same_files s s''"
  unfolding same_files_def by (auto intro: order_trans)

lemma quiet_refl [simp]: "quiet i s s"
  by (simp add: quiet_def same_files_def)

lemma quiet_trans: "quiet i s s' \<Longrightarrow> quiet i s' s'' \<Longrightarrow> quiet i s s''"
  unfolding quiet_def same_files_def by (auto intro: order_trans)

lemma quiet_close: "in_locks (inodes s i) = [] \<Longrightarrow> quiet i s (close_closed_fd i c s)"
  by (simp add: quiet_def same_files_def close_closed_fd_def unix_close_def)

lemma quiet_unlink: "quiet i s (unlink_closed_fd env c s)"
  by (simp add: quiet_def same_files_def unlink_closed_fd_def)

lemma quiet_closed_list: "quiet i s (upd_inode i (\<lambda>n. n\<lparr>in_closed := f n\<rparr>) s)"
  by (simp add: quiet_def same_files_def upd_inode_def)

lemma quiet_add_closed: "quiet i s (inode_add_closed_fd env i c s)"
proof (cases "in_locks (inodes s i) = []")
  case True
  note q = quiet_close [OF True, of c]
  show ?thesis unfolding inode_add_closed_fd_def using True q quiet_trans [OF q quiet_unlink] quiet_trans [OF q quiet_closed_list] by simp
qed (simp add: inode_add_closed_fd_def quiet_closed_list)

lemma quiet_fold:
  assumes "in_locks (inodes s i) = []" "\<And>c s. in_locks (inodes s i) = [] \<Longrightarrow> quiet i s (f c s)"
  shows "quiet i s (fold f cs s)"
  using assms(1)
proof (induction cs arbitrary: s)
  case (Cons c cs)
  have "in_locks (inodes (f c s) i) = []" using assms(2) [OF Cons.prems, of c] Cons.prems by (simp add: quiet_def same_files_def)
  then show ?case using quiet_trans [OF assms(2) [OF Cons.prems] Cons.IH] by simp
qed simp

lemma quiet_destroy:
  assumes "in_open (inodes s i) = []" "in_locks (inodes s i) = []"
  shows "quiet i s (inode_destroy env i s)"
proof -
  have "quiet i s (fold (\<lambda>c s. let s1 = close_closed_fd i c s
      in if cf_disp_flags c AND FILE_DISPOSITION_DELETE \<noteq> 0 then unlink_closed_fd env c s1 else s1) (in_closed (inodes s i)) s)"
    by (rule quiet_fold [OF assms(2)]) (auto simp: Let_def intro: quiet_close quiet_trans [OF quiet_close quiet_unlink])
  then show ?thesis using assms quiet_trans [OF _ quiet_closed_list] by (simp add: inode_destroy_def Let_def)
qed

lemma quiet_pending: "in_locks (inodes s i) = [] \<Longrightarrow> quiet i s (inode_close_pending i k s)"
  by (simp add: quiet_def same_files_def inode_close_pending_sel)

section \<open>Unlocking and closing files\<close>

lemma inode_locks_ok:
  assumes "fd_inv s"
  shows "\<forall>lock \<in> set (inode_lock_list s i). lock_ok lock"
  using assms by (auto simp: fd_inv_def lists_agree_def opens_agree_def)

lemma remove_unix_locks_inv:
  assumes inv: "fd_inv s" and r: "range_ok start end0"
  shows "fd_inv (remove_unix_locks env d start end0 s) \<and> same_files s (remove_unix_locks env d start end0 s)"
proof (cases "fd_inode (fds s d)")
  case None
  then show ?thesis using inv by (simp add: remove_unix_locks_def same_files_def)
next
  case (Some i)
  let ?s' = "remove_unix_locks env d start end0 s"
  have c: "clears d i (uncovered start end0 s i) s ?s'"
    using remove_unix_locks_spec [OF Some r _ inode_locks_ok [OF inv]] inv by (simp add: fd_inv_def)
  have la: "lists_agree s" "backed s" using inv by (simp_all add: fd_inv_def)
  have "backed ?s'"
    by (rule backed_clears [OF c la(2)]) (use lists_agreeD(1) [OF inv] in \<open>fastforce simp: uncovered_def\<close>)
  moreover have "same_files s ?s'" using clearsD(1) [OF c] by (rule unix_frame_same)
  ultimately show ?thesis using same_files_inv inv by blast
qed

lemma unlock_fd_inv:
  assumes inv: "fd_inv s"
  shows "fd_inv (fst (unlock_fd env d start n s))"
proof (cases "List.find (\<lambda>l. fl_start (file_locks s l) = start \<and> fl_end (file_locks s l) = start + n) (fd_locks (fds s d))")
  case (Some l)
  then have "l \<in> set (fd_locks (fds s d))" by (auto simp: find_Some_iff)
  then have "live_lock s l" using lists_agreeD(2) [OF inv] by blast
  then show ?thesis using Some remove_lock_inv [OF inv] by (simp add: unlock_fd_def Let_def)
qed (simp add: unlock_fd_def Let_def inv)

lemma range_ok_succ: "a < b \<Longrightarrow> range_ok a (b + 1)"
proof (cases "b = -1")
  assume "a < b"
  case False
  have "unat b \<noteq> 2 ^ 64 - 1" using False by (simp add: word_unat_eq_iff unsigned_minus_1_eq_mask mask_eq_exp_minus_1)
  moreover have "unat b < 2 ^ 64" using unsigned_less [where ?'a = nat, of b] by simp
  ultimately have "unat (b + 1) = unat b + 1" by (simp add: unat_word_ariths)
  then show ?thesis using \<open>a < b\<close> by (simp add: range_ok_def word_less_nat_alt word_le_nat_alt)
qed (simp add: range_ok_def)

lemma remove_fd_locks_inv:
  assumes inv: "fd_inv s"
  shows "fd_inv (remove_fd_locks env d s)"
    and "fd_inode (fds (remove_fd_locks env d s) e) = fd_inode (fds s e)"
    and "in_open (inodes (remove_fd_locks env d s) j) = in_open (inodes s j)"
    and "live_lock (remove_fd_locks env d s) l \<Longrightarrow> fl_fd (file_locks (remove_fd_locks env d s) l) \<noteq> d"
proof -
  obtain s1 a b where run: "remove_fd_loop env (length (fd_locks (fds s d))) d (-1) 0 s = (s1, a, b)" by (rule prod_cases3)
  note sp = remove_fd_loop_spec [OF inv refl run]
  let ?s' = "remove_fd_locks env d s"
  have eq: "?s' = (if a < b then remove_unix_locks env d a (b + 1) s1 else s1)" by (simp add: remove_fd_locks_def run)
  have "range_ok a (b + 1)" if "a < b" using that by (rule range_ok_succ)
  then have s': "fd_inv ?s' \<and> same_files s1 ?s'" unfolding eq using remove_unix_locks_inv sp by (auto simp: same_files_def)
  then show "fd_inv ?s'" "fd_inode (fds ?s' e) = fd_inode (fds s e)" "in_open (inodes ?s' j) = in_open (inodes s j)"
    using sp by (auto simp: same_files_def)
  have "fd_locks (fds ?s' d) = []" using s' sp by (simp add: same_files_def)
  then show "live_lock ?s' l \<Longrightarrow> fl_fd (file_locks ?s' l) \<noteq> d" using lists_agreeD(2) [of ?s' l d] s' by auto
qed

lemma leave_open_inv:
  assumes "fd_inv s" "\<And>l. live_lock s l \<Longrightarrow> fl_fd (file_locks s l) \<noteq> d"
  shows "fd_inv (upd_inode i (\<lambda>n. n\<lparr>in_open := remove1 d (in_open n)\<rparr>) s)"
proof -
  let ?s' = "upd_inode i (\<lambda>n. n\<lparr>in_open := remove1 d (in_open n)\<rparr>) s"
  have eq: "live_lock ?s' = live_lock s" by (simp add: fun_eq_iff live_lock_def upd_inode_def)
  have "opens_agree ?s'"
    using assms unfolding opens_agree_def eq fd_inv_def
    by (auto simp: upd_inode_def distinct_remove1 dest: set_remove1_subset [THEN subsetD]) metis
  moreover have "lists_agree ?s'" "no_conflicts ?s'" "backed ?s'"
    using assms(1) unfolding fd_inv_def lists_agree_def no_conflicts_def backed_def eq by (simp_all add: upd_inode_def) blast+
  ultimately show ?thesis using assms(1) by (simp add: fd_inv_def upd_inode_def)
qed

lemma fd_destroy_inv:
  assumes inv: "fd_inv s"
  shows "fd_inv (fd_destroy env d s)"
proof -
  let ?s1 = "remove_fd_locks env d s"
  note r = remove_fd_locks_inv [OF inv, where env = env and d = d]
  show ?thesis
  proof (cases "fd_inode (fds ?s1 d)")
    case None
    then show ?thesis using r(1) by (simp add: fd_destroy_def Let_def)
  next
    case (Some i)
    define s2 where "s2 = upd_inode i (\<lambda>n. n\<lparr>in_open := remove1 d (in_open n)\<rparr>) ?s1"
    define s3 where "s3 = inode_add_closed_fd env i (fd_closed (fds s2 d)) s2"
    have inv2: "fd_inv s2" unfolding s2_def using leave_open_inv [OF r(1,4)] by blast
    then have inv3: "fd_inv s3" unfolding s3_def using quiet_inv quiet_add_closed by blast
    have "quiet i s3 (inode_destroy env i s3)" if "in_open (inodes s3 i) = []"
    proof (rule quiet_destroy [OF that])
      have "l \<notin> set (in_locks (inodes s3 i))" for l
        using inv3 that lists_agreeD(1) [OF inv3, of l i] unfolding fd_inv_def opens_agree_def by fastforce
      then show "in_locks (inodes s3 i) = []" by (cases "in_locks (inodes s3 i)") auto
    qed
    moreover have "fd_destroy env d s = (if in_open (inodes s3 i) = [] then inode_destroy env i s3 else s3)"
      by (simp only: fd_destroy_def Let_def Some option.case s2_def s3_def)
    ultimately show ?thesis using quiet_inv inv3 by auto
  qed
qed

section \<open>Locking\<close>

lemma set_unix_lock_inv:
  assumes inv: "fd_inv s" and "fd_inode (fds s d) = Some i" "range_ok start end_pos"
    and s': "s' = fst (set_unix_lock env d start end_pos (if sh then F_RDLCK else F_WRLCK) s)"
  shows "fd_inv s' \<and> same_files s s' \<and> (\<forall>e. fd_fs_locks (fds s' e) \<longrightarrow> fd_fs_locks (fds s e))
    \<and> (snd (set_unix_lock env d start end_pos (if sh then F_RDLCK else F_WRLCK) s) = None \<longrightarrow>
       range_set d i start end_pos True s')"
proof -
  have sp: "sets_range d i start end_pos True s s'"
    "snd (set_unix_lock env d start end_pos (if sh then F_RDLCK else F_WRLCK) s) = None \<longrightarrow> range_set d i start end_pos True s'"
    using set_unix_lock_spec [OF assms(2,3), of "if sh then F_RDLCK else F_WRLCK" env] by (simp_all add: s' split: if_splits)
  then have f: "unix_frame d s s'" and sf: "same_files s s'" using unix_frame_same by (auto simp: sets_range_def)
  have fs: "\<forall>e. fd_fs_locks (fds s' e) \<longrightarrow> fd_fs_locks (fds s e)" using unix_frame_fs_locks [OF f] by blast
  have keep: "unix_locks s' j b \<noteq> None" if "unix_locks s j b \<noteq> None" "b \<le> max_unix_offset s'" for j b
    using sp(1) that unfolding sets_range_def by (cases "j = i") (auto split: if_splits)
  have eq: "live_lock s' = live_lock s" "file_locks s' = file_locks s" "\<And>e. fd_inode (fds s' e) = fd_inode (fds s e)"
    using sf by (auto simp: fun_eq_iff live_lock_def same_files_def)
  have m: "max_unix_offset s' \<le> max_unix_offset s" using sf by (simp add: same_files_def)
  have "backed s" using inv by (simp add: fd_inv_def)
  then have "backed s'" using keep fs order_trans [OF _ m] unfolding backed_def eq by meson
  then show ?thesis using same_files_inv [OF sf inv] sf fs sp(2) by blast
qed

text \<open>A new lock joins its three lists.\<close>

definition enter_lock :: "inode_id \<Rightarrow> proc_id \<Rightarrow> file_lock \<Rightarrow> fd_state \<Rightarrow> fd_state" where
  "enter_lock i p lock s =
     upd_process_locks p (\<lambda>ls. ls @ [next_lock s]) (upd_inode i (\<lambda>n. n\<lparr>in_locks := in_locks n @ [next_lock s]\<rparr>)
       (upd_fd (fl_fd lock) (\<lambda>f. f\<lparr>fd_locks := fd_locks f @ [next_lock s]\<rparr>)
         (s\<lparr>next_lock := next_lock s + 1, file_locks := (file_locks s)(next_lock s := lock)\<rparr>)))"

lemma enter_lock_sel:
  "file_locks (enter_lock i p lock s) = (file_locks s)(next_lock s := lock)" "next_lock (enter_lock i p lock s) = next_lock s + 1"
  "process_locks (enter_lock i p lock s) = (process_locks s)(p := process_locks s p @ [next_lock s])"
  "in_locks (inodes (enter_lock i p lock s) j) = (if j = i then in_locks (inodes s j) @ [next_lock s] else in_locks (inodes s j))"
  "in_open (inodes (enter_lock i p lock s) j) = in_open (inodes s j)"
  "fd_locks (fds (enter_lock i p lock s) e) = (if e = fl_fd lock then fd_locks (fds s e) @ [next_lock s] else fd_locks (fds s e))"
  "fd_inode (fds (enter_lock i p lock s) e) = fd_inode (fds s e)" "fd_fs_locks (fds (enter_lock i p lock s) e) = fd_fs_locks (fds s e)"
  "unix_locks (enter_lock i p lock s) = unix_locks s" "fd_failed (enter_lock i p lock s) = fd_failed s"
  "max_unix_offset (enter_lock i p lock s) = max_unix_offset s"
  by (simp_all add: enter_lock_def upd_process_locks_def upd_inode_def upd_fd_def)

lemma enter_lock_live:
  assumes "fl_process lock = Some p"
  shows "live_lock (enter_lock i p lock s) l \<longleftrightarrow> live_lock s l \<or> l = next_lock s"
  using assms by (auto simp: live_lock_def enter_lock_sel)

lemma not_live_next: "\<not> live_lock s (next_lock s)"
  by (simp add: live_lock_def)

lemma compatible_sym: "compatible l1 l2 \<Longrightarrow> compatible l2 l1"
  by (auto simp: compatible_def)

lemma enter_lock_inv:
  assumes inv: "fd_inv s" and lock: "fl_process lock = Some p" "lock_ok lock" and d: "fd_inode (fds s (fl_fd lock)) = Some i"
      "fl_fd lock \<in> set (in_open (inodes s i))"
    and comp: "\<forall>l \<in> set (in_locks (inodes s i)). compatible (file_locks s l) lock"
    and rs: "range_set (fl_fd lock) i (fl_start lock) (fl_end lock) True s"
  shows "fd_inv (enter_lock i p lock s)"
proof -
  let ?s' = "enter_lock i p lock s" and ?l = "next_lock s"
  note live = enter_lock_live [OF lock(1), of i s] and nl = not_live_next [of s]
  have fresh: "?l \<notin> set (in_locks (inodes s j))" "?l \<notin> set (fd_locks (fds s e))" "?l \<notin> set (process_locks s q)" for j e q
    using lists_agreeD [OF inv] nl by auto
  have la: "lists_agree s" and oa: "opens_agree s" and nc: "no_conflicts s" and bk: "backed s" using inv by (simp_all add: fd_inv_def)
  have "lists_agree ?s'" unfolding lists_agree_def live enter_lock_sel
  proof (intro conjI allI)
    fix l j
    show "l \<in> set (if j = i then in_locks (inodes s j) @ [?l] else in_locks (inodes s j)) \<longleftrightarrow>
        (live_lock s l \<or> l = ?l) \<and> fd_inode (fds s (fl_fd (((file_locks s)(?l := lock)) l))) = Some j"
      using lists_agreeD(1) [OF inv, of l j] nl d(1) by (cases "l = ?l") auto
    show "l \<in> set (if j = fl_fd lock then fd_locks (fds s j) @ [?l] else fd_locks (fds s j)) \<longleftrightarrow>
        (live_lock s l \<or> l = ?l) \<and> fl_fd (((file_locks s)(?l := lock)) l) = j"
      using lists_agreeD(2) [OF inv, of l j] nl by (cases "l = ?l") auto
    show "l \<in> set (((process_locks s)(p := process_locks s p @ [?l])) j) \<longleftrightarrow>
        (live_lock s l \<or> l = ?l) \<and> fl_process (((file_locks s)(?l := lock)) l) = Some j"
      using lists_agreeD(3) [OF inv, of l j] nl lock(1) by (cases "l = ?l") auto
  qed (use la fresh in \<open>auto simp: lists_agree_def\<close>)
  moreover have "opens_agree ?s'"
    using oa nl lock d unfolding opens_agree_def live enter_lock_sel by auto
  moreover have "no_conflicts ?s'"
    unfolding no_conflicts_def live enter_lock_sel
  proof (intro allI impI)
    fix l1 l2 let ?f = "(file_locks s)(?l := lock)"
    assume a: "(live_lock s l1 \<or> l1 = ?l) \<and> (live_lock s l2 \<or> l2 = ?l) \<and> l1 \<noteq> l2
      \<and> fd_inode (fds s (fl_fd (?f l1))) = fd_inode (fds s (fl_fd (?f l2)))"
    have new: "compatible (file_locks s l) lock" if "live_lock s l" "lock_inode s l = Some i" for l
      using comp lists_agreeD(1) [OF inv, of l i] that by simp
    consider "l1 = ?l" | "l2 = ?l" | "l1 \<noteq> ?l" "l2 \<noteq> ?l" by blast
    then show "compatible (?f l1) (?f l2)"
    proof cases
      case 1
      then show ?thesis using a d(1) compatible_sym [OF new, of l2] by auto
    next
      case 2
      then show ?thesis using a d(1) new [of l1] by auto
    next
      case 3
      then show ?thesis using a nc by (simp add: no_conflicts_def)
    qed
  qed
  moreover have "backed ?s'"
    using bk nl d rs unfolding backed_def live enter_lock_sel range_set_def by auto
  ultimately show ?thesis using inv by (simp add: fd_inv_def enter_lock_sel)
qed

lemma no_overlap_compatible:
  assumes "lock_ok l1" "lock_ok l2"
    and "\<not> (lock_overlaps l1 (fl_start l2) (fl_end l2) \<and> \<not> (fl_shared l2 \<and> (fl_shared l1 \<or> fl_fd l1 = fl_fd l2)))"
  shows "compatible l1 l2"
proof -
  have "lock_overlaps l1 (fl_start l2) (fl_end l2)" if "covers l1 b" "covers l2 b" for b
    using lock_overlaps_bytes [OF assms(1,2)] that by (auto simp: in_range_def)
  then show ?thesis using assms(3) unfolding compatible_def by blast
qed

lemma add_lock_inv:
  assumes inv: "fd_inv s" and i: "fd_inode (fds s d) = Some i" "d \<in> set (in_open (inodes s i))" and r: "range_ok start e"
    and nf: "\<forall>l \<in> set (in_locks (inodes s i)). \<not> (lock_overlaps (file_locks s l) start e
        \<and> \<not> (sh \<and> (fl_shared (file_locks s l) \<or> fl_fd (file_locks s l) = d)))"
  shows "fd_inv (fst (add_lock env p d sh start e s))"
proof -
  let ?s0 = "s\<lparr>unix_calls := unix_calls s + 1\<rparr>"
  define lock where "lock = \<lparr>fl_signaled = False, fl_fd = d, fl_shared = sh, fl_start = start, fl_end = e, fl_process = Some p\<rparr>"
  have inv0: "fd_inv ?s0" by (rule quiet_inv [OF _ inv, of i]) (simp add: quiet_def same_files_def)
  obtain s1 res where su: "set_unix_lock env d start e (if sh then F_RDLCK else F_WRLCK) ?s0 = (s1, res)" by fastforce
  have s1: "fd_inv s1" "same_files s s1" "res = None \<longrightarrow> range_set d i start e True s1"
    using set_unix_lock_inv [OF inv0, of d i start e s1 env sh] i r su by (auto simp: same_files_def)
  have "compatible (file_locks s l) lock" if "l \<in> set (in_locks (inodes s i))" for l
    by (rule no_overlap_compatible) (use inode_locks_ok [OF inv, of i] that nf r in \<open>auto simp: lock_def\<close>)
  then have e: "fd_inv (enter_lock i p lock s1)" if "res = None"
    using enter_lock_inv [OF s1(1), of lock p i] s1 that i r by (simp add: lock_def same_files_def)
  have i1: "fd_inode (fds s1 d) = Some i" using s1(2) i by (simp add: same_files_def)
  have "fst (add_lock env p d sh start e s) =
      (if \<not> malloc_ok env (unix_calls s) then ?s0 else case res of None \<Rightarrow> enter_lock i p lock s1 | Some err \<Rightarrow> s1)"
    unfolding add_lock_def Let_def su using i1 by (simp add: enter_lock_def lock_def upd_fd_def split: option.split)
  then show ?thesis using inv0 s1 e by (simp split: option.split)
qed

lemma lock_fd_inv:
  assumes inv: "fd_inv s" and d: "\<And>i. fd_inode (fds s d) = Some i \<Longrightarrow> d \<in> set (in_open (inodes s i))"
  shows "fd_inv (fst (lock_fd env p d start n sh w s))"
proof (cases "fd_inode (fds s d)")
  case None
  then show ?thesis using inv by (simp add: lock_fd_def Let_def)
next
  case (Some i)
  let ?conflict = "\<lambda>l. lock_overlaps (file_locks s l) start (start + n)
    \<and> \<not> (sh \<and> (fl_shared (file_locks s l) \<or> fl_fd (file_locks s l) = d))"
  show ?thesis
  proof (cases "start + n \<noteq> 0 \<and> start + n < start \<or> List.find ?conflict (in_locks (inodes s i)) \<noteq> None")
    case True
    then show ?thesis using Some inv by (auto simp: lock_fd_def Let_def)
  next
    case False
    then have r: "range_ok start (start + n)" and nf: "\<forall>l \<in> set (in_locks (inodes s i)). \<not> ?conflict l"
      by (auto simp: range_ok_def find_None_iff not_less)
    have "fst (lock_fd env p d start n sh w s) = fst (add_lock env p d sh start (start + n) s)"
      using False Some by (cases "add_lock env p d sh start (start + n) s") (auto simp: lock_fd_def Let_def split: sum.split)
    then show ?thesis using add_lock_inv [OF inv Some d [OF Some] r nf] by simp
  qed
qed

section \<open>Opening files\<close>

text \<open>A file object that is not in use yet.\<close>

definition fresh_fd :: "fd_id \<Rightarrow> fd_state \<Rightarrow> bool" where
  "fresh_fd d s \<longleftrightarrow> (\<forall>i. d \<notin> set (in_open (inodes s i))) \<and> (\<forall>l. live_lock s l \<longrightarrow> fl_fd (file_locks s l) \<noteq> d)"

lemma add_open_fd_inv:
  assumes inv: "fd_inv s" and fresh: "fresh_fd d s" and f: "fd_inode f = Some i" "fd_locks f = []"
  shows "fd_inv (add_open_fd d i f s)"
proof -
  let ?s' = "add_open_fd d i f s"
  have live: "live_lock ?s' = live_lock s" by (simp add: fun_eq_iff live_lock_def add_open_fd_def upd_inode_def upd_fd_def)
  have sel: "file_locks ?s' = file_locks s" "process_locks ?s' = process_locks s" "in_locks (inodes ?s' j) = in_locks (inodes s j)"
    "in_open (inodes ?s' j) = (if j = i then d # in_open (inodes s j) else in_open (inodes s j))"
    "fds ?s' = (fds s)(d := f)" "unix_locks ?s' = unix_locks s" "max_unix_offset ?s' = max_unix_offset s" "fd_failed ?s' = fd_failed s" for j
    by (simp_all add: add_open_fd_def upd_inode_def upd_fd_def)
  have nd: "fl_fd (file_locks s l) \<noteq> d" if "live_lock s l" for l using fresh that by (simp add: fresh_fd_def)
  have la: "lists_agree s" and oa: "opens_agree s" and nc: "no_conflicts s" and bk: "backed s" using inv by (simp_all add: fd_inv_def)
  have "lists_agree ?s'" using la nd f(2) unfolding lists_agree_def live sel by auto
  moreover have "opens_agree ?s'"
    using oa nd fresh f(1) unfolding opens_agree_def live sel fresh_fd_def by auto
  moreover have "no_conflicts ?s'" using nc nd unfolding no_conflicts_def live sel by auto
  moreover have "backed ?s'" using bk unfolding backed_def live sel by (auto dest: nd)
  ultimately show ?thesis using inv by (simp add: fd_inv_def sel)
qed

lemma upd_fd_quiet:
  assumes "\<And>f. fd_inode (g f) = fd_inode f \<and> fd_locks (g f) = fd_locks f \<and> fd_fs_locks (g f) = fd_fs_locks f"
  shows "quiet i s (upd_fd d g s)"
  using assms by (simp add: quiet_def same_files_def upd_fd_def)

lemma check_sharing_quiet:
  assumes "fd_inode (fds s d) = Some j"
  shows "quiet i s (fst (check_sharing d access sharing trunc options s))"
  using assms upd_fd_quiet [of "\<lambda>f. f\<lparr>fd_access := access, fd_sharing := sharing\<rparr>" i s d]
  by (simp add: check_sharing_def Let_def upd_fd_def)

lemma open_fd_inode_inv:
  assumes inv: "fd_inv s" and fresh: "fresh_fd d s"
  shows "fd_inv (fst (open_fd_inode env d i unix_fd name is_dir writable create trunc access sharing options s))"
proof -
  define s1 where "s1 = add_open_fd d i (new_fd i unix_fd name options) s"
  obtain s2 err where cs: "check_sharing d access sharing trunc options s1 = (s2, err)" by fastforce
  define s3 where "s3 = upd_fd d (\<lambda>f. f\<lparr>fd_closed := (fd_closed f)
    \<lparr>cf_disp_flags := if options AND FILE_DELETE_ON_CLOSE \<noteq> 0 then FILE_DISPOSITION_DELETE else 0\<rparr>\<rparr>) s2"
  have inv1: "fd_inv s1" unfolding s1_def by (rule add_open_fd_inv [OF inv fresh]) (simp_all add: new_fd_def)
  have "fd_inode (fds s1 d) = Some i" by (simp add: s1_def add_open_fd_def new_fd_def upd_inode_def upd_fd_def)
  then have inv2: "fd_inv s2" using quiet_inv [OF check_sharing_quiet inv1] cs by (metis fst_conv)
  have inv3: "fd_inv s3" unfolding s3_def by (rule quiet_inv [OF upd_fd_quiet inv2]) simp
  have "fst (open_fd_inode env d i unix_fd name is_dir writable create trunc access sharing options s)
      \<in> {fd_destroy env d s1, fd_destroy env d s2, fd_destroy env d s3, s3}"
    by (simp add: open_fd_inode_def Let_def s1_def [symmetric] cs s3_def [symmetric])
  then show ?thesis using inv1 inv2 inv3 fd_destroy_inv by auto
qed

lemma dup_fd_inode_inv:
  assumes inv: "fd_inv s" and fresh: "fresh_fd d s" and orig: "fd_inode (fds s orig) = Some i"
  shows "fd_inv (fst (dup_fd_inode env d orig dup_fd access sharing options s))"
proof -
  define s1 where "s1 = add_open_fd d i (new_fd i dup_fd (cf_unix_name (fd_closed (fds s orig))) options) s"
  obtain s2 err where cs: "check_sharing d access sharing False options s1 = (s2, err)" by fastforce
  have inv1: "fd_inv s1" unfolding s1_def by (rule add_open_fd_inv [OF inv fresh]) (simp_all add: new_fd_def)
  have "fd_inode (fds s1 d) = Some i" by (simp add: s1_def add_open_fd_def new_fd_def upd_inode_def upd_fd_def)
  then have inv2: "fd_inv s2" using quiet_inv [OF check_sharing_quiet inv1] cs by (metis fst_conv)
  then show ?thesis using orig fd_destroy_inv cs by (simp add: dup_fd_inode_def s1_def [symmetric])
qed

lemma set_fd_disposition_inv:
  assumes "fd_inv s"
  shows "fd_inv (fst (set_fd_disposition d flags st s))"
  using assms quiet_inv [OF upd_fd_quiet assms] by (simp add: set_fd_disposition_def Let_def split: option.split)

section \<open>Unmounting\<close>

lemma unmount_fold:
  assumes "\<forall>d \<in> set ds. fd_inode (fds s d) = Some i"
  shows "same_files s (fold unmount_fd ds s) \<and> (\<forall>j. j \<noteq> i \<longrightarrow> unix_locks (fold unmount_fd ds s) j = unix_locks s j)
    \<and> (\<forall>e. fd_fs_locks (fds (fold unmount_fd ds s) e) \<longrightarrow> fd_fs_locks (fds s e) \<and> e \<notin> set ds)"
  using assms
proof (induction ds arbitrary: s)
  case (Cons d ds)
  let ?s1 = "unmount_fd d s"
  have s1: "same_files s ?s1" "\<forall>j. j \<noteq> i \<longrightarrow> unix_locks ?s1 j = unix_locks s j"
    "\<forall>e. fd_fs_locks (fds ?s1 e) \<longrightarrow> fd_fs_locks (fds s e) \<and> e \<noteq> d" "\<forall>e. fd_inode (fds ?s1 e) = fd_inode (fds s e)"
    using Cons.prems by (auto simp: unmount_fd_def same_files_def upd_fd_def unix_close_def)
  have ih: "same_files ?s1 (fold unmount_fd ds ?s1)" "\<forall>j. j \<noteq> i \<longrightarrow> unix_locks (fold unmount_fd ds ?s1) j = unix_locks ?s1 j"
    "\<forall>e. fd_fs_locks (fds (fold unmount_fd ds ?s1) e) \<longrightarrow> fd_fs_locks (fds ?s1 e) \<and> e \<notin> set ds"
    using Cons.IH [of ?s1] Cons.prems s1(4) by simp_all
  have "same_files s (fold unmount_fd ds ?s1)" using s1(1) ih(1) by (rule same_files_trans)
  then show ?case using ih(2,3) s1(2,3) by simp
qed (simp add: same_files_def)

lemma unmount_inode_inv:
  assumes inv: "fd_inv s"
  shows "fd_inv (unmount_inode i s)"
proof -
  let ?s1 = "fold unmount_fd (in_open (inodes s i)) s" and ?s' = "unmount_inode i s"
  have u: "same_files s ?s1" "\<forall>j. j \<noteq> i \<longrightarrow> unix_locks ?s1 j = unix_locks s j"
    "\<forall>e. fd_fs_locks (fds ?s1 e) \<longrightarrow> fd_fs_locks (fds s e) \<and> e \<notin> set (in_open (inodes s i))"
    using unmount_fold [of "in_open (inodes s i)" s i] inv by (auto simp: fd_inv_def opens_agree_def)
  have s': "same_files s ?s'" "\<forall>j. j \<noteq> i \<longrightarrow> unix_locks ?s' j = unix_locks s j"
    "\<forall>e. fd_fs_locks (fds ?s' e) \<longrightarrow> fd_fs_locks (fds s e) \<and> e \<notin> set (in_open (inodes s i))"
    using u by (simp_all add: unmount_inode_def inode_close_pending_sel same_files_def)
  have eq: "live_lock ?s' = live_lock s" "file_locks ?s' = file_locks s" "\<And>e. fd_inode (fds ?s' e) = fd_inode (fds s e)"
    "max_unix_offset ?s' \<le> max_unix_offset s"
    using s'(1) by (auto simp: fun_eq_iff live_lock_def same_files_def)
  have "j \<noteq> i" if "live_lock s l" "lock_inode s l = Some j" "fd_fs_locks (fds ?s' (fl_fd (file_locks s l)))" for l j
    using that s'(3) inv by (auto simp: fd_inv_def opens_agree_def)
  moreover have "backed s" using inv by (simp add: fd_inv_def)
  ultimately have "backed ?s'" using s'(2,3) order_trans [OF _ eq(4)] unfolding backed_def eq by metis
  then show ?thesis using same_files_inv [OF s'(1) inv] by blast
qed

end
