(* ===== verification/File_Lock_Properties.thy ===== *)
theory File_Lock_Properties
  imports File_Lock_Steps
begin

text \<open>
  The step relation of open files and locks, and the properties of sharing modes and locks.
\<close>

section \<open>Sequences of requests\<close>

text \<open>The system calls may answer differently in each step.\<close>

inductive fd_step :: "fd_state \<Rightarrow> fd_state \<Rightarrow> bool" where
  open_file: "fresh_fd d s \<Longrightarrow>
     fd_step s (fst (open_fd_inode env d i unix_fd name is_dir writable create trunc access sharing options s))"
| dup_file: "fresh_fd d s \<Longrightarrow> orig \<in> set (in_open (inodes s i)) \<Longrightarrow>
     fd_step s (fst (dup_fd_inode env d orig dup_fd access sharing options s))"
| lock: "d \<in> set (in_open (inodes s i)) \<Longrightarrow> fd_step s (fst (lock_fd env p d start n sh w s))"
| unlock: "fd_step s (fst (unlock_fd env d start n s))"
| close_file: "d \<in> set (in_open (inodes s i)) \<Longrightarrow> fd_step s (fd_destroy env d s)"
| process_exit: "fd_step s (remove_process_locks env p s)"
| disposition: "fd_step s (fst (set_fd_disposition d flags st s))"
| unmount: "fd_step s (unmount_inode i s)"

definition fd_init :: fd_state where
  "fd_init = \<lparr>file_locks = (\<lambda>_. \<lparr>fl_signaled = False, fl_fd = 0, fl_shared = False, fl_start = 0, fl_end = 0, fl_process = None\<rparr>),
     next_lock = 0,
     fds = (\<lambda>_. \<lparr>fd_inode = None, fd_closed = \<lparr>cf_unix_fd = -1, cf_disp_flags = 0, cf_unix_name = ''''\<rparr>, fd_locks = [],
        fd_access = 0, fd_options = 0, fd_sharing = 0, fd_unix_fd = -1, fd_no_fd_status = 0, fd_fs_locks = False\<rparr>),
     inodes = (\<lambda>_. \<lparr>in_open = [], in_locks = [], in_closed = []\<rparr>), process_locks = (\<lambda>_. []),
     max_unix_offset = OFF_T_MAX, unix_locks = (\<lambda>_ _. None), unix_calls = 0, unlinked = [], fd_failed = False\<rparr>"

lemma fd_init_inv: "fd_inv fd_init"
  by (simp add: fd_init_def fd_inv_def lists_agree_def opens_agree_def no_conflicts_def backed_def live_lock_def)

lemma open_has_inode: "fd_inv s \<Longrightarrow> d \<in> set (in_open (inodes s i)) \<Longrightarrow> fd_inode (fds s d) = Some i"
  by (simp add: fd_inv_def opens_agree_def)

lemma fd_step_inv: "fd_step s s' \<Longrightarrow> fd_inv s \<Longrightarrow> fd_inv s'"
proof (induction rule: fd_step.induct)
  case (lock d s i env p start n sh w)
  then show ?case using open_has_inode [of s d i] by (intro lock_fd_inv) auto
next
  case (process_exit s env p)
  then show ?case using remove_process_loop_spec [of s _ p env] by (simp add: remove_process_locks_def)
qed (auto intro: open_fd_inode_inv dup_fd_inode_inv unlock_fd_inv fd_destroy_inv set_fd_disposition_inv unmount_inode_inv
       dest: open_has_inode)

interpretation fd_steps: step_invariant fd_step fd_inv
  by unfold_locales (rule fd_step_inv)

lemma fd_steps_inv: "fd_step\<^sup>*\<^sup>* fd_init s \<Longrightarrow> fd_inv s"
  using fd_init_inv by (rule fd_steps.steps_keep [rotated])

section \<open>Sharing modes\<close>

text \<open>Whether an open file permits the access of another one; mappings and deletion add to that.\<close>

definition shares :: "u32 \<Rightarrow> u32 \<Rightarrow> u32 \<Rightarrow> bool" where
  "shares own_access own_sharing access \<longleftrightarrow>
     own_access AND all_access \<noteq> 0 \<longrightarrow>
       (access AND read_access \<noteq> 0 \<longrightarrow> own_sharing AND FILE_SHARE_READ \<noteq> 0)
       \<and> (access AND write_access \<noteq> 0 \<longrightarrow> own_sharing AND FILE_SHARE_WRITE \<noteq> 0)
       \<and> (access AND FILE_DELETE \<noteq> 0 \<longrightarrow> own_sharing AND FILE_SHARE_DELETE \<noteq> 0)"

definition may_join :: "u32 \<Rightarrow> u32 \<Rightarrow> bool \<Rightarrow> u32 \<Rightarrow> fd \<Rightarrow> bool" where
  "may_join access sharing trunc options f \<longleftrightarrow>
     shares (fd_access f) (fd_sharing f) access \<and> shares access sharing (fd_access f)
     \<and> (fd_access f AND FILE_MAPPING_WRITE \<noteq> 0 \<longrightarrow> sharing AND FILE_SHARE_WRITE \<noteq> 0)
     \<and> (fd_access f AND FILE_MAPPING_IMAGE \<noteq> 0 \<longrightarrow> access AND FILE_WRITE_DATA = 0 \<and> options AND FILE_DELETE_ON_CLOSE = 0)
     \<and> (fd_access f AND FILE_MAPPING_ACCESS \<noteq> 0 \<longrightarrow> \<not> trunc)"

abbreviation mode_step :: "fd \<Rightarrow> u32 \<times> u32 \<Rightarrow> u32 \<times> u32" where
  "mode_step \<equiv> \<lambda>f (sharing, access).
     (if fd_access f AND all_access \<noteq> 0 then sharing AND fd_sharing f else sharing, access OR fd_access f)"

lemma existing_sharing_fold:
  "bit (fst (fold mode_step others (sh, acc))) n \<longleftrightarrow>
     bit sh n \<and> (\<forall>f \<in> set others. fd_access f AND all_access \<noteq> 0 \<longrightarrow> bit (fd_sharing f) n)"
  by (induction others arbitrary: sh acc) (auto simp: bit_and_iff)

lemma existing_access_fold:
  "snd (fold mode_step others (sh, acc)) AND m = 0 \<longleftrightarrow> acc AND m = 0 \<and> (\<forall>f \<in> set others. fd_access f AND m = 0)"
proof (induction others arbitrary: sh acc)
  case (Cons f others)
  have "(acc OR fd_access f) AND m = 0 \<longleftrightarrow> acc AND m = 0 \<and> fd_access f AND m = 0"
    by (simp add: bit.conj_disj_distrib2 or_eq_0_iff)
  then show ?case by (simp add: Cons.IH)
qed simp

lemma existing_modes_spec:
  assumes "existing_modes others = (es, ea)"
  shows "n < 3 \<Longrightarrow> bit es n \<longleftrightarrow> (\<forall>f \<in> set others. fd_access f AND all_access \<noteq> 0 \<longrightarrow> bit (fd_sharing f) n)"
    and "ea AND m = 0 \<longleftrightarrow> (\<forall>f \<in> set others. fd_access f AND m = 0)"
proof -
  have e: "es = fst (existing_modes others)" "ea = snd (existing_modes others)" using assms by simp_all
  have "bit (7 :: u32) n" if "n < 3" for n :: nat using that by (auto simp: less_Suc_eq numeral_3_eq_3 bit_iff_odd)
  then show "n < 3 \<Longrightarrow> bit es n \<longleftrightarrow> (\<forall>f \<in> set others. fd_access f AND all_access \<noteq> 0 \<longrightarrow> bit (fd_sharing f) n)"
    unfolding e existing_modes_def existing_sharing_fold by simp
  show "ea AND m = 0 \<longleftrightarrow> (\<forall>f \<in> set others. fd_access f AND m = 0)"
    unfolding e existing_modes_def existing_access_fold by simp
qed

lemma single_bits:
  "(w :: u32) AND 1 = 0 \<longleftrightarrow> \<not> bit w 0" "w AND 2 = 0 \<longleftrightarrow> \<not> bit w 1" "w AND 4 = 0 \<longleftrightarrow> \<not> bit w 2"
  using and_exp_eq_0_iff_not_bit [of w 0] and_exp_eq_0_iff_not_bit [of w 1] and_exp_eq_0_iff_not_bit [of w 2] by simp_all

lemma check_sharing_modes_zero:
  "check_sharing_modes others access sharing trunc options = 0 \<longleftrightarrow>
     (\<forall>f \<in> set others. may_join access sharing trunc options f)"
proof -
  obtain es ea where m: "existing_modes others = (es, ea)" by fastforce
  note sp = existing_modes_spec [OF m]
  have es: "es AND 1 = 0 \<longleftrightarrow> \<not> (\<forall>f \<in> set others. fd_access f AND all_access \<noteq> 0 \<longrightarrow> fd_sharing f AND 1 \<noteq> 0)"
    "es AND 2 = 0 \<longleftrightarrow> \<not> (\<forall>f \<in> set others. fd_access f AND all_access \<noteq> 0 \<longrightarrow> fd_sharing f AND 2 \<noteq> 0)"
    "es AND 4 = 0 \<longleftrightarrow> \<not> (\<forall>f \<in> set others. fd_access f AND all_access \<noteq> 0 \<longrightarrow> fd_sharing f AND 4 \<noteq> 0)"
    unfolding single_bits using sp(1) [of 0] sp(1) [of 1] sp(1) [of 2] by simp_all
  have r: "check_sharing_modes others access sharing trunc options = 0 \<longleftrightarrow>
      \<not> (access AND read_access \<noteq> 0 \<and> es AND 1 = 0 \<or> access AND write_access \<noteq> 0 \<and> es AND 2 = 0
         \<or> access AND FILE_DELETE \<noteq> 0 \<and> es AND 4 = 0)
      \<and> \<not> (ea AND FILE_MAPPING_WRITE \<noteq> 0 \<and> sharing AND 2 = 0 \<or> ea AND FILE_MAPPING_IMAGE \<noteq> 0 \<and> access AND FILE_WRITE_DATA \<noteq> 0)
      \<and> \<not> (ea AND FILE_MAPPING_IMAGE \<noteq> 0 \<and> options AND FILE_DELETE_ON_CLOSE \<noteq> 0)
      \<and> \<not> (ea AND FILE_MAPPING_ACCESS \<noteq> 0 \<and> trunc)
      \<and> (access AND all_access = 0 \<or> \<not> (ea AND read_access \<noteq> 0 \<and> sharing AND 1 = 0 \<or> ea AND write_access \<noteq> 0 \<and> sharing AND 2 = 0
         \<or> ea AND FILE_DELETE \<noteq> 0 \<and> sharing AND 4 = 0))"
    unfolding check_sharing_modes_def m Let_def prod.case by simp
  show ?thesis unfolding r es sp(2) may_join_def shares_def by blast
qed

section \<open>Unlocking\<close>

lemma unlock_holes_succeeds:
  assumes "\<forall>n. setlk_errno env n = None" "fd_inode (fds s d) = Some i"
  shows "fds (unlock_holes env d holes s) = fds s \<and> max_unix_offset (unlock_holes env d holes s) = max_unix_offset s"
  using assms(2)
proof (induction holes arbitrary: s)
  case (Cons h holes)
  obtain cs ce where h: "h = (cs, ce)" by (cases h)
  note u = set_unix_lock_succeeds [OF assms(1) Cons.prems, of cs ce F_UNLCK]
  show ?case using Cons.IH [of "fst (set_unix_lock env d cs ce F_UNLCK s)"] u Cons.prems by (simp add: h unlock_holes_Cons)
qed (simp add: unlock_holes_def)

lemma remove_unix_locks_succeeds:
  assumes "\<forall>n. setlk_errno env n = None" "fd_inode (fds s d) = Some i"
  shows "fds (remove_unix_locks env d start e s) = fds s \<and> max_unix_offset (remove_unix_locks env d start e s) = max_unix_offset s"
  using assms set_unix_lock_succeeds [OF assms] unlock_holes_succeeds [OF assms(1), of "s\<lparr>unix_calls := c, fd_failed := f\<rparr>" d i for c f]
  by (simp add: remove_unix_locks_def Let_def split: prod.split)

lemma remove_lock_clears:
  assumes inv: "fd_inv s" and l: "live_lock s l" "lock_inode s l = Some i"
    and ok: "\<forall>n. setlk_errno env n = None" "\<forall>n. malloc_ok env n" and fs: "fd_fs_locks (fds s (fl_fd (file_locks s l)))"
    and b: "b \<le> max_unix_offset s" "covers (file_locks s l) b" and n: "\<forall>lock \<in> set (inode_lock_list (remove_lock env True l s) i). \<not> covers lock b"
  shows "unix_locks (remove_lock env True l s) i b = None"
proof -
  obtain p where p: "fl_process (file_locks s l) = Some p" using l by (auto simp: live_lock_def)
  let ?d = "fl_fd (file_locks s l)" and ?s3 = "take_off l i p s"
  define s4 where "s4 = remove_unix_locks env ?d (fl_start (file_locks s l)) (fl_end (file_locks s l)) ?s3"
  have eq: "remove_lock env True l s = upd_lock l (\<lambda>f. f\<lparr>fl_process := None, fl_signaled := True\<rparr>)
      (if in_locks (inodes s4 i) = [] then inode_close_pending i True s4 else s4)"
    unfolding remove_lock_eq [OF l(2) p] s4_def by (simp add: Let_def)
  have i3: "fd_inode (fds ?s3 ?d) = Some i" "fd_fs_locks (fds ?s3 ?d)" using l(2) fs by (simp_all add: take_off_sel)
  have r: "lock_ok (file_locks s l)" using inv l by (auto simp: fd_inv_def opens_agree_def)
  have locks3: "\<forall>lock \<in> set (inode_lock_list ?s3 i). lock_ok lock"
    using inode_locks_ok [OF inv, of i] by (auto simp: take_off_sel dest: set_remove1_subset [THEN subsetD])
  have c: "all_cleared i (uncovered (fl_start (file_locks s l)) (fl_end (file_locks s l)) ?s3 i) s4"
    using remove_unix_locks_spec [OF i3(1) r _ locks3] i3(2) ok inv by (simp add: s4_def take_off_sel fd_inv_def)
  have "in_locks (inodes (remove_lock env True l s) i) = remove1 l (in_locks (inodes s i))"
    "\<forall>l'. l' \<noteq> l \<longrightarrow> file_locks (remove_lock env True l s) l' = file_locks s l'"
    using remove_lock_removed [OF inv l, of True env] by (simp_all add: lock_removed_def)
  then have "\<forall>lock \<in> set (inode_lock_list ?s3 i). \<not> covers lock b"
    using n inv by (auto simp: take_off_sel fd_inv_def lists_agree_def)
  then have "uncovered (fl_start (file_locks s l)) (fl_end (file_locks s l)) ?s3 i b" using b(2) by (simp add: uncovered_def)
  moreover have "b \<le> max_unix_offset s4"
    using remove_unix_locks_succeeds [OF ok(1) i3(1)] b(1) by (simp add: s4_def take_off_sel)
  ultimately have "unix_locks s4 i b = None" using c by (simp add: all_cleared_def)
  then show ?thesis using inode_close_pending_sel(10) [of i True s4 b] by (auto simp: eq upd_lock_def)
qed

lemma remove_lock_succeeds:
  assumes l: "live_lock s l" "lock_inode s l = Some i" and ok: "\<forall>n. setlk_errno env n = None"
  shows "fd_fs_locks (fds (remove_lock env True l s) e) = fd_fs_locks (fds s e)"
    and "max_unix_offset (remove_lock env True l s) = max_unix_offset s"
proof -
  obtain p where p: "fl_process (file_locks s l) = Some p" using l by (auto simp: live_lock_def)
  have i3: "fd_inode (fds (take_off l i p s) (fl_fd (file_locks s l))) = Some i" using l(2) by (simp add: take_off_sel)
  show "fd_fs_locks (fds (remove_lock env True l s) e) = fd_fs_locks (fds s e)"
    "max_unix_offset (remove_lock env True l s) = max_unix_offset s"
    unfolding remove_lock_eq [OF l(2) p]
    using remove_unix_locks_succeeds [OF ok i3] by (auto simp: Let_def upd_lock_def inode_close_pending_sel take_off_sel)
qed

lemma lock_fd_no_conflict:
  assumes "fd_inode (fds s d) = Some i" "range_ok start (start + n)"
    and "\<forall>l \<in> set (in_locks (inodes s i)). \<not> (lock_overlaps (file_locks s l) start (start + n)
        \<and> \<not> (sh \<and> (fl_shared (file_locks s l) \<or> fl_fd (file_locks s l) = d)))"
  shows "snd (lock_fd env p d start n sh w s) =
    (case snd (add_lock env p d sh start (start + n) s) of
       Inr l \<Rightarrow> Lock_Done
     | Inl err \<Rightarrow> if err = STATUS_FILE_LOCK_CONFLICT \<and> w then Lock_Pending None else Lock_Failed err)"
proof -
  let ?P = "\<lambda>l. lock_overlaps (file_locks s l) start (start + n) \<and> \<not> (sh \<and> (fl_shared (file_locks s l) \<or> fl_fd (file_locks s l) = d))"
  have "List.find ?P (in_locks (inodes s i)) = None" using assms(3) by (simp add: find_None_iff)
  moreover have "\<not> (start + n \<noteq> 0 \<and> start + n < start)" using assms(2) by (auto simp: range_ok_def)
  ultimately show ?thesis using assms(1)
    by (cases "add_lock env p d sh start (start + n) s") (auto simp: lock_fd_def Let_def split: sum.split)
qed

lemma lock_fd_conflict:
  assumes "fd_inode (fds s d) = Some i" "range_ok start (start + n)" "l \<in> set (in_locks (inodes s i))"
    "lock_overlaps (file_locks s l) start (start + n) \<and> \<not> (sh \<and> (fl_shared (file_locks s l) \<or> fl_fd (file_locks s l) = d))"
  shows "snd (lock_fd env p d start n sh w s) \<noteq> Lock_Done \<and> fst (lock_fd env p d start n sh w s) = s"
proof -
  let ?P = "\<lambda>l. lock_overlaps (file_locks s l) start (start + n) \<and> \<not> (sh \<and> (fl_shared (file_locks s l) \<or> fl_fd (file_locks s l) = d))"
  obtain l' where "List.find ?P (in_locks (inodes s i)) = Some l'"
    using assms(3,4) by (cases "List.find ?P (in_locks (inodes s i))") (auto simp: find_None_iff)
  moreover have "\<not> (start + n \<noteq> 0 \<and> start + n < start)" using assms(2) by (auto simp: range_ok_def)
  ultimately show ?thesis using assms(1) by (auto simp: lock_fd_def Let_def)
qed

section \<open>Properties\<close>





text \<open>
  C39. A file may be opened exactly if its sharing modes go with those of every other open file of the inode: the loop that
  merges all sharing modes and all accesses decides the same as a comparison with each of them.
\<close>

theorem check_sharing_pairwise:
  assumes "fd_inode (fds s d) = Some i"
  shows "snd (check_sharing d access sharing trunc options s) = 0 \<longleftrightarrow>
    (\<forall>f \<in> set (in_open (inodes s i)). f \<noteq> d \<longrightarrow> may_join access sharing trunc options (fds s f))"
  using assms by (auto simp: check_sharing_def Let_def check_sharing_modes_zero upd_fd_def)

text \<open>Closing one of several files while locks remain keeps the descriptor for later.\<close>

lemma fd_destroy_waits:
  assumes "remove_fd_locks env d s = s1" "e \<in> set (in_open (inodes s1 i))" "fd_inode (fds s1 d) = Some i" "in_locks (inodes s1 i) \<noteq> []" "e \<noteq> d"
  shows "fd_destroy env d s = upd_inode i (\<lambda>n. n\<lparr>in_open := remove1 d (in_open n), in_closed := fd_closed (fds s1 d) # in_closed n\<rparr>) s1"
proof -
  have "remove1 d (in_open (inodes s1 i)) \<noteq> []" using assms(2,5) by (metis empty_iff in_set_remove1 list.set(1))
  then show ?thesis using assms by (simp add: fd_destroy_def Let_def inode_add_closed_fd_def upd_inode_def)
qed


text \<open>
  A lock of no bytes at offset 0 is in the way of every exclusive request for a range that does not wrap around, because its end is
  taken for infinity.
\<close>

lemma empty_lock_blocks_file:
  assumes "fd_inode (fds s d) = Some i" "l \<in> set (in_locks (inodes s i))" "fl_start (file_locks s l) = 0" "fl_end (file_locks s l) = 0"
    and "range_ok start (start + n)"
  shows "snd (lock_fd env p d start n False w s) \<noteq> Lock_Done"
proof -
  have "lock_overlaps (file_locks s l) start (start + n)" using assms(3,4) by (auto simp: lock_overlaps_def)
  then show ?thesis using lock_fd_conflict [OF assms(1,5,2)] by simp
qed

section \<open>Examples\<close>

text \<open>Two open files of inode 0; the first has byte 10 locked, the second bytes 20 to 29.\<close>

definition ex_env :: unix_env where
  "ex_env = \<lparr>setlk_errno = (\<lambda>_. None), getlk_ok = (\<lambda>_. True), malloc_ok = (\<lambda>_. True), same_file = (\<lambda>_. True)\<rparr>"

definition ex_open :: "fd_id \<Rightarrow> fd_state \<Rightarrow> fd_state" where
  "ex_open d s = fst (open_fd_inode ex_env d 0 (5 + int d) ''file'' False True False False FILE_READ_DATA 7 0 s)"

definition ex_files :: fd_state where
  "ex_files = ex_open 1 (ex_open 0 fd_init)"

definition ex_locks :: fd_state where
  "ex_locks = fst (lock_fd ex_env 1 1 20 10 False False (fst (lock_fd ex_env 1 0 10 1 False False ex_files)))"

lemma ex_files_sel:
  "in_open (inodes ex_files 0) = [1, 0]" "in_locks (inodes ex_files 0) = []" "next_lock ex_files = 0" "fd_inode (fds ex_files 0) = Some 0"
  by code_simp+

lemma ex_locks_sel:
  "in_open (inodes ex_locks 0) = [1, 0]" "in_locks (inodes ex_locks 0) = [0, 1]" "fd_locks (fds ex_locks 0) = [0]"
  "fd_inode (fds ex_locks 0) = Some 0" "fd_inode (fds ex_locks 1) = Some 0" "fd_fs_locks (fds ex_locks 0)" "fd_fs_locks (fds ex_locks 1)"
  "fl_start (file_locks ex_locks 0) = 10" "fl_end (file_locks ex_locks 0) = 11" "fl_start (file_locks ex_locks 1) = 20"
  "fl_end (file_locks ex_locks 1) = 30" "fl_fd (file_locks ex_locks 0) = 0" "fl_fd (file_locks ex_locks 1) = 1"
  "max_unix_offset ex_locks = OFF_T_MAX" "\<not> fl_shared (file_locks ex_locks 1)"
  by code_simp+

lemmas ex_simps = ex_files_sel ex_files_sel [unfolded One_nat_def] ex_locks_sel ex_locks_sel [unfolded One_nat_def]

lemma fresh_unused: "fd_inv s \<Longrightarrow> fd_inode (fds s d) = None \<Longrightarrow> fresh_fd d s"
  by (auto simp: fresh_fd_def fd_inv_def opens_agree_def)

lemma ex_open_step:
  assumes "fd_step\<^sup>*\<^sup>* fd_init s" "fd_inode (fds s d) = None"
  shows "fd_step\<^sup>*\<^sup>* fd_init (ex_open d s)"
proof -
  have "fd_step s (ex_open d s)"
    unfolding ex_open_def by (rule fd_step.open_file) (rule fresh_unused [OF fd_steps_inv [OF assms(1)] assms(2)])
  then show ?thesis using assms(1) by simp
qed

lemma ex_files_reach: "fd_step\<^sup>*\<^sup>* fd_init ex_files"
proof -
  have "fd_inode (fds fd_init 0) = None" "fd_inode (fds (ex_open 0 fd_init) 1) = None" by code_simp+
  then show ?thesis unfolding ex_files_def by (intro ex_open_step rtranclp.rtrancl_refl)
qed

lemma ex_locks_reach: "fd_step\<^sup>*\<^sup>* fd_init ex_locks"
proof -
  let ?s1 = "fst (lock_fd ex_env 1 0 10 1 False False ex_files)"
  have "1 \<in> set (in_open (inodes ?s1 0))" by code_simp
  then have "fd_step ?s1 ex_locks" unfolding ex_locks_def by (rule fd_step.lock)
  moreover have "0 \<in> set (in_open (inodes ex_files 0))" by (simp add: ex_files_sel)
  then have "fd_step ex_files ?s1" by (rule fd_step.lock)
  ultimately show ?thesis using ex_files_reach by (meson rtranclp.rtrancl_into_rtrancl)
qed

lemma ex_env_works: "\<forall>n. setlk_errno ex_env n = None" "\<forall>n. malloc_ok ex_env n"
  by (simp_all add: ex_env_def)



lemma ex_unlocked:
  "snd (unlock_fd ex_env 1 20 10 ex_locks) = None" "in_locks (inodes (fst (unlock_fd ex_env 1 20 10 ex_locks)) 0) = [0]"
  "fl_start (file_locks (fst (unlock_fd ex_env 1 20 10 ex_locks)) 0) = 10" "fl_end (file_locks (fst (unlock_fd ex_env 1 20 10 ex_locks)) 0) = 11"
  by code_simp+



theorem check_sharing_pairwise_witness:
  "snd (check_sharing 0 FILE_WRITE_DATA 7 False 0 ex_files) = 0 \<longleftrightarrow> may_join FILE_WRITE_DATA 7 False 0 (fds ex_files 1)"
  using check_sharing_pairwise [OF ex_files_sel(4), of FILE_WRITE_DATA 7 False 0] by (simp add: ex_simps)


end
