(* ===== verification/Spec2Isabelle.thy ===== *)
theory Spec2Isabelle
  imports Region_Correct Unicode_Roundtrip Atom_Correct Handle_Access Sync_Properties User_Handle_Correct File_Lock_Properties
begin

text \<open>
  Verification of wineserver (\<^verbatim>\<open>src/server\<close>), the process behind Wine that owns the state shared by all
  Windows processes. Clients send requests; the server looks up the objects behind their handles,
  checks their rights, changes the objects and wakes up the threads that wait for them. It is a
  single-threaded C program, so that a request is a function from states to states, and a history of the
  server is a sequence of such steps.

  \<^bold>\<open>Conventions.\<close> A C structure is a record, a failing operation returns a sum with the NTSTATUS value on
  the left, or the status beside the new state. Machine integers are words where they wrap around, and
  otherwise integers or natural numbers with the wrap-around written out. Pointers to objects are
  indices or partial functions. What is decided outside of the modelled code is an argument: the result of
  allocations and system calls, the case table loaded from a file, the operations behind function
  pointers. A failed assertion, a write outside an array or a use of NULL sets a flag of the state
  (\<open>failed\<close>, \<open>sync_failed\<close>, \<open>user_failed\<close>, \<open>fd_failed\<close>), and a read outside a buffer gives \<open>None\<close>, so that
  the absence of such errors is something to prove.

  \<^bold>\<open>Shared theory.\<close> \<open>Wine_Prelude\<close> has the machine types, the status values of \<^verbatim>\<open>include/ntstatus.h\<close>, facts on
  lists, and the locale \<open>step_invariant\<close>: what each single step keeps holds after any sequence of steps. It
  is interpreted for the steps of handle tables, tokens, synchronization objects and files.

  \<^bold>\<open>Window regions\<close> (\<^verbatim>\<open>region.c\<close>, and the rectangle helpers of \<^verbatim>\<open>user.h\<close>). \<open>Rectangles\<close> and \<open>Regions\<close> are the
  model, one definition per C function. \<open>Region_Bands\<close> shows what the functions on a single band compute,
  \<open>Region_Ops\<close> treats coalescing and the main loop of \<^verbatim>\<open>region_op\<close>. \<open>Region_Combine\<close> states the contract of the
  functions passed to \<^verbatim>\<open>region_op\<close> as the locale \<open>band_op\<close>, which \<open>Region_Correct\<close> interprets for intersection,
  difference and union. The exported operations keep regions well-formed and compute the set operations on
  points; queries are exact; data from clients is validated; region data round-trips.

  \<^bold>\<open>Strings and atoms\<close> (\<^verbatim>\<open>unicode.c\<close>, \<^verbatim>\<open>atom.c\<close>). \<open>Unicode_Strings\<close> models case folding, hashing and the escaped
  form of strings in registry files, and \<open>Unicode_Roundtrip\<close> shows that \<^verbatim>\<open>parse_strW\<close> reads back what
  \<^verbatim>\<open>dump_strW\<close> writes. \<open>Atoms\<close> models the atom tables on top of the folded strings; \<open>Atom_Correct\<close> shows their invariant
  and that they refine a map from folded names to handles and reference counts.

  \<^bold>\<open>Objects and handles\<close> (\<^verbatim>\<open>object.c\<close>, \<^verbatim>\<open>handle.c\<close>, and \<^verbatim>\<open>process.c\<close> where a process gets its handle table).
  \<open>Objects\<close> models reference counts and destruction, \<open>Handles\<close> the local and global tables and the requests
  on them. \<open>Handle_Correct\<close> has the invariant, an exact account of all references, \<open>Handle_Requests\<close> the step
  relation, \<open>Handle_Properties\<close> the results: no use after free, no overrun, new handles work, closing
  changes nothing else. Global handles passed to \<^verbatim>\<open>close_handle\<close> do overrun the table, which is shown too.

  \<^bold>\<open>Security\<close> (\<^verbatim>\<open>security.h\<close>, \<^verbatim>\<open>token.c\<close>). \<open>Security_Data\<close> models descriptors as bytes of a request buffer and
  \<open>Security_Correct\<close> shows when a validated descriptor can be read safely, and that replacing labels is exact. \<open>Tokens\<close>
  models tokens and the access check; \<open>Token_Correct\<close> compares the check with a reading of access lists bit by bit,
  \<open>Token_Rights\<close> shows that derived tokens gain no rights. \<open>Handle_Access\<close> puts the access check into the
  environment of the handle tables: an opened handle has only rights that the list of the object allows.

  \<^bold>\<open>Synchronization\<close> (\<^verbatim>\<open>event.c\<close>, \<^verbatim>\<open>semaphore.c\<close>, \<^verbatim>\<open>mutex.c\<close>, and the waits of \<^verbatim>\<open>thread.c\<close>). \<open>Sync\<close> is the model,
  \<open>Sync_Correct\<close> has the invariant and the wake-up loops, \<open>Sync_Steps\<close> and \<open>Sync_Select\<close> the requests, \<open>Sync_Properties\<close>
  the step relation and the results: no wake-up is lost, a killed thread releases all it has, and two
  situations in which the code goes wrong.

  \<^bold>\<open>User handles\<close> (\<^verbatim>\<open>user.c\<close>). \<open>User_Handles\<close> models the table of windows, hooks, menus and so on that is shared with
  the clients. \<open>User_Handle_Correct\<close> shows the invariant of its free list and generations, the refinement
  of a map of live entries, and how long a freed handle stays invalid.

  \<^bold>\<open>Files\<close> (\<^verbatim>\<open>fd.c\<close>, and \<^verbatim>\<open>file_set_error\<close> of \<^verbatim>\<open>file.c\<close>). \<open>File_Locks\<close> models inodes, open files, sharing modes and byte-range
  locks, with the locks that the kernel holds as part of the state. \<open>File_Lock_Holes\<close> shows that the holes between
  the remaining locks are computed exactly, \<open>File_Lock_Unix\<close> what the system calls do to the kernel's locks,
  \<open>File_Lock_Correct\<close> and \<open>File_Lock_Steps\<close> that every operation keeps the invariant. \<open>File_Lock_Properties\<close> has the step
  relation and the results: locks exclude each other, every locked byte is locked in the kernel as well,
  locking and unlocking are exact, and merged sharing modes decide like a comparison of all pairs.

  \<^bold>\<open>Bounds.\<close> Recursion that is not structural has a termination proof. Three loops take the number of rounds as
  an argument, which their callers set to the length of the list that they empty: abandoning the mutexes of a
  thread, and removing the locks of a process or of an open file. Each round removes one element, and the lists
  are shown to be empty at the end. A freed user handle is rejected while its slot is allocated fewer than 65534
  times, the number of generations. Kernel locks are compared up to \<open>max_unix_offset\<close>, beyond
  which the server sets none.

  \<^bold>\<open>Restrictions.\<close> The step relations have guards where the code does not hold what it promises without
  them: global handles (\<open>handle_step\<close>), duplicate objects and nested waits (\<open>select_guard\<close>), waits that expire
  together (\<open>sync_step\<close>), and a full table (\<open>user_room\<close>). Most of these cases have a lemma
  that shows what goes wrong.

  \<^bold>\<open>Not modelled.\<close> The poll loop, timers, asynchronous I/O, sockets, pipes, devices and mappings, which are system calls;
  the name space of objects with directories and links; the registry apart from its strings; windows,
  messages, hooks and input apart from regions and handles; process creation apart from handle tables; debugging; keyed
  events and the synchronization device of the kernel. The libraries, programs, loader and tools outside of \<^verbatim>\<open>src/server\<close> are
  clients of the server or its build environment and are not part of the development.
\<close>

end
